(* ===== verification/RuBLE_Prelude.thy ===== *)
theory RuBLE_Prelude imports Main "HOL-Library.Word" begin

text \<open>
  Shared vocabulary of the development: the errors the C++ code can end in, the machine types,
  the effectful computations (a state transformer whose result is an error or a value), generic
  transition systems with reachability, and the three-way comparison of C++20.
  Two collections of facts steer the automation of the component theories:
  \<open>act_simps\<close> evaluates effectful computations, \<open>inv_intros\<close> collects the facts that an
  operation keeps the invariant of its component.
\<close>

named_theorems act_simps
named_theorems inv_intros

subsection \<open>Errors and results\<close>

text \<open>
  The exceptions the sources throw (\<open>std::invalid_argument\<close>, \<open>std::runtime_error\<close>), the ones
  the standard library throws for them (\<open>std::out_of_range\<close> of \<open>map::at\<close>,
  \<open>std::length_error\<close> of the string constructor), a failed \<open>assert\<close>, an exception raised by the
  Ruby runtime or by SimpleBLE (with a name), \<open>std::terminate\<close> and undefined behaviour.
\<close>

datatype error =
    InvalidArgument string
  | RuntimeError string
  | OutOfRange
  | LengthError
  | AssertionFailure
  | ForeignException string
  | Terminated
  | UndefinedBehaviour

type_synonym byte = "8 word"
type_synonym bytes = "byte list"
type_synonym u8 = "8 word"
type_synonym u64 = "64 word"

lemma unat_bound: "unat (w :: 'a::len word) < 2 ^ LENGTH('a)"
  by (rule unsigned_less)

lemma unat_byte_bound [simp]: "unat (b :: 8 word) < 256"
  using unat_bound [of b] by simp

lemma nat_sint: "0 \<le> sint (w :: 'a::len word) \<Longrightarrow> nat (sint w) = unat w"
proof -
  assume nonneg: "0 \<le> sint w"
  have "sint w < 2 ^ (LENGTH('a) - 1)" by (rule sint_lt)
  also have "(2::int) ^ (LENGTH('a) - 1) \<le> 2 ^ LENGTH('a)" by (rule power_increasing) auto
  finally have "uint w = sint w" using nonneg by (simp add: uint_sint take_bit_int_eq_self)
  then show ?thesis by (metis unat_eq_nat_uint)
qed

text \<open>A fallible value, and the sequencing of two fallible computations.\<close>

type_synonym 'a result = "error + 'a"

definition bindR :: "'a result \<Rightarrow> ('a \<Rightarrow> 'b result) \<Rightarrow> 'b result" where
  "bindR r f = (case r of Inl e \<Rightarrow> Inl e | Inr x \<Rightarrow> f x)"

lemma bindR_simps [simp]:
  "bindR (Inl e) f = Inl e"
  "bindR (Inr x) f = f x"
  by (simp_all add: bindR_def)

lemma bindR_Inr_iff: "bindR r f = Inr y \<longleftrightarrow> (\<exists>x. r = Inr x \<and> f x = Inr y)"
  by (cases r) simp_all

text \<open>
  A loop that updates an accumulator by a fallible body and leaves at the first exception, as a
  C++ range-for whose body throws.
\<close>

fun foldR :: "('a \<Rightarrow> 'b \<Rightarrow> 'b result) \<Rightarrow> 'a list \<Rightarrow> 'b \<Rightarrow> 'b result" where
  "foldR f [] acc = Inr acc"
| "foldR f (x # xs) acc = bindR (f x acc) (foldR f xs)"

lemma foldR_append: "foldR f (xs @ ys) acc = bindR (foldR f xs acc) (foldR f ys)"
  by (induction xs arbitrary: acc) (auto simp: bindR_def split: sum.splits)

lemma foldR_invariant:
  assumes "foldR f xs acc = Inr r" and "P acc"
    and "\<And>x a b. x \<in> set xs \<Longrightarrow> P a \<Longrightarrow> f x a = Inr b \<Longrightarrow> P b"
  shows "P r"
  using assms by (induction xs arbitrary: acc) (auto simp: bindR_Inr_iff)

subsection \<open>Effectful computations\<close>

text \<open>
  A member function that changes the state and may throw: the state after it is there in both
  cases, because an exception does not undo what was done before it.
\<close>

type_synonym ('w, 'a) act = "'w \<Rightarrow> 'a result \<times> 'w"

definition retA :: "'a \<Rightarrow> ('w, 'a) act" where
  "retA x w = (Inr x, w)"

definition throwA :: "error \<Rightarrow> ('w, 'a) act" where
  "throwA e w = (Inl e, w)"

definition bindA :: "('w, 'a) act \<Rightarrow> ('a \<Rightarrow> ('w, 'b) act) \<Rightarrow> ('w, 'b) act" where
  "bindA m f w = (case m w of (Inl e, w') \<Rightarrow> (Inl e, w') | (Inr x, w') \<Rightarrow> f x w')"

definition seqA :: "('w, 'a) act \<Rightarrow> ('w, 'b) act \<Rightarrow> ('w, 'b) act" where
  "seqA m n = bindA m (\<lambda>_. n)"

definition getA :: "('w \<Rightarrow> 'a) \<Rightarrow> ('w, 'a) act" where
  "getA f w = (Inr (f w), w)"

definition modifyA :: "('w \<Rightarrow> 'w) \<Rightarrow> ('w, unit) act" where
  "modifyA f w = (Inr (), f w)"

definition liftA :: "'a result \<Rightarrow> ('w, 'a) act" where
  "liftA r w = (r, w)"

text \<open>A range-for over a list with an effectful body, and the same collecting the results.\<close>

fun for_eachA :: "('v \<Rightarrow> ('w, 'a) act) \<Rightarrow> 'v list \<Rightarrow> ('w, unit) act" where
  "for_eachA f [] = retA ()"
| "for_eachA f (x # xs) = seqA (f x) (for_eachA f xs)"

fun mapA :: "('v \<Rightarrow> ('w, 'a) act) \<Rightarrow> 'v list \<Rightarrow> ('w, 'a list) act" where
  "mapA f [] = retA []"
| "mapA f (x # xs) = bindA (f x) (\<lambda>y. bindA (mapA f xs) (\<lambda>ys. retA (y # ys)))"

lemma act_apply [act_simps]:
  "retA x w = (Inr x, w)"
  "throwA e w = (Inl e, w)"
  "getA f w = (Inr (f w), w)"
  "modifyA g w = (Inr (), g w)"
  "liftA r w = (r, w)"
  by (simp_all add: retA_def throwA_def getA_def modifyA_def liftA_def)

lemma bindA_apply [act_simps]:
  "m w = (Inl e, w') \<Longrightarrow> bindA m f w = (Inl e, w')"
  "m w = (Inr x, w') \<Longrightarrow> bindA m f w = f x w'"
  by (simp_all add: bindA_def)

lemma seqA_apply [act_simps]:
  "m w = (Inl e, w') \<Longrightarrow> seqA m n w = (Inl e, w')"
  "m w = (Inr x, w') \<Longrightarrow> seqA m n w = n w'"
  by (simp_all add: seqA_def bindA_def)

lemma bindA_units [act_simps]:
  "bindA (retA x) f = f x"
  "bindA (throwA e) f = throwA e"
  "bindA m retA = m"
  by (auto simp: fun_eq_iff bindA_def retA_def throwA_def split: prod.splits sum.splits)

lemma bindA_assoc: "bindA (bindA m f) g = bindA m (\<lambda>x. bindA (f x) g)"
  by (auto simp: fun_eq_iff bindA_def split: prod.splits sum.splits)

lemma bindA_InrE:
  assumes "bindA m f w = (Inr y, w')"
  obtains x v where "m w = (Inr x, v)" and "f x v = (Inr y, w')"
  using assms by (auto simp: bindA_def split: prod.splits sum.splits)

lemma bindA_cases:
  assumes "bindA m f w = (r, w')"
  obtains e where "m w = (Inl e, w')" and "r = Inl e"
  | x v where "m w = (Inr x, v)" and "f x v = (r, w')"
  using assms by (auto simp: bindA_def split: prod.splits sum.splits)

text \<open>What every step of an effectful loop keeps, the loop keeps, with or without an exception.\<close>

definition keeps :: "('w \<Rightarrow> bool) \<Rightarrow> ('w, 'a) act \<Rightarrow> bool" where
  "keeps P m \<longleftrightarrow> (\<forall>w. P w \<longrightarrow> P (snd (m w)))"

lemma keepsI: "(\<And>w. P w \<Longrightarrow> P (snd (m w))) \<Longrightarrow> keeps P m"
  by (simp add: keeps_def)

lemma keepsD: "keeps P m \<Longrightarrow> P w \<Longrightarrow> P (snd (m w))"
  by (simp add: keeps_def)

lemma keeps_basic [inv_intros]: "keeps P (retA x)" "keeps P (throwA e)" "keeps P (getA f)"
  "keeps P (liftA r)"
  by (simp_all add: keeps_def act_simps)

lemma keeps_bindA [inv_intros]: "keeps P m \<Longrightarrow> (\<And>x. keeps P (f x)) \<Longrightarrow> keeps P (bindA m f)"
  unfolding keeps_def bindA_def by (fastforce split: prod.splits sum.splits)

lemma keeps_seqA [inv_intros]: "keeps P m \<Longrightarrow> keeps P n \<Longrightarrow> keeps P (seqA m n)"
  unfolding seqA_def by (rule keeps_bindA)

lemma keeps_for_eachA [inv_intros]: "(\<And>x. x \<in> set xs \<Longrightarrow> keeps P (f x)) \<Longrightarrow> keeps P (for_eachA f xs)"
  by (induction xs) (auto intro: inv_intros)

lemma keeps_mapA [inv_intros]: "(\<And>x. x \<in> set xs \<Longrightarrow> keeps P (f x)) \<Longrightarrow> keeps P (mapA f xs)"
  by (induction xs) (auto intro!: inv_intros)

lemma mapA_Cons_Inr_iff:
  "mapA f (x # xs) w = (Inr r, w') \<longleftrightarrow>
     (\<exists>y u ys. f x w = (Inr y, u) \<and> mapA f xs u = (Inr ys, w') \<and> r = y # ys)"
  by (auto simp: bindA_def retA_def split: prod.splits sum.splits)

lemma for_eachA_Cons_Inr_iff:
  "for_eachA f (x # xs) w = (Inr r, w') \<longleftrightarrow>
     (\<exists>y u. f x w = (Inr y, u) \<and> for_eachA f xs u = (Inr r, w'))"
  by (auto simp: seqA_def bindA_def split: prod.splits sum.splits)

subsection \<open>Transition systems\<close>

text \<open>
  Reachability of a step relation from the initial states, and the rule that an inductive
  invariant holds in every reachable state: the contract a component with concurrent steps
  discharges for its own relation.
\<close>

inductive reachable :: "('s \<Rightarrow> bool) \<Rightarrow> ('s \<Rightarrow> 's \<Rightarrow> bool) \<Rightarrow> 's \<Rightarrow> bool"
  for init :: "'s \<Rightarrow> bool" and step :: "'s \<Rightarrow> 's \<Rightarrow> bool" where
  reach_init: "init s \<Longrightarrow> reachable init step s"
| reach_step: "reachable init step s \<Longrightarrow> step s t \<Longrightarrow> reachable init step t"

locale inductive_invariant =
  fixes init :: "'s \<Rightarrow> bool" and step :: "'s \<Rightarrow> 's \<Rightarrow> bool" and inv :: "'s \<Rightarrow> bool"
  assumes inv_init: "init s \<Longrightarrow> inv s"
    and inv_step: "inv s \<Longrightarrow> step s t \<Longrightarrow> inv t"
begin

lemma inv_reachable: "reachable init step s \<Longrightarrow> inv s"
  by (induction rule: reachable.induct) (auto intro: inv_init inv_step)

lemma inv_after_steps: "step\<^sup>*\<^sup>* s t \<Longrightarrow> inv s \<Longrightarrow> inv t"
  by (induction rule: rtranclp_induct) (auto intro: inv_step)

end

text \<open>
  A step relation implements another one when each of its steps from a reachable state is, seen through
  an abstraction function, a step of the other or none at all.
\<close>

locale simulation =
  fixes init :: "'s \<Rightarrow> bool" and step :: "'s \<Rightarrow> 's \<Rightarrow> bool"
    and ainit :: "'a \<Rightarrow> bool" and astep :: "'a \<Rightarrow> 'a \<Rightarrow> bool" and abs :: "'s \<Rightarrow> 'a"
  assumes sim_init: "init s \<Longrightarrow> ainit (abs s)"
    and sim_step: "reachable init step s \<Longrightarrow> step s t \<Longrightarrow> abs t = abs s \<or> astep (abs s) (abs t)"
begin

lemma sim_reachable: "reachable init step s \<Longrightarrow> reachable ainit astep (abs s)"
proof (induction rule: reachable.induct)
  case (reach_init s)
  then show ?case by (intro reachable.reach_init sim_init)
next
  case (reach_step s t)
  then show ?case using sim_step [OF reach_step(1,2)] by (auto intro: reachable.reach_step)
qed

lemma sim_invariant: "(\<And>a. reachable ainit astep a \<Longrightarrow> I a) \<Longrightarrow> reachable init step s \<Longrightarrow> I (abs s)"
  by (blast intro: sim_reachable)

end

subsection \<open>Three-way comparison\<close>

text \<open>
  \<open>std::strong_ordering\<close>; its values \<open>equal\<close> and \<open>equivalent\<close> are one value. A comparison that
  answers \<open>Ord_equal\<close> for equal arguments only, flips with its arguments and is transitive makes
  \<open>\<le>\<close> a total order.
\<close>

datatype strong_ordering = Ord_less | Ord_equal | Ord_greater

fun flip_ordering :: "strong_ordering \<Rightarrow> strong_ordering" where
  "flip_ordering Ord_less = Ord_greater"
| "flip_ordering Ord_equal = Ord_equal"
| "flip_ordering Ord_greater = Ord_less"

lemma flip_ordering_eq [simp]:
  "flip_ordering c = Ord_less \<longleftrightarrow> c = Ord_greater"
  "flip_ordering c = Ord_greater \<longleftrightarrow> c = Ord_less"
  "flip_ordering c = Ord_equal \<longleftrightarrow> c = Ord_equal"
  by (cases c; simp)+

locale three_way =
  fixes cmp :: "'a \<Rightarrow> 'a \<Rightarrow> strong_ordering"
  assumes cmp_equal_iff: "cmp a b = Ord_equal \<longleftrightarrow> a = b"
    and cmp_flip: "cmp b a = flip_ordering (cmp a b)"
    and cmp_less_trans: "cmp a b = Ord_less \<Longrightarrow> cmp b c = Ord_less \<Longrightarrow> cmp a c = Ord_less"
begin

lemma cmp_refl: "cmp a a = Ord_equal"
  by (simp add: cmp_equal_iff)

lemma le_total: "cmp a b \<noteq> Ord_greater \<or> cmp b a \<noteq> Ord_greater"
  using cmp_flip [of b a] by (cases "cmp a b") auto

lemma le_antisym: "cmp a b \<noteq> Ord_greater \<Longrightarrow> cmp b a \<noteq> Ord_greater \<Longrightarrow> a = b"
  using cmp_flip [of b a] by (cases "cmp a b") (auto simp: cmp_equal_iff)

lemma le_trans: "cmp a b \<noteq> Ord_greater \<Longrightarrow> cmp b c \<noteq> Ord_greater \<Longrightarrow> cmp a c \<noteq> Ord_greater"
  by (cases "cmp a b"; cases "cmp b c")
    (auto simp: cmp_equal_iff cmp_refl dest: cmp_less_trans)

lemma less_iff: "cmp a b = Ord_less \<longleftrightarrow> cmp a b \<noteq> Ord_greater \<and> cmp b a = Ord_greater"
  using cmp_flip [of b a] by (cases "cmp a b") auto

end

end
