(* ===== verification/Std_Map.thy ===== *)
theory Std_Map imports RuBLE_Prelude "HOL-Library.List_Lexorder" "HOL-Library.Char_ord" begin

text \<open>
  \<open>std::map\<close> as far as the sources use it (\<open>emplace\<close>, \<open>find\<close>, \<open>at\<close>, \<open>contains\<close>, \<open>size\<close>, the
  range constructor and iteration in key order), as an association list in strictly ascending key
  order; keys that are strings compare lexicographically by unsigned characters, as
  \<open>std::string\<close> does. On top of it \<open>RuBLE::Utils::map_by\<close> (\<open>utils/containers.hpp\<close>).
\<close>

type_synonym ('k, 'v) std_map = "('k \<times> 'v) list"

definition map_ok :: "('k::linorder, 'v) std_map \<Rightarrow> bool" where
  "map_ok m \<longleftrightarrow> sorted_wrt (<) (map fst m)"

definition map_find :: "('k, 'v) std_map \<Rightarrow> 'k \<Rightarrow> 'v option" where
  "map_find m k = map_of m k"

definition map_contains :: "('k, 'v) std_map \<Rightarrow> 'k \<Rightarrow> bool" where
  "map_contains m k = (map_find m k \<noteq> None)"

definition map_at :: "('k, 'v) std_map \<Rightarrow> 'k \<Rightarrow> 'v result" where
  "map_at m k = (case map_find m k of None \<Rightarrow> Inl OutOfRange | Some v \<Rightarrow> Inr v)"

text \<open>\<open>emplace\<close> keeps the element that is already there.\<close>

fun map_emplace :: "'k::linorder \<Rightarrow> 'v \<Rightarrow> ('k, 'v) std_map \<Rightarrow> ('k, 'v) std_map" where
  "map_emplace k v [] = [(k, v)]"
| "map_emplace k v ((k', v') # m) =
     (if k < k' then (k, v) # (k', v') # m
      else if k = k' then (k', v') # m
      else (k', v') # map_emplace k v m)"

text \<open>The range constructor inserts the pairs from left to right.\<close>

definition map_from_range :: "('k::linorder \<times> 'v) list \<Rightarrow> ('k, 'v) std_map" where
  "map_from_range ps = fold (\<lambda>(k, v) m. map_emplace k v m) ps []"

definition map_by :: "('v \<Rightarrow> 'k::linorder) \<Rightarrow> 'v list \<Rightarrow> ('k, 'v) std_map" where
  "map_by f r = map_from_range (map (\<lambda>val. (f val, val)) r)"

subsection \<open>Laws\<close>

lemma map_ok_Nil [simp]: "map_ok []"
  by (simp add: map_ok_def)

lemma set_map_emplace_keys: "fst ` set (map_emplace k v m) = insert k (fst ` set m)"
  by (induction k v m rule: map_emplace.induct) (simp_all add: insert_commute)

lemma map_ok_emplace [inv_intros]: "map_ok m \<Longrightarrow> map_ok (map_emplace k v m)"
proof (induction m)
  case (Cons p m)
  obtain k' v' where p: "p = (k', v')" by (cases p)
  show ?case
  proof (cases "k' < k")
    case True
    with Cons.prems p have "\<forall>x \<in> insert k (fst ` set m). k' < x"
      by (auto simp: map_ok_def)
    then have "\<forall>x \<in> fst ` set (map_emplace k v m). k' < x"
      by (simp only: set_map_emplace_keys)
    with Cons True p show ?thesis by (auto simp: map_ok_def)
  next
    case False
    with Cons.prems p show ?thesis by (auto simp: map_ok_def)
  qed
qed (simp add: map_ok_def)

lemma map_find_emplace:
  assumes "map_ok m"
  shows "map_find (map_emplace k v m) j =
    (if j = k \<and> map_find m k = None then Some v else map_find m j)"
  using assms
proof (induction m)
  case Nil
  then show ?case by (simp add: map_find_def)
next
  case (Cons p m)
  obtain k' v' where p: "p = (k', v')" by (cases p)
  have ok: "map_ok m" using Cons.prems by (simp add: map_ok_def)
  have fresh: "map_of m k = None" if "k < k'"
    using Cons.prems p that by (force simp: map_ok_def map_of_eq_None_iff)
  show ?case using Cons.IH [OF ok] fresh p by (auto simp: map_find_def)
qed

lemma map_find_emplace_same:
  "map_ok m \<Longrightarrow> map_find (map_emplace k v m) k = Some (case map_find m k of None \<Rightarrow> v | Some u \<Rightarrow> u)"
  by (auto simp: map_find_emplace split: option.splits)

lemma map_emplace_present: "map_ok m \<Longrightarrow> map_find m k = Some u \<Longrightarrow> map_emplace k v m = m"
proof (induction m)
  case (Cons p m)
  obtain k' v' where p: "p = (k', v')" by (cases p)
  have "map_of m k = None" if "k < k'"
    using Cons.prems(1) p that by (force simp: map_ok_def map_of_eq_None_iff)
  then show ?case using Cons p by (auto simp: map_find_def map_ok_def split: if_splits)
qed (simp add: map_find_def)

lemma length_map_emplace:
  "map_ok m \<Longrightarrow> length (map_emplace k v m) = (if map_contains m k then length m else Suc (length m))"
proof (induction m)
  case (Cons p m)
  obtain k' v' where p: "p = (k', v')" by (cases p)
  have "map_of m k = None" if "k < k'"
    using Cons.prems p that by (force simp: map_ok_def map_of_eq_None_iff)
  then show ?case using Cons p by (auto simp: map_contains_def map_find_def map_ok_def split: if_splits)
qed (simp add: map_contains_def map_find_def)

lemma map_find_in_set: "map_ok m \<Longrightarrow> map_find m k = Some v \<longleftrightarrow> (k, v) \<in> set m"
proof -
  assume "map_ok m"
  then have "distinct (map fst m)"
    by (auto simp: map_ok_def strict_sorted_iff)
  then show ?thesis by (simp add: map_find_def)
qed

lemma set_map_emplace: "set (map_emplace k v m) \<subseteq> insert (k, v) (set m)"
  by (induction k v m rule: map_emplace.induct) (auto split: if_splits)

lemma map_at_Inr_iff [simp]: "map_at m k = Inr v \<longleftrightarrow> map_find m k = Some v"
  by (simp add: map_at_def split: option.splits)

lemma map_at_Inl_iff [simp]: "map_at m k = Inl e \<longleftrightarrow> map_find m k = None \<and> e = OutOfRange"
  by (auto simp: map_at_def split: option.splits)

lemma fold_emplace_ok: "map_ok m \<Longrightarrow> map_ok (fold (\<lambda>(k, v) m. map_emplace k v m) ps m)"
  by (induction ps arbitrary: m) (auto intro: map_ok_emplace)

lemma fold_emplace_find:
  "map_ok m \<Longrightarrow> map_find (fold (\<lambda>(k, v) m. map_emplace k v m) ps m) k =
     (case map_find m k of Some v \<Rightarrow> Some v | None \<Rightarrow> map_of ps k)"
  by (induction ps arbitrary: m)
    (auto simp: map_ok_emplace map_find_emplace split: option.splits)

lemma map_ok_from_range [inv_intros]: "map_ok (map_from_range ps)"
  by (simp add: map_from_range_def fold_emplace_ok)

lemma map_find_from_range: "map_find (map_from_range ps) k = map_of ps k"
  by (simp add: map_from_range_def fold_emplace_find map_find_def [of "[]"])

text \<open>
  Two lists of pairs with distinct keys that are permutations of each other give the same map: the
  order of an unordered container does not show.
\<close>

lemma map_of_perm:
  assumes "distinct (map fst ps)" and "set ps = set qs" and "distinct (map fst qs)"
  shows "map_of ps = map_of qs"
proof
  fix k
  show "map_of ps k = map_of qs k"
    using assms by (metis map_of_eq_Some_iff not_None_eq)
qed

subsection \<open>map_by\<close>

lemma map_by_find: "map_find (map_by f r) k = find (\<lambda>v. f v = k) r"
  by (induction r) (auto simp: map_by_def map_find_from_range)

text \<open>
  \<open>map_by\<close> builds the map of a range by a key function: the element under a key is the first
  element of the range with that key, and iteration is in strictly ascending key order.
\<close>

theorem map_by_correct:
  "map_ok (map_by f r) \<and> (\<forall>k. map_at (map_by f r) k =
     (case find (\<lambda>v. f v = k) r of None \<Rightarrow> Inl OutOfRange | Some v \<Rightarrow> Inr v))"
  by (simp add: map_at_def map_by_find) (simp add: map_by_def map_ok_from_range)

end
