(* ===== verification/Hexadecimal.thy ===== *)
theory Hexadecimal imports RuBLE_Prelude begin

text \<open>
  \<open>utils/hexadecimal.hpp\<close>: hexadecimal text of integers, addresses and byte ranges.
  \<open>std::format\<close> with the format strings the sources use is modelled; the digits of a byte range
  come from \<open>boost::algorithm::hex_lower\<close>, which is the parameter \<open>hex_lower\<close>.
\<close>

definition hex_digit :: "nat \<Rightarrow> char" where
  "hex_digit n = ''0123456789abcdef'' ! n"

definition hex_string_prefix :: string where
  "hex_string_prefix = ''0x''"

definition hex_prefix_len :: nat where
  "hex_prefix_len = length hex_string_prefix"

text \<open>The digits of a number without leading zeros, at least one.\<close>

fun nat_hex :: "nat \<Rightarrow> string" where
  "nat_hex n = (if n < 16 then [hex_digit n] else nat_hex (n div 16) @ [hex_digit (n mod 16)])"

declare nat_hex.simps [simp del]

text \<open>
  \<open>std::format("{:#0{}x}", n, w)\<close> and \<open>std::format("{:0{}x}", n, w)\<close> of an unsigned value: the
  alternate form puts the prefix first, and the zeros that fill up to width \<open>w\<close> follow the prefix.
\<close>

definition std_format_hex :: "bool \<Rightarrow> nat \<Rightarrow> nat \<Rightarrow> string" where
  "std_format_hex alternate w n =
     (let pre = (if alternate then ''0x'' else ''''); digits = nat_hex n
      in pre @ replicate (w - length pre - length digits) (CHR ''0'') @ digits)"

definition ref_to_hex_string :: "bool \<Rightarrow> 'a::len word \<Rightarrow> string" where
  "ref_to_hex_string prefix num =
     (let result_len = max 2 (LENGTH('a) div 8 * 2) + (if prefix then 2 else 0)
      in std_format_hex prefix result_len (unat num))"

text \<open>\<open>to_hex_string<prefix>\<close> calls \<open>ref_to_hex_string(num)\<close> with the default \<open>prefix = true\<close>.\<close>

definition to_hex_string :: "bool \<Rightarrow> 'a::len word \<Rightarrow> string" where
  "to_hex_string prefix num = ref_to_hex_string True num"

text \<open>Addresses: \<open>ptr_to_hex_addr\<close> of a pointer (64 bits), \<open>rb_to_hex_addr\<close> of a Ruby VALUE.\<close>

definition ptr_to_hex_addr :: "bool \<Rightarrow> u64 \<Rightarrow> string" where
  "ptr_to_hex_addr prefix ptr = to_hex_string prefix ptr"

definition to_hex_addr :: "bool \<Rightarrow> u64 \<Rightarrow> string" where
  "to_hex_addr prefix ptr = ptr_to_hex_addr True ptr"

definition range_to_hex_data :: "(bytes \<Rightarrow> string) \<Rightarrow> bool \<Rightarrow> bytes \<Rightarrow> string" where
  "range_to_hex_data hex_lower prefix t =
     (let prefix_len = (if prefix then hex_prefix_len else 0);
          output0 = (if prefix then hex_string_prefix else '''');
          output1 = output0 @ hex_lower (dropWhile (\<lambda>b. 0 = b) t);
          moved_hex_pairs = length output1 - prefix_len
      in if moved_hex_pairs = 0 then output1 @ ''00'' else output1)"

definition to_hex_data :: "(bytes \<Rightarrow> string) \<Rightarrow> bool \<Rightarrow> bytes \<Rightarrow> string" where
  "to_hex_data hex_lower prefix t = range_to_hex_data hex_lower True t"

text \<open>
  What the Boost manual says of \<open>hex_lower\<close>: two lower-case digits per byte, the upper half first.
\<close>

definition boost_hex_lower :: "(bytes \<Rightarrow> string) \<Rightarrow> bool" where
  "boost_hex_lower h \<longleftrightarrow>
     (\<forall>bs. h bs = concat (map (\<lambda>b. [hex_digit (unat b div 16), hex_digit (unat b mod 16)]) bs))"

subsection \<open>Reading digits back\<close>

definition hex_digit_value :: "char \<Rightarrow> nat" where
  "hex_digit_value c = (let n = of_char c :: nat in if n < 58 then n - 48 else n - 87)"

definition hex_value :: "string \<Rightarrow> nat" where
  "hex_value s = foldl (\<lambda>acc c. 16 * acc + hex_digit_value c) 0 s"

lemma hex_digit_value_digit [simp]:
  assumes "n < 16"
  shows "hex_digit_value (hex_digit n) = n"
proof -
  have "list_all (\<lambda>n. hex_digit_value (hex_digit n) = n) [0..<16]" by code_simp
  with assms show ?thesis by (simp add: list_all_iff)
qed

lemma hex_value_Nil [simp]: "hex_value [] = 0"
  by (simp add: hex_value_def)

lemma hex_value_snoc [simp]: "hex_value (s @ [c]) = 16 * hex_value s + hex_digit_value c"
  by (simp add: hex_value_def)

lemma hex_value_append: "hex_value (s @ t) = 16 ^ length t * hex_value s + hex_value t"
proof (induction t rule: rev_induct)
  case (snoc c t)
  have "hex_value (s @ t @ [c]) = 16 * hex_value (s @ t) + hex_digit_value c"
    by (metis append.assoc hex_value_snoc)
  with snoc show ?case by simp
qed simp

lemma hex_value_zeros [simp]: "hex_value (replicate k (CHR ''0'')) = 0"
  by (induction k) (simp_all add: replicate_append_same [symmetric] hex_digit_value_def)

lemma hex_value_nat_hex: "hex_value (nat_hex n) = n"
proof (induction n rule: nat_hex.induct)
  case (1 n)
  show ?case
  proof (cases "n < 16")
    case True
    then show ?thesis by (simp add: nat_hex.simps [of n] hex_value_def)
  next
    case False
    with 1 show ?thesis by (simp add: nat_hex.simps [of n])
  qed
qed

lemma length_nat_hex: "0 < k \<Longrightarrow> n < 16 ^ k \<Longrightarrow> length (nat_hex n) \<le> k"
proof (induction n arbitrary: k rule: nat_hex.induct)
  case (1 n)
  show ?case
  proof (cases "n < 16")
    case True
    with 1 show ?thesis by (simp add: nat_hex.simps [of n])
  next
    case False
    then obtain k' where k: "k = Suc k'" "0 < k'"
      using 1 by (cases k; cases "k - 1") auto
    have "n div 16 < 16 ^ k'" using 1 k by (simp add: less_mult_imp_div_less mult.commute)
    with 1 False k show ?thesis by (simp add: nat_hex.simps [of n])
  qed
qed

subsection \<open>Properties\<close>

lemma unat_less_hex:
  assumes "8 dvd LENGTH('a::len)"
  shows "unat (num :: 'a word) < 16 ^ (LENGTH('a) div 8 * 2)"
proof -
  have "(16::nat) ^ (LENGTH('a) div 8 * 2) = (2 ^ 4) ^ (LENGTH('a) div 8 * 2)" by simp
  also have "\<dots> = 2 ^ (4 * (LENGTH('a) div 8 * 2))" by (rule power_mult [symmetric])
  also have "4 * (LENGTH('a) div 8 * 2) = LENGTH('a)" using assms by simp
  finally show ?thesis using unat_bound [of num] by simp
qed

lemma ref_to_hex_string_digits:
  fixes num :: "'a::len word"
  assumes "8 dvd LENGTH('a)"
  shows "\<exists>digits. ref_to_hex_string prefix num = (if prefix then ''0x'' else '''') @ digits
    \<and> length digits = 2 * (LENGTH('a) div 8) \<and> hex_value digits = unat num"
proof -
  let ?w = "LENGTH('a) div 8 * 2"
  define z where "z = replicate (?w - length (nat_hex (unat num))) (CHR ''0'')"
  have "8 \<le> LENGTH('a)" using assms by (simp add: dvd_imp_le)
  then have pos: "0 < ?w" by (simp add: div_greater_zero_iff)
  then have m: "max 2 ?w = ?w" by (cases "LENGTH('a) div 8") auto
  have len: "length (nat_hex (unat num)) \<le> ?w"
    by (rule length_nat_hex [OF pos unat_less_hex [OF assms]])
  have "ref_to_hex_string prefix num = (if prefix then ''0x'' else '''') @ (z @ nat_hex (unat num))"
    by (simp add: ref_to_hex_string_def std_format_hex_def m Let_def z_def)
  moreover have "length (z @ nat_hex (unat num)) = 2 * (LENGTH('a) div 8)"
    using len by (simp add: z_def)
  moreover have "hex_value (z @ nat_hex (unat num)) = unat num"
    by (simp add: hex_value_append z_def hex_value_nat_hex)
  ultimately show ?thesis by blast
qed

text \<open>
  The hexadecimal text of an unsigned integer of a whole number of bytes has exactly two digits
  per byte (after \<open>0x\<close> when prefixed), and reading the digits back gives the integer: no truncation
  and no overlong text at any value.
\<close>

theorem ref_to_hex_string_roundtrip:
  fixes num :: "'a::len word"
  assumes "8 dvd LENGTH('a)"
  shows "\<exists>digits. ref_to_hex_string prefix num = (if prefix then ''0x'' else '''') @ digits
    \<and> length digits = 2 * (LENGTH('a) div 8) \<and> hex_value digits = unat num"
  using assms by (rule ref_to_hex_string_digits)

theorem ref_to_hex_string_roundtrip_witness:
  "ref_to_hex_string True (0x0af :: 16 word) = ''0x00af''
   \<and> (\<exists>digits. ref_to_hex_string True (0x0af :: 16 word) = ''0x'' @ digits
        \<and> length digits = 4 \<and> hex_value digits = 175)"
proof -
  have "ref_to_hex_string True (0x0af :: 16 word) = ''0x00af''"
    by code_simp
  moreover have "\<exists>digits. ref_to_hex_string True (0x0af :: 16 word) = ''0x'' @ digits
        \<and> length digits = 4 \<and> hex_value digits = 175"
    using ref_to_hex_string_roundtrip [where num = "0x0af :: 16 word" and prefix = True] by simp
  ultimately show ?thesis by blast
qed

fun be_value :: "bytes \<Rightarrow> nat" where
  "be_value [] = 0"
| "be_value (b # bs) = unat b * 256 ^ length bs + be_value bs"

lemma be_value_dropWhile: "be_value (dropWhile (\<lambda>b. 0 = b) t) = be_value t"
  by (induction t) auto

lemma unat_byte_div [simp]: "unat (b :: byte) div 16 < 16"
  using unat_byte_bound [of b] by (simp only: less_mult_imp_div_less)

lemma hex_value_bytes:
  "hex_value (concat (map (\<lambda>b. [hex_digit (unat b div 16), hex_digit (unat b mod 16)]) bs))
     = be_value bs"
proof (induction bs)
  case (Cons b bs)
  let ?f = "\<lambda>b :: byte. [hex_digit (unat b div 16), hex_digit (unat b mod 16)]"
  have len: "length (concat (map ?f bs)) = 2 * length bs" by (induction bs) auto
  have b: "hex_value (?f b) = unat b"
    by (simp add: hex_value_def)
  have "hex_value (?f b @ concat (map ?f bs))
      = 16 ^ (2 * length bs) * unat b + be_value bs"
    by (simp only: hex_value_append len b Cons.IH)
  moreover have "(256::nat) ^ length bs = 16 ^ (2 * length bs)" by (simp add: power_mult)
  ultimately show ?case by (simp only: be_value.simps list.map concat.simps mult.commute)
qed simp

text \<open>
  The hexadecimal dump of a byte range is \<open>0x\<close> followed by an even, positive number of digits
  whose value is the big-endian value of the bytes; leading zero bytes are dropped, so an empty or
  all-zero range is shown as \<open>0x00\<close>. The \<open>prefix\<close> argument of \<open>to_hex_data\<close> has no influence.
\<close>

theorem to_hex_data_value:
  assumes "boost_hex_lower h"
  shows "\<exists>digits. to_hex_data h prefix t = ''0x'' @ digits \<and> digits \<noteq> [] \<and> even (length digits)
    \<and> hex_value digits = be_value t \<and> to_hex_data h prefix t = to_hex_data h (\<not> prefix) t"
proof -
  let ?f = "\<lambda>b :: byte. [hex_digit (unat b div 16), hex_digit (unat b mod 16)]"
  define d where "d = dropWhile (\<lambda>b. 0 = b) t"
  define digits where "digits = (if d = [] then ''00'' else concat (map ?f d))"
  have len: "length (concat (map ?f bs)) = 2 * length bs" for bs by (induction bs) auto
  have d: "be_value d = be_value t" by (simp only: d_def be_value_dropWhile)
  have h: "h d = concat (map ?f d)" using assms by (simp add: boost_hex_lower_def)
  have "to_hex_data h prefix t = ''0x'' @ digits" for prefix
    unfolding to_hex_data_def range_to_hex_data_def d_def [symmetric] h digits_def
    by (cases d) (simp_all add: hex_string_prefix_def hex_prefix_len_def)
  moreover have "even (length digits)" and "0 < length digits"
    unfolding digits_def by (cases "d = []"; simp only: len if_True if_False; simp)+
  moreover have "hex_value digits = be_value t"
  proof (cases "d = []")
    case True
    with d show ?thesis by (simp add: digits_def hex_value_def hex_digit_value_def)
  next
    case False
    then show ?thesis by (simp only: digits_def if_False hex_value_bytes d)
  qed
  ultimately show ?thesis by (metis length_greater_0_conv)
qed

definition hex_lower_ref :: "bytes \<Rightarrow> string" where
  "hex_lower_ref bs = concat (map (\<lambda>b. [hex_digit (unat b div 16), hex_digit (unat b mod 16)]) bs)"

theorem to_hex_data_value_witness:
  "\<exists>digits. to_hex_data hex_lower_ref False [0, 1, 171] = ''0x'' @ digits
     \<and> hex_value digits = 427"
proof -
  have "boost_hex_lower hex_lower_ref" by (simp add: boost_hex_lower_def hex_lower_ref_def)
  from to_hex_data_value [OF this, of False "[0, 1, 171]"] show ?thesis by auto
qed

end
