(* ===== verification/Ruby_Values.thy ===== *)
theory Ruby_Values imports RuBLE_Prelude begin

text \<open>
  Ruby values as the extension tells them apart (\<open>VALUE\<close> of the Ruby C API, \<open>Rice::Object\<close>): the
  special constants, numbers, strings, symbols, wrapped byte arrays, procs with the kinds of their
  parameters as \<open>Proc#parameters\<close> lists them, and any other object. What the Ruby runtime computes
  from a value (conversions, \<open>inspect\<close>, a call) is not code of this repository: it is a record of
  functions every definition that needs it takes as an argument.
\<close>

datatype rb_value =
    RNil
  | RTrue
  | RFalse
  | RUndef
  | RInteger int
  | RFloat nat
  | RString bytes
  | RSymbol bytes
  | RByteArray bytes
  | RProc bool "string list" nat
  | RObject nat

text \<open>\<open>RTEST\<close>, that is \<open>Rice::Object::test\<close>, and the macro \<open>RB_NIL_OR_UNDEF_P\<close>.\<close>

definition rb_test :: "rb_value \<Rightarrow> bool" where
  "rb_test v = (v \<noteq> RNil \<and> v \<noteq> RFalse)"

definition nil_or_undef :: "rb_value \<Rightarrow> bool" where
  "nil_or_undef v = (v = RNil \<or> v = RUndef)"

fun is_proc :: "rb_value \<Rightarrow> bool" where
  "is_proc (RProc l ps i) = True"
| "is_proc _ = False"

fun is_numeric :: "rb_value \<Rightarrow> bool" where
  "is_numeric (RInteger i) = True"
| "is_numeric (RFloat f) = True"
| "is_numeric _ = False"

record ruby_api =
  rb_num2ulong :: "rb_value \<Rightarrow> u64 result"
  rb_string_of :: "rb_value \<Rightarrow> bytes result"
  rb_inspect :: "rb_value \<Rightarrow> string result"

text \<open>
  What the Ruby manual says of the conversions, for the values the library relies on: an Integer in
  the range of an \<open>unsigned long\<close> (or, for a fixnum, a negative one, which wraps) converts to the
  residue modulo \<open>2 ^ 64\<close>, one outside, above or below, raises \<open>RangeError\<close>; a String converts to
  its bytes.
\<close>

definition ruby_api_ok :: "ruby_api \<Rightarrow> bool" where
  "ruby_api_ok rb \<longleftrightarrow>
     (\<forall>i. - (2 ^ 63) \<le> i \<and> i < 2 ^ 64 \<longrightarrow> rb_num2ulong rb (RInteger i) = Inr (word_of_int i)) \<and>
     (\<forall>i. 2 ^ 64 \<le> i \<or> i < - (2 ^ 63) \<longrightarrow> rb_num2ulong rb (RInteger i) = Inl (ForeignException ''RangeError'')) \<and>
     (\<forall>s. rb_string_of rb (RString s) = Inr s)"

definition sample_ruby :: ruby_api where
  "sample_ruby =
     \<lparr>rb_num2ulong = (\<lambda>v. case v of
        RInteger i \<Rightarrow> (if - (2 ^ 63) \<le> i \<and> i < 2 ^ 64 then Inr (word_of_int i)
                       else Inl (ForeignException ''RangeError''))
      | _ \<Rightarrow> Inl (ForeignException ''TypeError'')),
      rb_string_of = (\<lambda>v. case v of RString s \<Rightarrow> Inr s | _ \<Rightarrow> Inl (ForeignException ''TypeError'')),
      rb_inspect = (\<lambda>_. Inr ''#<Object>'')\<rparr>"

lemma sample_ruby_ok: "ruby_api_ok sample_ruby"
  by (simp add: ruby_api_ok_def sample_ruby_def)

end
