(* ===== verification/Byte_Array.thy ===== *)
theory Byte_Array imports Ruby_Values Hexadecimal begin

unbundle bit_operations_syntax

text \<open>
  \<open>containers/ByteArray.hpp\<close> and \<open>.cpp\<close>: the byte string read from or written to a
  characteristic, its constructors from Ruby values and unsigned integers, the conversion back to
  an integer, the operators on it and the three-way comparison. \<open>SimpleBLE::ByteArray\<close> is used as a
  \<open>std::string\<close> (it is returned as one), so it is a list of bytes. An integer type \<open>T\<close> of the
  templates is \<open>'a word\<close>; \<open>reinterpret_cast\<close> reads or writes its object representation in the
  byte order of the machine, and the two conversions of Boost.Endian are parameters.
\<close>

datatype byte_array = ByteArray (ba_data: bytes)

subsection \<open>Object representations\<close>

fun nat_bytes :: "nat \<Rightarrow> nat \<Rightarrow> bytes" where
  "nat_bytes 0 n = []"
| "nat_bytes (Suc k) n = of_nat n # nat_bytes k (n div 256)"

fun le_value :: "bytes \<Rightarrow> nat" where
  "le_value [] = 0"
| "le_value (b # bs) = unat b + 256 * le_value bs"

definition le_bytes :: "'a::len word \<Rightarrow> bytes" where
  "le_bytes w = nat_bytes (LENGTH('a) div 8) (unat w)"

definition le_word :: "bytes \<Rightarrow> 'a::len word" where
  "le_word bs = of_nat (le_value bs)"

record (overloaded) 'a endian =
  native_big :: bool
  native_to_little :: "'a word \<Rightarrow> 'a word"
  little_to_native :: "'a word \<Rightarrow> 'a word"

definition object_rep :: "bool \<Rightarrow> 'a::len word \<Rightarrow> bytes" where
  "object_rep big w = (if big then rev (le_bytes w) else le_bytes w)"

definition value_of_rep :: "bool \<Rightarrow> bytes \<Rightarrow> 'a::len word" where
  "value_of_rep big bs = le_word (if big then rev bs else bs)"

text \<open>
  Boost.Endian: on a little-endian machine both conversions return their argument, on a big-endian
  one they reverse the bytes.
\<close>

definition boost_endian :: "'a::len endian \<Rightarrow> bool" where
  "boost_endian e \<longleftrightarrow>
     (\<forall>w. native_to_little e w = (if native_big e then le_word (rev (le_bytes w)) else w)) \<and>
     (\<forall>w. little_to_native e w = (if native_big e then le_word (rev (le_bytes w)) else w))"

definition x86_endian :: "'a::len endian" where
  "x86_endian = \<lparr>native_big = False, native_to_little = id, little_to_native = id\<rparr>"

definition s390_endian :: "'a::len endian" where
  "s390_endian = \<lparr>native_big = True, native_to_little = (\<lambda>w. le_word (rev (le_bytes w))),
                  little_to_native = (\<lambda>w. le_word (rev (le_bytes w)))\<rparr>"

lemma sample_endians: "boost_endian x86_endian" "boost_endian s390_endian"
  by (simp_all add: boost_endian_def x86_endian_def s390_endian_def)

subsection \<open>Constructors\<close>

definition char_size :: nat where
  "char_size = 1"

definition chars_per_val :: "nat \<Rightarrow> nat" where
  "chars_per_val sizeof_T =
     (let quot = sizeof_T div char_size; rm = sizeof_T mod char_size
      in quot + (if rm > 0 then 1 else 0))"

text \<open>\<open>_data.assign(n, 0)\<close>, then the store through the cast pointer over its first bytes.\<close>

definition of_uint :: "'a::len endian \<Rightarrow> 'a word \<Rightarrow> byte_array" where
  "of_uint e data =
     (let buf = replicate (chars_per_val (LENGTH('a) div 8)) 0;
          rep = object_rep (native_big e) (native_to_little e data)
      in ByteArray (rep @ drop (length rep) buf))"

text \<open>
  \<open>ByteArray(const char_type &chr)\<close> calls \<open>std::string(chr, 1)\<close>: the count comes first, so this is
  \<open>chr\<close> copies of the character 1. A \<open>char\<close> may be signed; a negative one becomes a huge count and
  the string constructor throws.
\<close>

definition std_string_fill :: "u64 \<Rightarrow> byte \<Rightarrow> bytes result" where
  "std_string_fill count ch =
     (if unat count < 2 ^ 63 then Inr (replicate (unat count) ch) else Inl LengthError)"

definition of_char :: "bool \<Rightarrow> byte \<Rightarrow> byte_array result" where
  "of_char char_signed chr =
     bindR (std_string_fill (if char_signed then scast chr else ucast chr) 1) (\<lambda>s. Inr (ByteArray s))"

definition of_bool :: "bool \<Rightarrow> bool \<Rightarrow> byte_array result" where
  "of_bool char_signed b = of_char char_signed (if b then 49 else 48)"

text \<open>\<open>ByteArray(Rice::Object)\<close>, which \<open>RuBLE::ByteArray.new\<close> of Ruby calls.\<close>

definition from_ruby :: "ruby_api \<Rightarrow> bool \<Rightarrow> 64 endian \<Rightarrow> rb_value \<Rightarrow> byte_array result" where
  "from_ruby rb char_signed e obj =
     (case obj of
        RByteArray d \<Rightarrow> Inr (ByteArray d)
      | RInteger _ \<Rightarrow> bindR (rb_num2ulong rb obj) (\<lambda>n. Inr (of_uint e n))
      | RFloat _ \<Rightarrow> bindR (rb_num2ulong rb obj) (\<lambda>n. Inr (of_uint e n))
      | RString _ \<Rightarrow> bindR (rb_string_of rb obj) (\<lambda>s. Inr (ByteArray s))
      | RSymbol _ \<Rightarrow> bindR (rb_string_of rb obj) (\<lambda>s. Inr (ByteArray s))
      | RNil \<Rightarrow> of_bool char_signed (rb_test obj)
      | RTrue \<Rightarrow> of_bool char_signed (rb_test obj)
      | RFalse \<Rightarrow> of_bool char_signed (rb_test obj)
      | _ \<Rightarrow> bindR (rb_inspect rb obj)
               (\<lambda>s. Inl (InvalidArgument (''Cannot convert '' @ s @ '' to a ByteArray''))))"

text \<open>The default constructor and the one from SimpleBLE's bytes.\<close>

definition ba_new :: byte_array where
  "ba_new = ByteArray []"

definition ba_of_ble :: "bytes \<Rightarrow> byte_array" where
  "ba_of_ble byteArray = ByteArray byteArray"

subsection \<open>Accessors and conversions\<close>

definition ba_length :: "byte_array \<Rightarrow> nat" where
  "ba_length d = length (ba_data d)"

definition byte_count :: "byte_array \<Rightarrow> nat" where
  "byte_count d = ba_length d * char_size"

definition to_string :: "byte_array \<Rightarrow> bytes" where
  "to_string d = ba_data d"

text \<open>
  \<open>to_i<T>\<close> reads \<open>sizeof(T)\<close> bytes from the start of the string, whatever its length. The string
  is followed by its terminating zero, which may be read; reading beyond is undefined. The second
  component says whether the truncation warning is given.
\<close>

definition to_i :: "'a::len endian \<Rightarrow> byte_array \<Rightarrow> 'a word result \<times> bool" where
  "to_i e d =
     (let n = LENGTH('a) div 8; memory = ba_data d @ [0];
          val = value_of_rep (native_big e) (take n memory)
      in (if n \<le> length memory then Inr (little_to_native e val) else Inl UndefinedBehaviour,
          n < char_size * ba_length d))"

text \<open>The explicit conversion \<open>operator T\<close>, and writing to a stream, given as what it holds so far.\<close>

definition ba_to_uint :: "'a::len endian \<Rightarrow> byte_array \<Rightarrow> 'a word result \<times> bool" where
  "ba_to_uint e d = to_i e d"

definition ba_put :: "bytes \<Rightarrow> byte_array \<Rightarrow> bytes" where
  "ba_put os cba = os @ ba_data cba"

definition int_op :: "('a::len word \<Rightarrow> 'b result) \<Rightarrow> 'a endian \<Rightarrow> byte_array \<Rightarrow> 'b result \<times> bool" where
  "int_op f e d = (let (r, warned) = to_i e d in (bindR r f, warned))"

definition ba_or :: "'a::len endian \<Rightarrow> byte_array \<Rightarrow> 'a word \<Rightarrow> 'a word result \<times> bool" where
  "ba_or e d other = int_op (\<lambda>v. Inr (v OR other)) e d"

definition ba_and :: "'a::len endian \<Rightarrow> byte_array \<Rightarrow> 'a word \<Rightarrow> 'a word result \<times> bool" where
  "ba_and e d other = int_op (\<lambda>v. Inr (v AND other)) e d"

definition ba_xor :: "'a::len endian \<Rightarrow> byte_array \<Rightarrow> 'a word \<Rightarrow> 'a word result \<times> bool" where
  "ba_xor e d other = int_op (\<lambda>v. Inr (v XOR other)) e d"

definition ba_mod :: "'a::len endian \<Rightarrow> byte_array \<Rightarrow> 'a word \<Rightarrow> 'a word result \<times> bool" where
  "ba_mod e d other =
     int_op (\<lambda>v. if other = 0 then Inl UndefinedBehaviour else Inr (v mod other)) e d"

definition ba_not :: "64 endian \<Rightarrow> byte_array \<Rightarrow> bool result \<times> bool" where
  "ba_not e d = int_op (\<lambda>v. Inr (v \<noteq> 0)) e d"

definition ba_complement :: "64 endian \<Rightarrow> byte_array \<Rightarrow> u64 result \<times> bool" where
  "ba_complement e d = int_op (\<lambda>v. Inr (NOT v)) e d"

text \<open>The comparison with an integer, and that of two byte arrays (\<open>std::string\<close>'s).\<close>

definition cmp_word :: "'a::len word \<Rightarrow> 'a word \<Rightarrow> strong_ordering" where
  "cmp_word a b = (if a < b then Ord_less else if b < a then Ord_greater else Ord_equal)"

definition ba_cmp_int :: "'a::len endian \<Rightarrow> byte_array \<Rightarrow> 'a word \<Rightarrow> int result \<times> bool" where
  "ba_cmp_int e d other = int_op (\<lambda>v. let r = cmp_word v other in
     Inr (if r = Ord_less then -1 else if r = Ord_greater then 1 else 0)) e d"

fun bytes_cmp :: "bytes \<Rightarrow> bytes \<Rightarrow> strong_ordering" where
  "bytes_cmp [] [] = Ord_equal"
| "bytes_cmp [] (y # ys) = Ord_less"
| "bytes_cmp (x # xs) [] = Ord_greater"
| "bytes_cmp (x # xs) (y # ys) =
     (if x < y then Ord_less else if y < x then Ord_greater else bytes_cmp xs ys)"

definition ba_cmp :: "byte_array \<Rightarrow> byte_array \<Rightarrow> strong_ordering" where
  "ba_cmp a b = bytes_cmp (ba_data a) (ba_data b)"

definition ba_eq :: "byte_array \<Rightarrow> byte_array \<Rightarrow> bool" where
  "ba_eq a b = (let comparison = ba_cmp a b in comparison = Ord_equal)"

definition ba_neq :: "byte_array \<Rightarrow> byte_array \<Rightarrow> bool" where
  "ba_neq a b = (\<not> ba_eq a b)"

text \<open>
  \<open>operator[]\<close>: the position is a signed 64-bit number; \<open>pos < byte_count()\<close> converts it to
  unsigned. \<open>asserts\<close> says whether the build checks assertions.
\<close>

definition ba_index :: "bool \<Rightarrow> byte_array \<Rightarrow> 64 word \<Rightarrow> byte result" where
  "ba_index asserts d pos =
     (if asserts \<and> \<not> (unat pos < byte_count d \<and> 0 \<le> sint pos) then Inl AssertionFailure
      else if 0 \<le> sint pos \<and> unat pos \<le> byte_count d then Inr ((ba_data d @ [0]) ! unat pos)
      else Inl UndefinedBehaviour)"

text \<open>\<open>to_s\<close>: the object's inspect prefix and the Ruby quoting of the bytes come from outside.\<close>

definition ba_to_s :: "string \<Rightarrow> (bytes \<Rightarrow> string) \<Rightarrow> (bytes \<Rightarrow> string result) \<Rightarrow> byte_array \<Rightarrow> string result" where
  "ba_to_s inspect_start hex_lower ruby_quote d =
     bindR (ruby_quote (ba_data d)) (\<lambda>q.
       Inr (inspect_start @ '' '' @ to_hex_data hex_lower True (ba_data d) @ '' ('' @ q @ '')>''))"

subsection \<open>Lemmas on representations\<close>

lemma length_nat_bytes [simp]: "length (nat_bytes k n) = k"
  by (induction k n rule: nat_bytes.induct) simp_all

lemma length_le_bytes [simp]: "length (le_bytes (w :: 'a::len word)) = LENGTH('a) div 8"
  by (simp add: le_bytes_def)

lemma unat_of_nat_byte: "unat (of_nat n :: byte) = n mod 256"
  by (simp add: unat_of_nat)

lemma le_value_nat_bytes: "le_value (nat_bytes k n) = n mod 256 ^ k"
  by (induction k n rule: nat_bytes.induct) (simp_all add: unat_of_nat_byte mod_mult2_eq)

lemma nat_bytes_le_value: "nat_bytes (length bs) (le_value bs) = bs"
proof (induction bs)
  case (Cons b bs)
  have "(of_nat (unat b + 256 * le_value bs) :: byte) = b"
    by (simp add: word_unat_eq_iff unat_of_nat_byte del: of_nat_add of_nat_mult)
  moreover have "(unat b + 256 * le_value bs) div 256 = le_value bs" by simp
  ultimately show ?case using Cons by (simp del: of_nat_add of_nat_mult)
qed simp

lemma le_value_append: "le_value (xs @ ys) = le_value xs + 256 ^ length xs * le_value ys"
  by (induction xs) (simp_all add: algebra_simps)

lemma le_value_bound: "le_value bs < 256 ^ length bs"
proof (induction bs)
  case (Cons b bs)
  have "unat b + 256 * le_value bs < 256 + 256 * le_value bs" by simp
  also have "\<dots> = 256 * Suc (le_value bs)" by simp
  also have "\<dots> \<le> 256 * 256 ^ length bs" using Cons by (intro mult_left_mono) auto
  finally show ?case by simp
qed simp

lemma le_value_take: "le_value (take n bs) = le_value bs mod 256 ^ n"
proof (cases "n \<le> length bs")
  case True
  have "le_value bs = le_value (take n bs) + 256 ^ n * le_value (drop n bs)"
    using le_value_append [of "take n bs" "drop n bs"] True by (simp add: min_absorb2)
  moreover have "le_value (take n bs) < 256 ^ n"
    using le_value_bound [of "take n bs"] True by (simp add: min_absorb2)
  ultimately show ?thesis by simp
next
  case False
  then have "(256::nat) ^ length bs \<le> 256 ^ n" by (intro power_increasing) auto
  then have "le_value bs < 256 ^ n" by (rule order.strict_trans2 [OF le_value_bound])
  with False show ?thesis by simp
qed

lemma width_pow: "8 dvd n \<Longrightarrow> (256::nat) ^ (n div 8) = 2 ^ n"
proof -
  assume "8 dvd n"
  then obtain k where "n = 8 * k" by (rule dvdE)
  then show ?thesis by (simp add: power_mult)
qed

lemma of_nat_mod_width:
  "8 dvd LENGTH('a) \<Longrightarrow> (of_nat (n mod 256 ^ (LENGTH('a) div 8)) :: 'a::len word) = of_nat n"
  by (simp add: width_pow word_unat_eq_iff unat_of_nat)

lemma le_word_le_bytes [simp]: "8 dvd LENGTH('a::len) \<Longrightarrow> le_word (le_bytes (w :: 'a word)) = w"
  by (simp add: le_word_def le_bytes_def le_value_nat_bytes of_nat_mod_width)

lemma le_bytes_le_word:
  assumes "8 dvd LENGTH('a::len)" and "length bs = LENGTH('a) div 8"
  shows "le_bytes (le_word bs :: 'a word) = bs"
proof -
  have "unat (le_word bs :: 'a word) = le_value bs"
    using le_value_bound [of bs] assms by (simp add: le_word_def unat_of_nat width_pow)
  then show ?thesis using nat_bytes_le_value [of bs] assms by (simp add: le_bytes_def)
qed

text \<open>With conversions that do what Boost documents, the byte order of the machine is invisible.\<close>

lemma object_rep_native_to_little:
  assumes "8 dvd LENGTH('a::len)" and "boost_endian e"
  shows "object_rep (native_big e) (native_to_little e (w :: 'a word)) = le_bytes w"
  using assms by (simp add: object_rep_def boost_endian_def le_bytes_le_word)

lemma little_to_native_value:
  assumes "8 dvd LENGTH('a::len)" and "boost_endian e" and "length bs = LENGTH('a) div 8"
  shows "little_to_native e (value_of_rep (native_big e) bs :: 'a word) = le_word bs"
  using assms by (simp add: value_of_rep_def boost_endian_def le_bytes_le_word)

lemma chars_per_val_id [simp]: "chars_per_val n = n"
  by (simp add: chars_per_val_def char_size_def Let_def)

lemma of_uint_data:
  fixes w :: "'a::len word"
  assumes "8 dvd LENGTH('a)" and "boost_endian e"
  shows "of_uint e w = ByteArray (le_bytes w)"
  by (simp add: of_uint_def object_rep_native_to_little [OF assms])

lemma to_i_eq:
  fixes e :: "'a::len endian"
  assumes "8 dvd LENGTH('a)" and "boost_endian e"
  shows "to_i e (ByteArray d) =
    (if LENGTH('a) div 8 \<le> length d + 1 then Inr (of_nat (le_value d)) else Inl UndefinedBehaviour,
     LENGTH('a) div 8 < length d)"
proof -
  let ?n = "LENGTH('a) div 8"
  have "(le_word (take ?n (d @ [0])) :: 'a word) = of_nat (le_value d)"
    using of_nat_mod_width [OF assms(1), of "le_value (d @ [0])"]
    by (simp add: le_word_def le_value_take le_value_append del: take_append)
  moreover have "little_to_native e (value_of_rep (native_big e) (take ?n (d @ [0])) :: 'a word)
      = le_word (take ?n (d @ [0]))" if "?n \<le> length d + 1"
    using that by (intro little_to_native_value [OF assms]) (simp del: take_append)
  ultimately show ?thesis
    by (simp add: to_i_def ba_length_def char_size_def Let_def del: take_append)
qed

lemma to_i_of_uint:
  fixes w :: "'a::len word"
  assumes "8 dvd LENGTH('a)" and "boost_endian e"
  shows "to_i e (of_uint e w) = (Inr w, False)"
  using assms by (simp add: of_uint_data to_i_eq le_bytes_def le_value_nat_bytes of_nat_mod_width)

subsection \<open>The comparison is a total order\<close>

lemma bytes_cmp_equal: "bytes_cmp a b = Ord_equal \<longleftrightarrow> a = b"
  by (induction a b rule: bytes_cmp.induct) auto

lemma bytes_cmp_flip: "bytes_cmp b a = flip_ordering (bytes_cmp a b)"
  by (induction a b rule: bytes_cmp.induct) auto

lemma bytes_cmp_trans:
  "bytes_cmp a b = Ord_less \<Longrightarrow> bytes_cmp b c = Ord_less \<Longrightarrow> bytes_cmp a c = Ord_less"
proof (induction a b arbitrary: c rule: bytes_cmp.induct)
  case (2 y ys)
  then show ?case by (cases c) auto
next
  case (4 x xs y ys)
  then show ?case by (cases c) (auto split: if_splits)
qed auto

interpretation bytes3: three_way bytes_cmp
  by unfold_locales (rule bytes_cmp_equal, rule bytes_cmp_flip, rule bytes_cmp_trans)

interpretation ba3: three_way ba_cmp
proof
  fix a b c :: byte_array
  show "ba_cmp a b = Ord_equal \<longleftrightarrow> a = b"
    by (simp add: ba_cmp_def bytes_cmp_equal byte_array.expand)
      (metis byte_array.expand)
  show "ba_cmp b a = flip_ordering (ba_cmp a b)"
    unfolding ba_cmp_def by (rule bytes_cmp_flip)
  show "ba_cmp a b = Ord_less \<Longrightarrow> ba_cmp b c = Ord_less \<Longrightarrow> ba_cmp a c = Ord_less"
    unfolding ba_cmp_def by (rule bytes_cmp_trans)
qed

interpretation word3: three_way cmp_word
  by unfold_locales (auto simp: cmp_word_def split: if_splits)

instantiation byte_array :: linorder
begin

definition less_eq_byte_array :: "byte_array \<Rightarrow> byte_array \<Rightarrow> bool" where
  "less_eq_byte_array a b \<longleftrightarrow> ba_cmp a b \<noteq> Ord_greater"

definition less_byte_array :: "byte_array \<Rightarrow> byte_array \<Rightarrow> bool" where
  "less_byte_array a b \<longleftrightarrow> ba_cmp a b = Ord_less"

instance
proof
  fix a b c :: byte_array
  show "a < b \<longleftrightarrow> a \<le> b \<and> \<not> b \<le> a"
    using ba3.less_iff [of a b] by (simp add: less_eq_byte_array_def less_byte_array_def)
  show "a \<le> a" by (simp add: less_eq_byte_array_def ba3.cmp_refl)
  show "a \<le> b \<Longrightarrow> b \<le> c \<Longrightarrow> a \<le> c"
    unfolding less_eq_byte_array_def by (rule ba3.le_trans)
  show "a \<le> b \<Longrightarrow> b \<le> a \<Longrightarrow> a = b"
    unfolding less_eq_byte_array_def by (rule ba3.le_antisym)
  show "a \<le> b \<or> b \<le> a"
    unfolding less_eq_byte_array_def by (rule ba3.le_total)
qed

end

lemmas byte_array_order = less_eq_byte_array_def less_byte_array_def

subsection \<open>Properties\<close>

lemma nth_nat_bytes: "i < k \<Longrightarrow> nat_bytes k n ! i = of_nat (n div 256 ^ i)"
proof (induction k n arbitrary: i rule: nat_bytes.induct)
  case (2 k n)
  then show ?case by (cases i) (auto simp: div_mult2_eq)
qed simp

text \<open>
  C30. A byte array built from an unsigned integer of a whole number of bytes holds its bytes from the
  least significant to the most significant one, whatever the byte order of the machine, and
  converting it back gives the integer without a warning. Conversely a byte array of that length
  is rebuilt from the integer it converts to.
\<close>

theorem byte_array_uint_roundtrip:
  fixes w :: "'a::len word"
  assumes width: "8 dvd LENGTH('a)" and boost: "boost_endian e"
  shows "ba_data (of_uint e w) = map (\<lambda>i. of_nat (unat w div 256 ^ i)) [0..<LENGTH('a) div 8]
    \<and> to_i e (of_uint e w) = (Inr w, False)
    \<and> (\<forall>d. ba_length d = LENGTH('a) div 8 \<longrightarrow> fst (to_i e d) = Inr w \<longrightarrow> of_uint e w = d)"
proof (intro conjI allI impI)
  show "ba_data (of_uint e w) = map (\<lambda>i. of_nat (unat w div 256 ^ i)) [0..<LENGTH('a) div 8]"
    by (rule nth_equalityI) (simp_all add: of_uint_data [OF assms] le_bytes_def nth_nat_bytes)
  show "to_i e (of_uint e w) = (Inr w, False)" by (rule to_i_of_uint [OF assms])
  show "of_uint e w = d" if "ba_length d = LENGTH('a) div 8" and "fst (to_i e d) = Inr w" for d
    using that by (cases d)
      (auto simp: of_uint_data [OF assms] to_i_eq [OF assms] ba_length_def le_word_def [symmetric]
        le_bytes_le_word [OF width])
qed

theorem byte_array_uint_roundtrip_witness:
  "to_i s390_endian (of_uint s390_endian (0x0102 :: 16 word)) = (Inr (0x0102 :: 16 word), False)
   \<and> ba_data (of_uint s390_endian (0x0102 :: 16 word)) = [2, 1]"
  using byte_array_uint_roundtrip [OF _ sample_endians(2), of "0x0102 :: 16 word"]
  by (simp add: upt_rec)

text \<open>
  C31. What \<open>to_i<T>\<close> computes for a byte array of any length: the little-endian value of all its
  bytes reduced modulo \<open>2 ^ n\<close> for an \<open>n\<close>-bit type, with the truncation warning exactly when the
  array is longer than the type. An array shorter than the type by two bytes or more makes the code
  read past the end of the string.
\<close>

theorem byte_array_to_i_exact:
  fixes e :: "'a::len endian"
  assumes width: "8 dvd LENGTH('a)" and boost: "boost_endian e"
  shows "to_i e d =
    (if LENGTH('a) div 8 \<le> ba_length d + 1 then Inr (of_nat (le_value (ba_data d) mod 2 ^ LENGTH('a)))
     else Inl UndefinedBehaviour,
     LENGTH('a) div 8 < ba_length d)"
  using to_i_eq [OF assms, of "ba_data d"] of_nat_mod_width [OF width, of "le_value (ba_data d)"]
  by (simp add: ba_length_def width_pow [OF width])

theorem byte_array_to_i_exact_witness:
  "to_i x86_endian (ByteArray [1, 2, 3]) = (Inr (0x0201 :: 16 word), True)
   \<and> to_i x86_endian (ByteArray [97, 98, 99]) = (Inl UndefinedBehaviour :: u64 result, False)"
  using byte_array_to_i_exact [of "x86_endian :: 16 endian" "ByteArray [1, 2, 3]"]
    byte_array_to_i_exact [of "x86_endian :: 64 endian" "ByteArray [97, 98, 99]"]
  by (simp add: ba_length_def sample_endians)

lemma from_ruby_special:
  "from_ruby rb cs e RTrue = Inr (ByteArray (replicate 49 1))"
  "from_ruby rb cs e RFalse = Inr (ByteArray (replicate 48 1))"
  "from_ruby rb cs e RNil = Inr (ByteArray (replicate 48 1))"
  by (simp_all add: from_ruby_def of_bool_def of_char_def std_string_fill_def rb_test_def)

text \<open>Where the conversion ends in undefined behaviour: only in the parts of Ruby it calls.\<close>

lemma from_ruby_defined:
  assumes "\<And>v. rb_num2ulong rb v \<noteq> Inl UndefinedBehaviour" and "\<And>v. rb_string_of rb v \<noteq> Inl UndefinedBehaviour"
    and "\<And>v. rb_inspect rb v \<noteq> Inl UndefinedBehaviour"
  shows "from_ruby rb cs e obj \<noteq> Inl UndefinedBehaviour"
proof -
  have bind: "bindR r f \<noteq> Inl UndefinedBehaviour"
    if "r \<noteq> Inl UndefinedBehaviour" and "\<And>x. f x \<noteq> Inl UndefinedBehaviour" for r :: "'x result" and f
    using that by (cases r) auto
  show ?thesis
    by (cases obj; simp only: from_ruby_special;
        simp add: from_ruby_def bind assms)
qed



text \<open>
  The constructors from a boolean do not build the one-character text they are written for: the
  character is used as the repeat count of \<open>std::string(count, ch)\<close>, so \<open>true\<close> becomes 49 bytes
  and \<open>false\<close> or \<open>nil\<close> 48 bytes, all of value 1, on machines with signed and unsigned \<open>char\<close>
  alike, and with a signed \<open>char\<close> every character from 128 on throws \<open>std::length_error\<close>.
\<close>

theorem byte_array_of_bool:
  "from_ruby rb cs e RTrue = Inr (ByteArray (replicate 49 1))
   \<and> from_ruby rb cs e RFalse = Inr (ByteArray (replicate 48 1))
   \<and> from_ruby rb cs e RNil = Inr (ByteArray (replicate 48 1))
   \<and> of_char True 0x80 = Inl LengthError \<and> of_char False 0x80 = Inr (ByteArray (replicate 128 1))"
  by (simp add: from_ruby_special of_char_def std_string_fill_def)

text \<open>
  The integer operators on a byte array of an unsigned integer are the machine operators on that
  integer; \<open>%\<close> by zero is undefined; \<open><=>\<close> answers the sign of the comparison; and \<open>!\<close> answers
  true exactly when the integer is \<^emph>\<open>not\<close> zero, the opposite of what \<open>!\<close> stands for.
\<close>

theorem byte_array_operators:
  fixes a :: u64
  assumes boost: "boost_endian e"
  shows "ba_or e (of_uint e a) b = (Inr (a OR b), False)
    \<and> ba_and e (of_uint e a) b = (Inr (a AND b), False)
    \<and> ba_xor e (of_uint e a) b = (Inr (a XOR b), False)
    \<and> ba_complement e (of_uint e a) = (Inr (NOT a), False)
    \<and> ba_mod e (of_uint e a) b
        = (if b = 0 then Inl UndefinedBehaviour else Inr (of_nat (unat a mod unat b)), False)
    \<and> ba_cmp_int e (of_uint e a) b = (Inr (sgn (uint a - uint b)), False)
    \<and> ba_not e (of_uint e a) = (Inr (a \<noteq> 0), False)"
proof -
  have "a mod b = of_nat (unat a mod unat b)" by (simp add: unat_mod_distrib [symmetric])
  moreover have "sgn (uint a - uint b) = (if a < b then -1 else if b < a then 1 else 0)"
    by (simp add: word_less_def)
  ultimately show ?thesis using boost
    by (simp add: ba_or_def ba_and_def ba_xor_def ba_complement_def ba_mod_def ba_cmp_int_def
        ba_not_def int_op_def to_i_of_uint cmp_word_def)
qed

theorem byte_array_operators_witness:
  "ba_mod x86_endian (of_uint x86_endian (100 :: u64)) (7 :: u64) = (Inr 2, False)
   \<and> ba_not x86_endian (of_uint x86_endian (0 :: u64)) = (Inr False, False)"
  using byte_array_operators [OF sample_endians(1), of 100 7]
    byte_array_operators [OF sample_endians(1), of 0 7] by simp

lemma bytes_cmp_less_iff: "bytes_cmp xs ys = Ord_less \<longleftrightarrow>
    (\<exists>us x y vs ws. xs = us @ x # vs \<and> ys = us @ y # ws \<and> x < y) \<or> (\<exists>y ws. ys = xs @ y # ws)"
  (is "_ \<longleftrightarrow> ?D xs ys \<or> ?P xs ys")
proof (induction xs ys rule: bytes_cmp.induct)
  case (4 x xs y ys)
  have D: "?D (x # xs) (y # ys) \<longleftrightarrow> x < y \<or> x = y \<and> ?D xs ys"
    by (auto simp: Cons_eq_append_conv) blast+
  have P: "?P (x # xs) (y # ys) \<longleftrightarrow> x = y \<and> ?P xs ys" by auto
  show ?case unfolding D P using 4 by auto
qed (auto simp: neq_Nil_conv)

text \<open>
  The three-way comparison of byte arrays is lexicographic by unsigned bytes: it answers less
  exactly when the arrays first differ in a smaller byte or the left one is a proper prefix. It is
  the strict part of a total order, and \<open>==\<close>, derived from it, is equality of the contents.
\<close>

theorem byte_array_compare:
  "(ba_cmp a b = Ord_less \<longleftrightarrow>
      (\<exists>us x y vs ws. ba_data a = us @ x # vs \<and> ba_data b = us @ y # ws \<and> x < y)
      \<or> (\<exists>y ws. ba_data b = ba_data a @ y # ws))
   \<and> (ba_cmp a b = Ord_greater \<longleftrightarrow> ba_cmp b a = Ord_less)
   \<and> (ba_cmp a b = Ord_less \<longleftrightarrow> a < b)
   \<and> ba_eq a b = (ba_data a = ba_data b) \<and> ba_neq a b = (a \<noteq> b)"
proof -
  have "ba_eq a b = (a = b)" by (simp add: ba_eq_def ba3.cmp_equal_iff)
  moreover have "(a = b) = (ba_data a = ba_data b)" by (metis byte_array.expand)
  moreover have "ba_cmp a b = Ord_greater \<longleftrightarrow> ba_cmp b a = Ord_less"
    using ba3.cmp_flip [of b a] by simp
  moreover note bytes_cmp_less_iff [of "ba_data a" "ba_data b", folded ba_cmp_def]
  ultimately show ?thesis unfolding ba_neq_def byte_array_order by blast
qed

text \<open>
  Indexing in a build with assertions never reads outside the bytes: a position that is negative
  (and so huge after the conversion to unsigned in the first comparison) or not below the length
  fails the assertion, and any other one yields that byte.
\<close>

theorem byte_array_index_checked:
  assumes "length (ba_data d) < 2 ^ 63"
  shows "ba_index True d pos =
    (if 0 \<le> sint pos \<and> nat (sint pos) < length (ba_data d) then Inr (ba_data d ! nat (sint pos))
     else Inl AssertionFailure)"
proof -
  have "nat (sint pos) = unat pos" if "0 \<le> sint pos" using that by (rule nat_sint)
  then show ?thesis
    by (auto simp: ba_index_def byte_count_def ba_length_def char_size_def nth_append)
qed

theorem byte_array_index_checked_witness:
  "ba_index True (ByteArray [7, 8]) 1 = Inr 8 \<and> ba_index True (ByteArray [7, 8]) (- 1) = Inl AssertionFailure"
  using byte_array_index_checked [of "ByteArray [7, 8]" 1]
    byte_array_index_checked [of "ByteArray [7, 8]" "- 1"] by simp

end
