(* ===== verification/Text_Join.thy ===== *)
theory Text_Join imports RuBLE_Prelude begin

text \<open>
  \<open>RuBLE::Utils::join\<close> (\<open>utils/containers.hpp\<close>): the elements of a range with a separator between
  them, by the two early returns and the left fold of the code.
\<close>

definition join :: "string list \<Rightarrow> string \<Rightarrow> string" where
  "join rng sep =
     (case rng of
        [] \<Rightarrow> ''''
      | [x] \<Rightarrow> x
      | x # xs \<Rightarrow> foldl (\<lambda>a b. a @ sep @ b) x xs)"

text \<open>Reading a joined text back: the parts between the occurrences of a character.\<close>

fun split_on :: "char \<Rightarrow> string \<Rightarrow> string list" where
  "split_on c [] = [[]]"
| "split_on c (x # xs) =
     (if x = c then [] # split_on c xs
      else (case split_on c xs of [] \<Rightarrow> [[x]] | y # ys \<Rightarrow> (x # y) # ys))"

lemma foldl_join: "foldl (\<lambda>a b. a @ sep @ b) (p @ x) xs = p @ foldl (\<lambda>a b. a @ sep @ b) x xs"
  by (induction xs arbitrary: x) simp_all

lemma join_simps [simp]:
  "join [] sep = ''''"
  "join [x] sep = x"
  "join (x # y # ys) sep = x @ sep @ join (y # ys) sep"
  using foldl_join [of sep "x @ sep" y ys] by (auto simp: join_def split: list.splits)

lemma join_Cons: "xs \<noteq> [] \<Longrightarrow> join (x # xs) sep = x @ sep @ join xs sep"
  by (cases xs) simp_all

lemma split_on_nonempty [simp]: "split_on c s \<noteq> []"
  by (cases s) (auto split: list.splits)

lemma split_on_free: "c \<notin> set x \<Longrightarrow> split_on c x = [x]"
  by (induction x) auto

lemma split_on_append: "c \<notin> set x \<Longrightarrow> split_on c (x @ c # s) = x # split_on c s"
  by (induction x) auto

lemma split_on_join:
  assumes "xs \<noteq> []" and "\<forall>x \<in> set xs. c \<notin> set x"
  shows "split_on c (join xs [c]) = xs"
  using assms
proof (induction xs)
  case (Cons x xs)
  then show ?case by (cases xs) (simp_all add: split_on_free split_on_append)
qed simp

text \<open>
  Joining then splitting: a non-empty list of texts free of a separator character is recovered
  from its joined text, and the joined text has the length of the parts plus one separator between
  any two neighbours.
\<close>

theorem join_split_roundtrip:
  assumes "xs \<noteq> []" and "\<forall>x \<in> set xs. c \<notin> set x"
  shows "split_on c (join xs [c]) = xs
    \<and> length (join xs sep) = sum_list (map length xs) + length sep * (length xs - 1)"
proof
  show "split_on c (join xs [c]) = xs" using assms by (rule split_on_join)
  show "length (join xs sep) = sum_list (map length xs) + length sep * (length xs - 1)"
    using assms(1)
  proof (induction xs)
    case (Cons x xs)
    then show ?case by (cases xs) simp_all
  qed simp
qed

theorem join_split_roundtrip_witness:
  "split_on (CHR ''|'') (join [''read'', ''notify''] ''|'') = [''read'', ''notify'']"
  using join_split_roundtrip [of "[''read'', ''notify'']" "CHR ''|''"] by simp

end
