(* ===== verification/Named_Bit_Set.thy ===== *)
theory Named_Bit_Set imports Text_Join begin

unbundle bit_operations_syntax

text \<open>
  \<open>containers/NamedBitSet.hpp\<close> and \<open>.ipp\<close>: a \<open>std::bitset\<close> whose bits are addressed by the names of
  a constant array. The array (the template argument \<open>FIELD_NAMES\<close>) is the first argument of every
  operation; the bits are a list of booleans of the same length, bit 0 first.
\<close>

type_synonym fields = "string list"
type_synonym bitset = "bool list"

text \<open>\<open>PAIRS\<close>: every field name with its index.\<close>

definition nbs_pairs :: "fields \<Rightarrow> (string \<times> nat) list" where
  "nbs_pairs fs = zip fs [0..<length fs]"

definition nbs_ok :: "fields \<Rightarrow> bitset \<Rightarrow> bool" where
  "nbs_ok fs bits \<longleftrightarrow> length bits = length fs"

definition index_of :: "fields \<Rightarrow> string \<Rightarrow> nat result" where
  "index_of fs name =
     (case find (\<lambda>(field, idx). field = name) (nbs_pairs fs) of
        Some (field, idx) \<Rightarrow> Inr idx
      | None \<Rightarrow> Inl (InvalidArgument (''Invalid field name '' @ name @ '' in call to index_of'')))"

text \<open>The two \<open>operator[]\<close>: reading a flag, and assigning to the returned bit reference.\<close>

definition nbs_get :: "fields \<Rightarrow> bitset \<Rightarrow> string \<Rightarrow> bool result" where
  "nbs_get fs bits name = bindR (index_of fs name) (\<lambda>idx. Inr (bits ! idx))"

definition nbs_assign :: "fields \<Rightarrow> string \<Rightarrow> bool \<Rightarrow> bitset \<Rightarrow> bitset result" where
  "nbs_assign fs name b bits = bindR (index_of fs name) (\<lambda>idx. Inr (bits[idx := b]))"

definition nbs_empty :: "fields \<Rightarrow> bitset" where
  "nbs_empty fs = replicate (length fs) False"

definition nbs_of_bitset :: "bitset \<Rightarrow> bitset" where
  "nbs_of_bitset bitSet = bitSet"

text \<open>The constructors from a range of names, and from a map of names to checks on an object.\<close>

definition nbs_of_list :: "fields \<Rightarrow> string list \<Rightarrow> bitset result" where
  "nbs_of_list fs rangeList = foldR (\<lambda>sv bits. nbs_assign fs sv True bits) rangeList (nbs_empty fs)"

datatype 'o flag_fn =
    ConstFlag bool
  | StaticFn "unit \<Rightarrow> bool"
  | ConstMemFn "'o \<Rightarrow> bool"

fun test_flag :: "'o flag_fn \<Rightarrow> 'o \<Rightarrow> bool" where
  "test_flag (ConstFlag val) obj = val"
| "test_flag (StaticFn fn) obj = fn ()"
| "test_flag (ConstMemFn fn) obj = fn obj"

definition nbs_of_map :: "fields \<Rightarrow> (string \<times> 'o flag_fn) list \<Rightarrow> 'o \<Rightarrow> bitset result" where
  "nbs_of_map fs r obj =
     foldR (\<lambda>(name, fn) bits. nbs_assign fs name (test_flag fn obj) bits) r (nbs_empty fs)"

definition flag_names :: "fields \<Rightarrow> bitset \<Rightarrow> string list" where
  "flag_names fs bits = map fst (filter (\<lambda>(name, idx). bits ! idx) (nbs_pairs fs))"

definition nbs_to_s :: "fields \<Rightarrow> bitset \<Rightarrow> string" where
  "nbs_to_s fs bits = join (flag_names fs bits) ''|''"

text \<open>
  The conversion to an integral type, allowed only when the largest value of the type is at least
  \<open>(1 << N) - 1\<close>, and the hash (of the type's hash code and the hash of the bits).
\<close>

fun bits_value :: "bitset \<Rightarrow> nat" where
  "bits_value [] = 0"
| "bits_value (b # bs) = (if b then 1 else 0) + 2 * bits_value bs"

definition nbs_convertible :: "fields \<Rightarrow> 'a::len itself \<Rightarrow> bool" where
  "nbs_convertible fs T \<longleftrightarrow> 2 ^ length fs - 1 \<le> unat (- 1 :: 'a word)"

definition nbs_to_word :: "bitset \<Rightarrow> 'a::len word" where
  "nbs_to_word bits = of_nat (bits_value bits)"

definition nbs_hash :: "64 word \<Rightarrow> (bitset \<Rightarrow> 64 word) \<Rightarrow> bitset \<Rightarrow> 64 word" where
  "nbs_hash typeid_hash bits_hash bits = typeid_hash XOR push_bit 1 (bits_hash bits)"

subsection \<open>Lemmas\<close>

lemma find_zip: "find (\<lambda>(f, i). f = name) (zip fs [k..<k + length fs]) =
    (if name \<in> set fs then Some (name, k + length (takeWhile (\<lambda>f. f \<noteq> name) fs)) else None)"
proof (induction fs arbitrary: k)
  case (Cons f fs)
  have "[k..<k + length (f # fs)] = k # [Suc k..<Suc k + length fs]"
    by (simp add: upt_conv_Cons del: upt_Suc)
  then show ?case using Cons [of "Suc k"] by simp
qed simp

lemma takeWhile_index:
  "name \<in> set fs \<Longrightarrow> length (takeWhile (\<lambda>f. f \<noteq> name) fs) < length fs
    \<and> fs ! length (takeWhile (\<lambda>f. f \<noteq> name) fs) = name"
  by (induction fs) auto

lemma index_of_eq: "index_of fs name =
    (if name \<in> set fs then Inr (length (takeWhile (\<lambda>f. f \<noteq> name) fs))
     else Inl (InvalidArgument (''Invalid field name '' @ name @ '' in call to index_of'')))"
  using find_zip [of name fs 0] by (simp add: index_of_def nbs_pairs_def)

lemma index_of_range: "index_of fs name = Inr i \<Longrightarrow> i < length fs \<and> fs ! i = name"
  by (auto simp: index_of_eq takeWhile_index split: if_splits)

lemma index_of_distinct:
  assumes "distinct fs" and "i < length fs"
  shows "index_of fs (fs ! i) = Inr i"
proof -
  obtain j where j: "index_of fs (fs ! i) = Inr j" using assms by (simp add: index_of_eq)
  then have "j = i" using index_of_range [OF j] nth_eq_iff_index_eq [OF assms(1)] assms(2) by blast
  with j show ?thesis by simp
qed

text \<open>
  With distinct names a bit set is a function from names to booleans: every bit list of the right
  length is \<open>map g fs\<close>, and the operations act on \<open>g\<close>.
\<close>

lemma nbs_ok_map: "distinct fs \<Longrightarrow> nbs_ok fs bits \<Longrightarrow> \<exists>g. bits = map g fs"
proof -
  assume d: "distinct fs" and l: "nbs_ok fs bits"
  have "bits = map (\<lambda>n. the (map_of (zip fs bits) n)) fs"
    using d l by (intro nth_equalityI) (auto simp: nbs_ok_def map_of_zip_nth)
  then show ?thesis by blast
qed

lemma nbs_get_map: "n \<in> set fs \<Longrightarrow> nbs_get fs (map g fs) n = Inr (g n)"
  using index_of_range [of fs n] by (auto simp: nbs_get_def index_of_eq bindR_def)

lemma nbs_assign_map:
  assumes "distinct fs" and "n \<in> set fs"
  shows "nbs_assign fs n b (map g fs) = Inr (map (g(n := b)) fs)"
proof -
  obtain i where i: "index_of fs n = Inr i" using assms(2) by (simp add: index_of_eq)
  then have "i < length fs" "fs ! i = n" using index_of_range by auto
  then have "(map g fs)[i := b] = map (g(n := b)) fs"
    using assms(1) by (intro nth_equalityI) (auto simp: nth_list_update nth_eq_iff_index_eq)
  with i show ?thesis by (simp add: nbs_assign_def)
qed

lemma nbs_assign_unknown: "n \<notin> set fs \<Longrightarrow> nbs_assign fs n b bits =
    Inl (InvalidArgument (''Invalid field name '' @ n @ '' in call to index_of''))"
  by (simp add: nbs_assign_def index_of_eq)

lemma nbs_assign_ok [inv_intros]: "nbs_assign fs n b bits = Inr bits' \<Longrightarrow> nbs_ok fs bits \<Longrightarrow> nbs_ok fs bits'"
  by (auto simp: nbs_assign_def bindR_Inr_iff nbs_ok_def)

lemma nbs_empty_map: "nbs_empty fs = map (\<lambda>_. False) fs"
  by (simp add: nbs_empty_def map_replicate_const)

lemma filter_pairs: "map fst (filter (\<lambda>(n, i). map g fs ! i) (nbs_pairs fs)) = filter g fs"
proof -
  have "filter (\<lambda>(n, i). map g fs ! i) (nbs_pairs fs) = filter (\<lambda>p. g (fst p)) (nbs_pairs fs)"
    by (rule filter_cong) (auto simp: nbs_pairs_def in_set_zip)
  also have "map fst \<dots> = filter g (map fst (nbs_pairs fs))"
    by (simp add: filter_map comp_def)
  also have "map fst (nbs_pairs fs) = fs" by (simp add: nbs_pairs_def)
  finally show ?thesis .
qed

lemma flag_names_map: "flag_names fs (map g fs) = filter g fs"
  by (simp add: flag_names_def filter_pairs)

lemma foldR_assign_names:
  assumes "distinct fs" and "set names \<subseteq> set fs"
  shows "foldR (\<lambda>sv bits. nbs_assign fs sv True bits) names (map g fs) =
    Inr (map (\<lambda>f. g f \<or> f \<in> set names) fs)"
  using assms(2)
proof (induction names arbitrary: g)
  case (Cons n names)
  then show ?case
    using Cons.IH [of "g(n := True)"]
    by (auto simp: nbs_assign_map [OF assms(1)] intro!: map_cong)
qed simp

lemma nbs_of_list_eq:
  "distinct fs \<Longrightarrow> set names \<subseteq> set fs \<Longrightarrow> nbs_of_list fs names = Inr (map (\<lambda>f. f \<in> set names) fs)"
  using foldR_assign_names [of fs names "\<lambda>_. False"] by (simp add: nbs_of_list_def nbs_empty_map)

lemma foldR_assign_checks:
  assumes "distinct fs" and "fst ` set r \<subseteq> set fs" and "distinct (map fst r)"
  shows "foldR (\<lambda>(name, fn) bits. nbs_assign fs name (test_flag fn obj) bits) r (map g fs) =
    Inr (map (\<lambda>f. case map_of r f of None \<Rightarrow> g f | Some fn \<Rightarrow> test_flag fn obj) fs)"
  using assms(2, 3)
proof (induction r arbitrary: g)
  case (Cons p r)
  obtain n fn where p: "p = (n, fn)" by (cases p)
  have "map_of r n = None" using Cons.prems(2) p by (simp add: map_of_eq_None_iff)
  then show ?case using Cons p
    by (auto simp: nbs_assign_map [OF assms(1)] intro!: map_cong split: option.splits)
qed simp

lemma nbs_of_map_eq:
  "distinct fs \<Longrightarrow> fst ` set r \<subseteq> set fs \<Longrightarrow> distinct (map fst r) \<Longrightarrow>
    nbs_of_map fs r obj = Inr (map (\<lambda>f. case map_of r f of None \<Rightarrow> False | Some fn \<Rightarrow> test_flag fn obj) fs)"
  using foldR_assign_checks [of fs r obj "\<lambda>_. False"] by (simp add: nbs_of_map_def nbs_empty_map)

lemma bits_value_bound: "bits_value bits < 2 ^ length bits"
  by (induction bits) auto

lemma bit_bits_value: "i < length bits \<Longrightarrow> bit (bits_value bits) i = bits ! i"
proof (induction bits arbitrary: i)
  case (Cons b bs)
  then show ?case by (cases i) (auto simp: bit_Suc bit_0)
qed simp

subsection \<open>Properties\<close>

text \<open>
  A bit set built from a list of names: when all are field names, it has exactly the named flags
  (duplicates do no harm), \<open>flag_names\<close> lists them in field order and every flag reads back; the
  first unknown name of the list is reported by \<open>std::invalid_argument\<close> with that name.
\<close>

theorem named_bit_set_of_list:
  assumes "distinct fs"
  shows "(set names \<subseteq> set fs \<longrightarrow> (\<exists>bits. nbs_of_list fs names = Inr bits \<and> nbs_ok fs bits
      \<and> flag_names fs bits = filter (\<lambda>f. f \<in> set names) fs
      \<and> (\<forall>f \<in> set fs. nbs_get fs bits f = Inr (f \<in> set names))))
    \<and> (set us \<subseteq> set fs \<and> n \<notin> set fs \<longrightarrow> nbs_of_list fs (us @ n # vs) =
        Inl (InvalidArgument (''Invalid field name '' @ n @ '' in call to index_of'')))"
proof (intro conjI impI)
  assume sub: "set names \<subseteq> set fs"
  show "\<exists>bits. nbs_of_list fs names = Inr bits \<and> nbs_ok fs bits
      \<and> flag_names fs bits = filter (\<lambda>f. f \<in> set names) fs
      \<and> (\<forall>f \<in> set fs. nbs_get fs bits f = Inr (f \<in> set names))"
    using nbs_of_list_eq [OF assms sub] by (simp add: nbs_ok_def flag_names_map nbs_get_map)
next
  assume unknown: "set us \<subseteq> set fs \<and> n \<notin> set fs"
  then have "nbs_of_list fs us = Inr (map (\<lambda>f. f \<in> set us) fs)"
    using nbs_of_list_eq [OF assms] by blast
  with unknown show "nbs_of_list fs (us @ n # vs) =
      Inl (InvalidArgument (''Invalid field name '' @ n @ '' in call to index_of''))"
    by (simp add: nbs_of_list_def foldR_append nbs_assign_unknown)
qed

theorem named_bit_set_of_list_witness:
  "(\<exists>bits. nbs_of_list [''read'', ''notify''] [''notify'', ''notify''] = Inr bits
      \<and> flag_names [''read'', ''notify''] bits = [''notify''])
   \<and> nbs_of_list [''read'', ''notify''] [''read'', ''fly''] =
      Inl (InvalidArgument ''Invalid field name fly in call to index_of'')"
proof -
  have "distinct [''read'', ''notify'']" by simp
  note c = named_bit_set_of_list [OF this]
  show ?thesis
    using c [of "[''notify'', ''notify'']" "[]" "''x''" "[]"] c [of "[]" "[''read'']" "''fly''" "[]"]
    by auto
qed

text \<open>
  C33. Both texts of a bit set determine it: rebuilding it from its flag names gives it back, and so
  does splitting its \<open>to_s\<close> at the bars, when a flag is set and no field name holds a bar.
\<close>

theorem named_bit_set_text_roundtrip:
  assumes "distinct fs" and "nbs_ok fs bits"
  shows "nbs_of_list fs (flag_names fs bits) = Inr bits
    \<and> (True \<in> set bits \<and> (\<forall>f \<in> set fs. CHR ''|'' \<notin> set f) \<longrightarrow>
        nbs_of_list fs (split_on (CHR ''|'') (nbs_to_s fs bits)) = Inr bits)"
proof -
  obtain g where g: "bits = map g fs" using nbs_ok_map [OF assms] by blast
  have names: "flag_names fs bits = filter g fs" by (simp add: g flag_names_map)
  have "map (\<lambda>f. f \<in> set (filter g fs)) fs = bits" by (simp add: g)
  then have back_list: "nbs_of_list fs (flag_names fs bits) = Inr bits"
    using nbs_of_list_eq [OF assms(1), of "filter g fs"] by (simp add: names)
  have "split_on (CHR ''|'') (nbs_to_s fs bits) = flag_names fs bits"
    if "True \<in> set bits" and "\<forall>f \<in> set fs. CHR ''|'' \<notin> set f"
    unfolding nbs_to_s_def
  proof (rule split_on_join)
    show "flag_names fs bits \<noteq> []" using that(1) unfolding names unfolding g by (auto simp: filter_empty_conv)
    show "\<forall>x \<in> set (flag_names fs bits). CHR ''|'' \<notin> set x" using that(2) by (simp add: names)
  qed
  with back_list show ?thesis by simp
qed

theorem named_bit_set_text_roundtrip_witness:
  "nbs_of_list [''read'', ''notify'', ''indicate'']
     (split_on (CHR ''|'') (nbs_to_s [''read'', ''notify'', ''indicate''] [True, False, True]))
   = Inr [True, False, True]"
  using named_bit_set_text_roundtrip
    [of "[''read'', ''notify'', ''indicate'']" "[True, False, True]"]
  by (simp add: nbs_ok_def)

text \<open>
  The constructor from a map of checks sets exactly the flags whose check holds of the object,
  leaves the fields without a check cleared, and does not depend on the order in which the (unordered)
  map is iterated.
\<close>

theorem named_bit_set_of_map:
  assumes "distinct fs" and "fst ` set r \<subseteq> set fs" and "distinct (map fst r)"
    and "distinct (map fst r')" and "set r' = set r"
  shows "\<exists>bits. nbs_of_map fs r obj = Inr bits \<and> nbs_of_map fs r' obj = Inr bits
    \<and> flag_names fs bits = filter (\<lambda>f. \<exists>fn. (f, fn) \<in> set r \<and> test_flag fn obj) fs"
proof -
  have same: "map_of r' = map_of r"
    using assms(3-5) by (metis map_of_eq_Some_iff ext not_None_eq)
  have holds: "(case map_of r f of None \<Rightarrow> False | Some fn \<Rightarrow> test_flag fn obj)
      \<longleftrightarrow> (\<exists>fn. (f, fn) \<in> set r \<and> test_flag fn obj)" for f
    using map_of_eq_Some_iff [OF assms(3), of f, symmetric] by (simp split: option.split)
  have "nbs_of_map fs r' obj = nbs_of_map fs r obj"
    using assms by (simp add: nbs_of_map_eq same)
  with nbs_of_map_eq [OF assms(1-3), of obj] show ?thesis
    by (simp add: flag_names_map holds)
qed

theorem named_bit_set_of_map_witness:
  "\<exists>bits. nbs_of_map [''a'', ''b''] [(''b'', ConstMemFn (\<lambda>n. n > (3::nat))), (''a'', ConstFlag False)] 5 = Inr bits
     \<and> flag_names [''a'', ''b''] bits = [''b'']"
  using named_bit_set_of_map [of "[''a'', ''b'']"
      "[(''b'', ConstMemFn (\<lambda>n. n > (3::nat))), (''a'', ConstFlag False)]"
      "[(''a'', ConstFlag False), (''b'', ConstMemFn (\<lambda>n. n > (3::nat)))]" 5]
  by (auto simp: insert_commute)

text \<open>
  The conversion to an integral type, when its requirement holds, is lossless: bit \<open>i\<close> of the
  integer is flag \<open>i\<close>, and the integer is below \<open>2 ^ N\<close>.
\<close>

theorem named_bit_set_to_word:
  assumes "nbs_ok fs bits" and "nbs_convertible fs TYPE('a::len)"
  shows "unat (nbs_to_word bits :: 'a word) = bits_value bits \<and> bits_value bits < 2 ^ length fs
    \<and> (\<forall>i < length fs. bit (nbs_to_word bits :: 'a word) i = bits ! i)"
proof -
  have b: "bits_value bits < 2 ^ length fs"
    using bits_value_bound [of bits] assms(1) by (simp add: nbs_ok_def)
  have "unat (- 1 :: 'a word) < 2 ^ LENGTH('a)" by (rule unat_bound)
  moreover have "2 ^ length fs - 1 \<le> unat (- 1 :: 'a word)"
    using assms(2) by (simp only: nbs_convertible_def)
  ultimately have "bits_value bits < 2 ^ LENGTH('a)" using b by linarith
  then have u: "unat (nbs_to_word bits :: 'a word) = bits_value bits"
    by (simp add: nbs_to_word_def unat_of_nat)
  have "bit (nbs_to_word bits :: 'a word) i = bits ! i" if "i < length fs" for i
    using bit_bits_value [of i bits] that assms(1) u bit_unsigned_iff [of "nbs_to_word bits :: 'a word" i]
    by (metis nbs_ok_def bit_imp_possible_bit possible_bit_nat bit_word_iff_drop_bit_and bit_unsigned_iff)
  with u b show ?thesis by blast
qed

theorem named_bit_set_to_word_witness:
  "unat (nbs_to_word [True, False, True, True] :: 8 word) = 13"
  using named_bit_set_to_word [of "[''a'', ''b'', ''c'', ''d'']" "[True, False, True, True]", where 'a = 8]
  by (simp add: nbs_ok_def nbs_convertible_def unsigned_minus_1_eq_mask mask_eq_exp_minus_1)

end
