(* ===== verification/Callback_Traits.thy ===== *)
theory Callback_Traits imports Ruby_Values begin

text \<open>
  \<open>utils/RubyCallbackTraits.hpp\<close> and \<open>.cpp\<close> (the parameter counts of a proc and the check that it can
  be called with exactly \<open>n\<close> positional arguments) and \<open>containers/Callback.hpp\<close> (the settable
  callback of an adapter, a peripheral or a characteristic). The counts are \<open>uint_least8_t\<close>, so they
  wrap at 256. What a call of the proc returns is a parameter.
\<close>

definition FnParameterTypes :: "string list" where
  "FnParameterTypes = [''req'', ''opt'', ''rest'', ''keyreq'', ''key'', ''keyrest'']"

text \<open>
  The keys of \<open>_map\<close> are views: those of the six initial entries are views of constants, but an entry that
  \<open>++_map[type]\<close> makes for another kind of parameter keeps a view of the local \<open>type\<close>, which is gone after
  the iteration. From then on the map has a dangling key, and to search it is undefined.
\<close>

record callback_traits =
  is_lambda :: bool
  param_map :: "string \<rightharpoonup> u8"
  dangling :: bool

text \<open>\<open>++_map[type]\<close>: a missing entry starts at 0, and the count wraps.\<close>

definition bump :: "string \<Rightarrow> (string \<rightharpoonup> u8) \<Rightarrow> (string \<rightharpoonup> u8)" where
  "bump key m = m(key \<mapsto> (case m key of None \<Rightarrow> 0 | Some c \<Rightarrow> c) + 1)"

definition zero_counts :: "string \<rightharpoonup> u8" where
  "zero_counts = (\<lambda>key. if key \<in> set FnParameterTypes then Some 0 else None)"

fun count_parameters :: "string list \<Rightarrow> callback_traits \<Rightarrow> callback_traits result" where
  "count_parameters [] t = Inr t"
| "count_parameters (type # types) t =
     (if dangling t then Inl UndefinedBehaviour
      else count_parameters types
        (t\<lparr>param_map := bump type (param_map t), dangling := (param_map t type = None)\<rparr>))"

definition callback_traits_of :: "rb_value \<Rightarrow> callback_traits result" where
  "callback_traits_of val =
     (if nil_or_undef val then Inl (InvalidArgument ''Argument must be a proc or lambda'')
      else (case val of
              RProc lam params i \<Rightarrow> bindR
                (count_parameters params \<lparr>is_lambda = False, param_map = zero_counts, dangling = False\<rparr>)
                (\<lambda>t. Inr (t\<lparr>is_lambda := lam\<rparr>))
            | _ \<Rightarrow> Inl (InvalidArgument ''Argument must be a proc or lambda'')))"

definition traits_at :: "callback_traits \<Rightarrow> string \<Rightarrow> u8 result" where
  "traits_at t key = (if dangling t then Inl UndefinedBehaviour
     else case param_map t key of None \<Rightarrow> Inl OutOfRange | Some c \<Rightarrow> Inr c)"

definition accepts_n_args :: "callback_traits \<Rightarrow> int \<Rightarrow> bool result" where
  "accepts_n_args t n =
     (if \<not> is_lambda t then Inr True
      else bindR (traits_at t ''keyreq'') (\<lambda>keyreq.
        if keyreq > 0 then Inr False
        else bindR (traits_at t ''req'') (\<lambda>mn.
          bindR (traits_at t ''rest'') (\<lambda>rest.
            bindR (if rest > 0 then Inr 255 else bindR (traits_at t ''opt'') (\<lambda>opt. Inr (mn + opt)))
              (\<lambda>mx. Inr (uint mn \<le> n \<and> n \<le> uint mx))))))"

fun nat_dec :: "nat \<Rightarrow> string" where
  "nat_dec n = (if n < 10 then [''0123456789'' ! n] else nat_dec (n div 10) @ [''0123456789'' ! (n mod 10)])"

declare nat_dec.simps [simp del]

definition arity_message :: "u8 \<Rightarrow> string" where
  "arity_message n =
     ''Argument must be callable with exactly '' @ nat_dec (unat n) @ '' positional arguments.''"

definition assert_accepts_n_args :: "rb_value \<Rightarrow> u8 \<Rightarrow> bool \<Rightarrow> unit result" where
  "assert_accepts_n_args val n allow_nil =
     (if nil_or_undef val
      then (if allow_nil then Inr ()
            else Inl (InvalidArgument ''Argument must be a proc or lambda (nil values not accepted)''))
      else bindR (callback_traits_of val) (\<lambda>t. bindR (accepts_n_args t (uint n)) (\<lambda>ok.
             if ok then Inr () else Inl (InvalidArgument (arity_message n)))))"

subsection \<open>The callback\<close>

record callback =
  cb_arg_count :: u64
  cb_proc :: rb_value

definition callback_new :: "u64 \<Rightarrow> callback" where
  "callback_new arg_count = \<lparr>cb_arg_count = arg_count, cb_proc = RNil\<rparr>"

text \<open>The argument count is converted from \<open>std::size_t\<close> to \<open>uint8_t\<close> for the check.\<close>

definition callback_set :: "rb_value \<Rightarrow> (callback, unit) act" where
  "callback_set cb = bindA (getA cb_arg_count) (\<lambda>arg_count.
     seqA (liftA (assert_accepts_n_args cb (ucast arg_count) True))
       (modifyA (\<lambda>c. c\<lparr>cb_proc := cb\<rparr>)))"

definition callback_clear :: "(callback, unit) act" where
  "callback_clear = callback_set RNil"

definition callback_fire ::
  "bool \<Rightarrow> (rb_value \<Rightarrow> rb_value list \<Rightarrow> rb_value result) \<Rightarrow> rb_value list \<Rightarrow> callback \<Rightarrow> rb_value result" where
  "callback_fire debug call args c =
     (if debug \<and> of_nat (length args) \<noteq> cb_arg_count c then Inl AssertionFailure
      else if \<not> rb_test (cb_proc c) then Inr RNil
      else call (cb_proc c) args)"

definition callback_is_set :: "callback \<Rightarrow> bool" where
  "callback_is_set c = (cb_proc c \<noteq> RNil \<and> cb_proc c \<noteq> RFalse)"

definition callback_mark :: "callback \<Rightarrow> rb_value list" where
  "callback_mark c = (if callback_is_set c then [cb_proc c] else [])"

subsection \<open>Lemmas\<close>

text \<open>
  When Ruby can call a lambda with exactly \<open>n\<close> positional arguments (and a proc always), by the kinds
  of its parameters.
\<close>

fun callable_with :: "rb_value \<Rightarrow> nat \<Rightarrow> bool" where
  "callable_with (RProc lam params i) n =
     (\<not> lam \<or> (''keyreq'' \<notin> set params \<and> count_list params ''req'' \<le> n
        \<and> (''rest'' \<in> set params \<or> n \<le> count_list params ''req'' + count_list params ''opt'')))"
| "callable_with _ n = False"

lemma fold_bump:
  "fold bump params m key = (if key \<in> set params
     then Some ((case m key of None \<Rightarrow> 0 | Some c \<Rightarrow> c) + of_nat (count_list params key)) else m key)"
proof (induction params arbitrary: m)
  case (Cons p params)
  have "count_list params key = 0" if "key \<notin> set params" using that by (simp add: count_list_0_iff)
  with Cons show ?case by (auto simp: bump_def split: option.splits)
qed simp

lemma traits_counts:
  assumes "key \<in> set FnParameterTypes"
  shows "fold bump params zero_counts key = Some (of_nat (count_list params key))"
proof -
  have "count_list params key = 0" if "key \<notin> set params" using that by (simp add: count_list_0_iff)
  with assms show ?thesis by (auto simp: fold_bump zero_counts_def)
qed

text \<open>The procs with parameters of the six kinds only: for these no key dangles.\<close>

definition plain_parameters :: "string list \<Rightarrow> bool" where
  "plain_parameters params \<longleftrightarrow> set params \<subseteq> set FnParameterTypes"

abbreviation traits_of_counts :: "bool \<Rightarrow> string list \<Rightarrow> callback_traits" where
  "traits_of_counts lam params \<equiv> \<lparr>is_lambda = lam, param_map = fold bump params zero_counts, dangling = False\<rparr>"

lemma count_parameters_plain:
  assumes "plain_parameters params" and "\<not> dangling t" and "set FnParameterTypes \<subseteq> dom (param_map t)"
  shows "count_parameters params t = Inr (t\<lparr>param_map := fold bump params (param_map t)\<rparr>)"
  using assms
proof (induction params arbitrary: t)
  case (Cons p params)
  then have "param_map t p \<noteq> None" by (auto simp: plain_parameters_def)
  moreover have "set FnParameterTypes \<subseteq> dom (bump p (param_map t))"
    using Cons.prems(3) by (auto simp: bump_def)
  ultimately show ?case using Cons by (simp add: plain_parameters_def)
qed simp

lemma count_parameters_foreign:
  assumes "\<not> plain_parameters params" and "\<not> dangling t" and "dom (param_map t) = set FnParameterTypes"
  shows "count_parameters params t = (if plain_parameters (butlast params)
      then Inr (t\<lparr>param_map := fold bump params (param_map t), dangling := True\<rparr>) else Inl UndefinedBehaviour)"
  using assms
proof (induction params arbitrary: t)
  case (Cons p params)
  show ?case
  proof (cases "p \<in> set FnParameterTypes")
    case True
    then obtain c where "param_map t p = Some c" using Cons.prems(3) by auto
    moreover have "dom (bump p (param_map t)) = set FnParameterTypes"
      using Cons.prems(3) True by (auto simp: bump_def)
    moreover have "params \<noteq> []" "\<not> plain_parameters params"
      using Cons.prems(1) True by (auto simp: plain_parameters_def)
    ultimately show ?thesis
      using Cons.IH [of "t\<lparr>param_map := bump p (param_map t), dangling := False\<rparr>"] Cons.prems(2) True
      by (simp add: plain_parameters_def)
  next
    case False
    then have "param_map t p = None" using Cons.prems(3) by (auto simp: domIff set_eq_iff)
    then show ?thesis using Cons.prems(2) False by (cases params) (simp_all add: plain_parameters_def)
  qed
qed (simp add: plain_parameters_def)

lemma dom_zero_counts: "dom zero_counts = set FnParameterTypes"
  by (auto simp: zero_counts_def split: if_splits)

lemma callback_traits_of_proc:
  "callback_traits_of (RProc lam params i) =
     (if plain_parameters params then Inr (traits_of_counts lam params)
      else if plain_parameters (butlast params)
      then Inr ((traits_of_counts lam params)\<lparr>dangling := True\<rparr>) else Inl UndefinedBehaviour)"
  by (simp add: callback_traits_of_def nil_or_undef_def count_parameters_plain count_parameters_foreign dom_zero_counts)

lemma traits_at_proc:
  "key \<in> set FnParameterTypes \<Longrightarrow> traits_at (traits_of_counts l params) key = Inr (of_nat (count_list params key))"
  by (simp add: traits_at_def traits_counts)

lemma accepts_n_args_eq:
  "accepts_n_args (traits_of_counts lam params) n = Inr
     (\<not> lam \<or> (of_nat (count_list params ''keyreq'') = (0 :: u8)
        \<and> uint (of_nat (count_list params ''req'') :: u8) \<le> n
        \<and> n \<le> (if of_nat (count_list params ''rest'') = (0 :: u8)
               then uint (of_nat (count_list params ''req'' + count_list params ''opt'') :: u8) else 255)))"
  by (auto simp: accepts_n_args_def traits_at_proc FnParameterTypes_def word_gt_0)

lemma accepts_n_args_dangling:
  "accepts_n_args \<lparr>is_lambda = lam, param_map = m, dangling = True\<rparr> n = (if lam then Inl UndefinedBehaviour else Inr True)"
  by (simp add: accepts_n_args_def traits_at_def)

text \<open>What the check computes with counts modulo 256.\<close>

definition counted_callable :: "bool \<Rightarrow> string list \<Rightarrow> nat \<Rightarrow> bool" where
  "counted_callable lam params n \<longleftrightarrow> \<not> lam \<or> (count_list params ''keyreq'' mod 256 = 0
     \<and> count_list params ''req'' mod 256 \<le> n
     \<and> n \<le> (if count_list params ''rest'' mod 256 = 0
             then (count_list params ''req'' + count_list params ''opt'') mod 256 else 255))"

lemma u8_of_nat_0: "of_nat k = (0 :: u8) \<longleftrightarrow> k mod 256 = 0"
  by (simp add: word_unat_eq_iff unat_of_nat)

lemma accepts_n_args_counted:
  "accepts_n_args (traits_of_counts lam params) (uint (n :: u8)) = Inr (counted_callable lam params (unat n))"
proof -
  have le: "uint a \<le> uint b \<longleftrightarrow> unat a \<le> unat b" for a b :: u8
    by (simp only: word_le_def [symmetric] word_le_nat_alt)
  have nat: "unat (of_nat k :: u8) = k mod 256" for k by (simp add: unat_of_nat)
  have "unat n \<le> 255" by (rule less_Suc_eq_le [THEN iffD1]) (use unat_byte_bound [of n] in \<open>simp del: unat_byte_bound\<close>)
  moreover from this have "uint n \<le> 255" using uint_nat [of n] by linarith
  ultimately show ?thesis
    unfolding accepts_n_args_eq counted_callable_def u8_of_nat_0
    by (cases "count_list params ''rest'' mod 256 = 0") (simp_all only: if_True if_False le nat simp_thms)
qed

lemma count_list_pair_le:
  "a \<noteq> b \<Longrightarrow> count_list xs a + count_list xs b \<le> length xs"
  by (induction xs) auto

lemma counted_callable_few:
  assumes "length params < 256" and "n < 256"
  shows "counted_callable lam params n = callable_with (RProc lam params i) n"
proof -
  have c: "count_list params k < 256" for k using count_le_length [of params k] assms(1) by simp
  have "count_list params ''req'' + count_list params ''opt'' < 256"
    using count_list_pair_le [of "''req''" "''opt''" params] assms(1) by simp
  then have "(count_list params ''req'' + count_list params ''opt'') mod 256 = count_list params ''req'' + count_list params ''opt''"
    by (rule mod_less)
  then show ?thesis
    using assms(2) by (simp add: counted_callable_def mod_less [OF c] count_list_0_iff)
qed

text \<open>A value with fewer than 256 parameters, all of the six kinds.\<close>

definition few_params :: "rb_value \<Rightarrow> bool" where
  "few_params v = (case v of RProc l ps i \<Rightarrow> length ps < 256 \<and> plain_parameters ps | _ \<Rightarrow> True)"

lemma assert_accepts_proc:
  "assert_accepts_n_args (RProc lam params i) n a =
     (if plain_parameters params
      then (if counted_callable lam params (unat n) then Inr () else Inl (InvalidArgument (arity_message n)))
      else if lam \<or> \<not> plain_parameters (butlast params) then Inl UndefinedBehaviour else Inr ())"
  by (simp add: assert_accepts_n_args_def nil_or_undef_def callback_traits_of_proc accepts_n_args_dangling
      accepts_n_args_counted)

lemma assert_accepts_eq:
  assumes "few_params val"
  shows "assert_accepts_n_args val n True =
    (if nil_or_undef val \<or> callable_with val (unat n) then Inr ()
     else Inl (InvalidArgument
       (if is_proc val then arity_message n else ''Argument must be a proc or lambda'')))"
proof (cases val)
  case (RProc l ps i)
  then show ?thesis
    using assms counted_callable_few [of ps "unat n" l i]
    by (simp add: few_params_def assert_accepts_proc nil_or_undef_def del: callable_with.simps)
qed (auto simp: assert_accepts_n_args_def callback_traits_of_def nil_or_undef_def)

text \<open>What a value must be for the check to be defined.\<close>

definition plain_value :: "rb_value \<Rightarrow> bool" where
  "plain_value v = (case v of RProc l ps i \<Rightarrow> plain_parameters ps | _ \<Rightarrow> True)"

lemma assert_accepts_defined: "plain_value v \<Longrightarrow> assert_accepts_n_args v n a \<noteq> Inl UndefinedBehaviour"
proof (cases v)
  case (RProc l ps i)
  then show "plain_value v \<Longrightarrow> assert_accepts_n_args v n a \<noteq> Inl UndefinedBehaviour"
    by (simp add: plain_value_def assert_accepts_proc)
qed (cases a; simp add: assert_accepts_n_args_def callback_traits_of_def nil_or_undef_def)+

lemma callback_set_eq:
  "callback_set v c = (case assert_accepts_n_args v (ucast (cb_arg_count c)) True of
     Inl e \<Rightarrow> (Inl e, c) | Inr u \<Rightarrow> (Inr (), c\<lparr>cb_proc := v\<rparr>))"
  by (auto simp: callback_set_def bindA_def seqA_def act_simps split: sum.splits)

subsection \<open>Properties\<close>



text \<open>
  The counts are kept modulo 256: a lambda with \<open>k\<close> required parameters and nothing else is
  accepted for \<open>n\<close> arguments (\<open>n < 256\<close>) exactly when \<open>k mod 256 = n\<close>, so one with 256 required
  parameters passes the check for a callback without arguments.
\<close>

theorem callback_arity_wraps:
  assumes "n < 256"
  shows "assert_accepts_n_args (RProc True (replicate k ''req'') i) (of_nat n) True = Inr ()
    \<longleftrightarrow> k mod 256 = n"
proof -
  have counts: "count_list (replicate k ''req'') key = (if key = ''req'' then k else 0)" for key
    by (induction k) auto
  have "plain_parameters (replicate k ''req'')" by (auto simp: plain_parameters_def FnParameterTypes_def)
  then show ?thesis
    using assms by (auto simp: assert_accepts_proc counted_callable_def counts unat_of_nat)
qed

theorem callback_arity_wraps_witness:
  "assert_accepts_n_args (RProc True (replicate 256 ''req'') 0) 0 True = Inr ()"
  using callback_arity_wraps [of 0 256 0] by simp

text \<open>Offering several values to the setter one after the other, each exception caught by the caller.\<close>

fun set_all :: "rb_value list \<Rightarrow> callback \<Rightarrow> callback" where
  "set_all [] c = c"
| "set_all (v # vs) c = set_all vs (snd (callback_set v c))"

definition offered_ok :: "u64 \<Rightarrow> rb_value \<Rightarrow> bool" where
  "offered_ok n v \<longleftrightarrow> nil_or_undef v \<or> callable_with v (unat (ucast n :: u8))"

definition callback_ok :: "callback \<Rightarrow> bool" where
  "callback_ok c \<longleftrightarrow> offered_ok (cb_arg_count c) (cb_proc c)"

lemma callback_set_result:
  assumes "few_params v"
  shows "snd (callback_set v c) = (if offered_ok (cb_arg_count c) v then c\<lparr>cb_proc := v\<rparr> else c)"
  using assert_accepts_eq [of v "ucast (cb_arg_count c)"] assms
  by (auto simp: callback_set_eq offered_ok_def)

lemma set_all_eq:
  assumes "\<forall>v \<in> set vs. few_params v"
  shows "set_all vs c = c\<lparr>cb_proc := last (cb_proc c # filter (offered_ok (cb_arg_count c)) vs)\<rparr>"
  using assms
proof (induction vs arbitrary: c)
  case (Cons v vs)
  then show ?case by (auto simp: callback_set_result)
qed simp

text \<open>
  After any sequence of attempts to set it, the callback is the last acceptable value offered
  (nil before the first one): a refused value leaves it as it was. Hence firing it with as many
  arguments as it was created for either does nothing and returns nil, or calls a proc that Ruby can
  call with that many arguments, and no \<open>ArgumentError\<close> can come from the arity.
\<close>

theorem callback_set_last_accepted:
  assumes "\<forall>v \<in> set vs. few_params v" and "unat n < 256" and "length args = unat n"
  defines "c \<equiv> set_all vs (callback_new n)"
  shows "cb_proc c = last (RNil # filter (\<lambda>v. nil_or_undef v \<or> callable_with v (unat n)) vs)
    \<and> (rb_test (cb_proc c) \<and> cb_proc c \<noteq> RUndef \<longrightarrow> callable_with (cb_proc c) (length args))
    \<and> callback_fire debug call args c =
        (if callback_is_set c then call (cb_proc c) args else Inr RNil)"
proof -
  let ?ok = "\<lambda>v. nil_or_undef v \<or> callable_with v (unat n)"
  have "unat (ucast n :: u8) = unat (of_nat (unat n) :: u8)"
    by (rule arg_cong [where f = unat]) (rule of_nat_unat [symmetric])
  also have "\<dots> = unat n" using assms(2) by (simp only: unat_of_nat) simp
  finally have u: "unat (ucast n :: u8) = unat n" .
  have ok: "offered_ok n = ?ok" by (simp add: fun_eq_iff offered_ok_def u)
  have c: "c = \<lparr>cb_arg_count = n, cb_proc = last (RNil # filter ?ok vs)\<rparr>"
    using set_all_eq [OF assms(1), of "callback_new n"]
    by (simp add: c_def callback_new_def ok)
  have "?ok (last (RNil # filter ?ok vs))"
  proof (cases "filter ?ok vs = []")
    case False
    then have "last (filter ?ok vs) \<in> set (filter ?ok vs)" by (rule last_in_set)
    with False show ?thesis by auto
  qed (simp add: nil_or_undef_def)
  then show ?thesis
    using assms(3)
    by (auto simp: c callback_fire_def callback_is_set_def rb_test_def nil_or_undef_def
        word_unat_eq_iff unat_of_nat)
qed

theorem callback_set_last_accepted_witness:
  "cb_proc (set_all [RProc True [''req''] 1, RObject 7] (callback_new 1)) = RProc True [''req''] 1"
  using callback_set_last_accepted [of "[RProc True [''req''] 1, RObject 7]" 1 "[RNil]"]
  by (simp add: few_params_def plain_parameters_def FnParameterTypes_def nil_or_undef_def)

end
