(* ===== verification/Ruby_Context.thy ===== *)
theory Ruby_Context imports RuBLE_Prelude begin

text \<open>
  \<open>utils/ruby_context.hpp\<close>: the per-thread counter \<open>InRuby\<close> that says whether the thread may call
  Ruby, and the movable guards that keep it positive; and \<open>ensure_ruby\<close> of \<open>utils/ruby.hpp\<close>, which
  runs a function with the interpreter's lock unless the thread is already in Ruby. A guard is a
  number; it is alive when the map holds it, and then either engaged (its pointer is the counter) or
  not (its pointer is null).
\<close>

record context_state =
  use_count :: u64
  guards :: "nat \<rightharpoonup> bool"

definition context_init :: context_state where
  "context_init = \<lparr>use_count = 0, guards = Map.empty\<rparr>"

definition in_ruby :: "context_state \<Rightarrow> bool" where
  "in_ruby s \<longleftrightarrow> use_count s > 0"

subsection \<open>Operations on guards\<close>

definition guard_default :: "nat \<Rightarrow> context_state \<Rightarrow> context_state" where
  "guard_default g s = s\<lparr>guards := (guards s)(g \<mapsto> False)\<rparr>"

definition assert_in_ruby_guard :: "nat \<Rightarrow> context_state \<Rightarrow> context_state" where
  "assert_in_ruby_guard g s = s\<lparr>use_count := use_count s + 1, guards := (guards s)(g \<mapsto> True)\<rparr>"

definition guard_destroy :: "nat \<Rightarrow> context_state \<Rightarrow> context_state" where
  "guard_destroy g s =
     s\<lparr>use_count := (if guards s g = Some True then use_count s - 1 else use_count s),
       guards := (guards s)(g := None)\<rparr>"

text \<open>The move assignment, statement by statement.\<close>

definition guard_move_assign :: "nat \<Rightarrow> nat \<Rightarrow> context_state \<Rightarrow> context_state" where
  "guard_move_assign this other s =
     (let old = guards s this;
          s1 = s\<lparr>guards := (guards s)(this := guards s other)\<rparr>;
          s2 = (if guards s1 this = Some True then s1\<lparr>use_count := use_count s1 + 1\<rparr> else s1);
          s3 = (if old = Some True then s2\<lparr>use_count := use_count s2 - 1\<rparr> else s2)
      in s3\<lparr>guards := (guards s3)(other \<mapsto> False)\<rparr>)"

definition guard_move_construct :: "nat \<Rightarrow> nat \<Rightarrow> context_state \<Rightarrow> context_state" where
  "guard_move_construct this other s = guard_move_assign this other (guard_default this s)"

datatype guard_op =
    Default nat
  | Assert nat
  | Move_construct nat nat
  | Move_assign nat nat
  | Destroy nat

fun op_allowed :: "guard_op \<Rightarrow> context_state \<Rightarrow> bool" where
  "op_allowed (Default g) s = (guards s g = None)"
| "op_allowed (Assert g) s = (guards s g = None)"
| "op_allowed (Move_construct g h) s = (guards s g = None \<and> guards s h \<noteq> None)"
| "op_allowed (Move_assign g h) s = (guards s g \<noteq> None \<and> guards s h \<noteq> None)"
| "op_allowed (Destroy g) s = (guards s g \<noteq> None)"

fun guard_step :: "guard_op \<Rightarrow> context_state \<Rightarrow> context_state" where
  "guard_step (Default g) s = guard_default g s"
| "guard_step (Assert g) s = assert_in_ruby_guard g s"
| "guard_step (Move_construct g h) s = guard_move_construct g h s"
| "guard_step (Move_assign g h) s = guard_move_assign g h s"
| "guard_step (Destroy g) s = guard_destroy g s"

fun guard_run :: "guard_op list \<Rightarrow> context_state \<Rightarrow> context_state option" where
  "guard_run [] s = Some s"
| "guard_run (x # xs) s = (if op_allowed x s then guard_run xs (guard_step x s) else None)"

text \<open>How many of the moves of a run had an engaged source.\<close>

fun moves_engaged :: "guard_op \<Rightarrow> context_state \<Rightarrow> nat" where
  "moves_engaged (Move_construct g h) s = (if guards s h = Some True then 1 else 0)"
| "moves_engaged (Move_assign g h) s = (if guards s h = Some True then 1 else 0)"
| "moves_engaged _ s = 0"

fun run_moves_engaged :: "guard_op list \<Rightarrow> context_state \<Rightarrow> nat" where
  "run_moves_engaged [] s = 0"
| "run_moves_engaged (x # xs) s = moves_engaged x s + run_moves_engaged xs (guard_step x s)"

definition engaged :: "context_state \<Rightarrow> nat set" where
  "engaged s = {g. guards s g = Some True}"

subsection \<open>What the counter counts\<close>

text \<open>\<open>k\<close> is the number of engaged moves so far.\<close>

definition counts :: "nat \<Rightarrow> context_state \<Rightarrow> bool" where
  "counts k s \<longleftrightarrow> finite (engaged s) \<and> use_count s = of_nat (card (engaged s) + k)"

lemma counts_init: "counts 0 context_init"
  by (simp add: counts_def engaged_def context_init_def)

lemma engaged_step:
  "engaged (guard_default g s) = engaged s - {g}"
  "engaged (assert_in_ruby_guard g s) = insert g (engaged s)"
  "engaged (guard_destroy g s) = engaged s - {g}"
  "engaged (guard_move_assign g h s) =
     (if guards s h = Some True then insert g (engaged s) else engaged s - {g}) - {h}"
  by (auto simp: engaged_def guard_default_def assert_in_ruby_guard_def guard_destroy_def
      guard_move_assign_def Let_def)

lemma use_count_move: "use_count (guard_move_assign g h s) =
    use_count s + (if guards s h = Some True then 1 else 0) - (if guards s g = Some True then 1 else 0)"
  by (simp add: guard_move_assign_def Let_def)

lemma card_engaged_remove:
  "finite (engaged s) \<Longrightarrow> guards s g = Some True \<Longrightarrow> card (engaged s) = Suc (card (engaged s - {g}))"
  by (rule card.remove) (simp_all add: engaged_def)

lemma counts_move_assign:
  assumes "counts k s"
  shows "counts (k + (if guards s h = Some True then 1 else 0)) (guard_move_assign g h s)"
proof -
  let ?E = "engaged s"
  have fin: "finite ?E" and c: "use_count s = of_nat (card ?E + k)"
    using assms by (auto simp: counts_def)
  have g: "guards s g = Some True \<longleftrightarrow> g \<in> ?E" and h: "guards s h = Some True \<longleftrightarrow> h \<in> ?E"
    by (simp_all add: engaged_def)
  have "card (insert g ?E - {h}) + (if g \<in> ?E then 1 else 0) = card ?E" if "h \<in> ?E"
  proof -
    have "0 < card ?E" using that fin by (auto simp: card_gt_0_iff)
    with that fin show ?thesis by (simp add: card_Diff_singleton card_insert_if)
  qed
  moreover have "card (?E - {g} - {h}) + (if g \<in> ?E then 1 else 0) = card ?E" if "h \<notin> ?E"
  proof -
    have "?E - {g} - {h} = ?E - {g}" using that by blast
    then show ?thesis using fin card.remove [of ?E g] by auto
  qed
  ultimately have card: "card ?E = card (engaged (guard_move_assign g h s)) + (if g \<in> ?E then 1 else 0)"
    by (auto simp: engaged_step h)
  have "finite (engaged (guard_move_assign g h s))" using fin by (simp add: engaged_step)
  then show ?thesis
    unfolding counts_def use_count_move g h c card by simp
qed

lemma counts_step:
  assumes "counts k s" and "op_allowed x s"
  shows "counts (k + moves_engaged x s) (guard_step x s)"
proof (cases x)
  case (Default g)
  then have "g \<notin> engaged s" using assms(2) by (simp add: engaged_def)
  with Default assms(1) show ?thesis by (simp add: counts_def engaged_step) (simp add: guard_default_def)
next
  case (Assert g)
  then have "g \<notin> engaged s" using assms(2) by (simp add: engaged_def)
  with Assert assms(1) show ?thesis
    by (simp add: counts_def engaged_step) (simp add: assert_in_ruby_guard_def)
next
  case (Move_construct g h)
  have "counts k (guard_default g s)"
    using assms Move_construct by (simp add: counts_def engaged_step)
      (simp add: guard_default_def engaged_def)
  moreover have "guards (guard_default g s) h = guards s h"
    using Move_construct assms(2) by (auto simp: guard_default_def)
  ultimately show ?thesis
    using counts_move_assign [of k "guard_default g s" h g] Move_construct
    by (simp add: guard_move_construct_def)
next
  case (Move_assign g h)
  then show ?thesis using counts_move_assign [OF assms(1), of h g] by simp
next
  case (Destroy g)
  show ?thesis
  proof (cases "guards s g = Some True")
    case True
    then show ?thesis
      using Destroy assms(1) card_engaged_remove [of s g]
      by (simp add: counts_def engaged_step) (simp add: guard_destroy_def)
  next
    case False
    then have "engaged s - {g} = engaged s" by (simp add: engaged_def)
    with False Destroy assms(1) show ?thesis
      by (simp add: counts_def engaged_step) (simp add: guard_destroy_def)
  qed
qed

lemma counts_run: "counts k s \<Longrightarrow> guard_run xs s = Some t \<Longrightarrow> counts (k + run_moves_engaged xs s) t"
proof (induction xs arbitrary: k s)
  case (Cons x xs)
  then have ok: "op_allowed x s" and run: "guard_run xs (guard_step x s) = Some t"
    by (auto split: if_splits)
  from Cons.IH [OF counts_step [OF Cons.prems(1) ok] run] show ?case by (simp add: add.assoc)
qed simp

subsection \<open>ensure_ruby\<close>

text \<open>
  The state of the calling thread: its counter and whether it holds the interpreter's lock.
  \<open>rb_thread_call_with_gvl\<close> is the parameter \<open>call_with_gvl\<close>.
\<close>

record thread_state =
  thread_use_count :: u64
  holds_gvl :: bool

definition thread_in_ruby :: "thread_state \<Rightarrow> bool" where
  "thread_in_ruby s \<longleftrightarrow> thread_use_count s > 0"

text \<open>
  What the functions handed to Ruby share: a guard is made first and destroyed at the end, exception or
  not.
\<close>

definition with_guard :: "(thread_state, 'a) act \<Rightarrow> (thread_state, 'a) act" where
  "with_guard fn s =
     (let (r, s') = fn (s\<lparr>thread_use_count := thread_use_count s + 1\<rparr>)
      in (r, s'\<lparr>thread_use_count := thread_use_count s' - 1\<rparr>))"

text \<open>
  The result crosses the C interface on the heap. The cell that \<open>resultPtr\<close> points to holds the
  result until it is deleted; moving out of a deleted cell is undefined.
\<close>

datatype 'a cell = Holds 'a | Deleted

fun delete_cell :: "'a cell \<Rightarrow> 'a cell" where
  "delete_cell c = Deleted"

fun move_out :: "'a cell \<Rightarrow> 'a result" where
  "move_out (Holds x) = Inr x"
| "move_out Deleted = Inl UndefinedBehaviour"

definition ruby_invoke :: "(thread_state, 'a) act \<Rightarrow> (thread_state, 'a cell) act" where
  "ruby_invoke fn = with_guard (bindA fn (\<lambda>x. retA (Holds x)))"

text \<open>
  The reference \<open>result\<close> is bound to the cell and moves nothing; the cell is deleted, and only then
  the result is moved out of it.
\<close>

definition ensure_ruby ::
  "((thread_state, 'a cell) act \<Rightarrow> (thread_state, 'a cell) act) \<Rightarrow> (thread_state, 'a) act \<Rightarrow> (thread_state, 'a) act" where
  "ensure_ruby call_with_gvl fn s =
     (if thread_in_ruby s then fn s
      else bindA (call_with_gvl (ruby_invoke fn)) (\<lambda>result. liftA (move_out (delete_cell result))) s)"

definition ensuring_ruby ::
  "((thread_state, 'a cell) act \<Rightarrow> (thread_state, 'a cell) act) \<Rightarrow> ('x \<Rightarrow> (thread_state, 'a) act) \<Rightarrow> 'x \<Rightarrow> (thread_state, 'a) act" where
  "ensuring_ruby call_with_gvl fn args = ensure_ruby call_with_gvl (fn args)"

text \<open>What the queue's loop does with a callback it took: the same guard, around the callback.\<close>

definition run_callback ::
  "((thread_state, unit) act \<Rightarrow> (thread_state, unit) act) \<Rightarrow> (thread_state, unit) act \<Rightarrow> (thread_state, unit) act" where
  "run_callback call_with_gvl item = call_with_gvl (with_guard item)"

text \<open>
  Documented: a thread without the lock gets it for the call and gives it back. The function is called
  from C code, so an exception that leaves it is undefined behaviour.
\<close>

definition sample_gvl_call :: "(thread_state, 'a) act \<Rightarrow> (thread_state, 'a) act" where
  "sample_gvl_call m s = (case m (s\<lparr>holds_gvl := True\<rparr>) of
     (Inr x, s') \<Rightarrow> (Inr x, s'\<lparr>holds_gvl := False\<rparr>) | (Inl e, s') \<Rightarrow> (Inl UndefinedBehaviour, s'))"

definition gvl_call_ok :: "((thread_state, 'a) act \<Rightarrow> (thread_state, 'a) act) \<Rightarrow> bool" where
  "gvl_call_ok c \<longleftrightarrow> (\<forall>m s. \<not> holds_gvl s \<longrightarrow> c m s = sample_gvl_call m s)"

lemma sample_gvl_call_ok: "gvl_call_ok sample_gvl_call"
  by (simp add: gvl_call_ok_def)

subsection \<open>Properties\<close>



text \<open>
  The leak: moving the guard of \<open>assert_in_ruby_guard\<close> into another one (as the initialisation
  of the extension does for \<open>main_thread_in_ruby\<close>) and destroying both leaves no guard alive, yet the
  thread still counts as in Ruby; without the move it does not.
\<close>

theorem in_ruby_guard_move_leaks:
  "\<exists>s. guard_run [Default 0, Assert 1, Move_assign 0 1, Destroy 1, Destroy 0] context_init = Some s
      \<and> guards s = Map.empty \<and> use_count s = 1 \<and> in_ruby s
    \<and> (\<exists>t. guard_run [Assert 1, Destroy 1] context_init = Some t
      \<and> guards t = Map.empty \<and> \<not> in_ruby t)"
  by (simp add: context_init_def guard_default_def assert_in_ruby_guard_def guard_move_assign_def
      guard_destroy_def in_ruby_def Let_def fun_eq_iff)



text \<open>
  A callback from the queue runs with the lock and counts as in Ruby, and the uses of \<open>ensure_ruby\<close> in
  it do not take the lock again.
\<close>

lemma run_callback_in_ruby:
  assumes "gvl_call_ok c" and "\<not> holds_gvl s" and "\<not> thread_in_ruby s"
  shows "\<exists>u. holds_gvl u \<and> thread_in_ruby u \<and> run_callback c item s =
      (case item u of (Inr x, v) \<Rightarrow> (Inr x, v\<lparr>thread_use_count := thread_use_count v - 1, holds_gvl := False\<rparr>)
       | (Inl e, v) \<Rightarrow> (Inl UndefinedBehaviour, v\<lparr>thread_use_count := thread_use_count v - 1\<rparr>)) \<and>
    (\<forall>d (fn :: (thread_state, 'a) act). ensure_ruby d fn u = fn u)"
proof -
  define u where "u = s\<lparr>holds_gvl := True, thread_use_count := thread_use_count s + 1\<rparr>"
  have zero: "thread_use_count s = 0" using assms(3) by (simp add: thread_in_ruby_def word_gt_0)
  then have "holds_gvl u" "thread_in_ruby u" by (simp_all add: u_def thread_in_ruby_def)
  moreover have "run_callback c item s =
      (case item u of (Inr x, v) \<Rightarrow> (Inr x, v\<lparr>thread_use_count := thread_use_count v - 1, holds_gvl := False\<rparr>)
       | (Inl e, v) \<Rightarrow> (Inl UndefinedBehaviour, v\<lparr>thread_use_count := thread_use_count v - 1\<rparr>))"
    using assms(1,2) by (simp add: run_callback_def gvl_call_ok_def sample_gvl_call_def with_guard_def u_def
        split_beta Let_def split: prod.splits sum.splits)
  ultimately show ?thesis by (intro exI [of _ u]) (simp add: ensure_ruby_def)
qed

end
