(* ===== verification/Async_Wait.thy ===== *)
theory Async_Wait imports RuBLE_Prelude begin

text \<open>
  \<open>utils/async.hpp\<close>, \<open>async.cpp\<close>: the polling loop \<open>wait_until\<close>. The predicate and the clock are read
  once per round, so they are sequences indexed by the round; times are in milliseconds. The loop
  may run forever, so it is a partial function: \<open>None\<close> is not returning. Next to the code's result
  it yields the number of rounds slept.
\<close>

partial_function (option) wait_loop :: "(nat \<Rightarrow> bool) \<Rightarrow> (nat \<Rightarrow> bool) \<Rightarrow> nat \<Rightarrow> (bool \<times> nat) option" where
  "wait_loop fn is_timed_out k =
     (let fn_result = fn k; timed_out = is_timed_out k
      in if fn_result \<or> timed_out then Some (fn_result, k)
         else wait_loop fn is_timed_out (Suc k))"

definition wait_until ::
  "(nat \<Rightarrow> bool) \<Rightarrow> int option \<Rightarrow> int \<Rightarrow> (nat \<Rightarrow> int) \<Rightarrow> (bool \<times> nat) option" where
  "wait_until fn duration start clock =
     (case duration of
        None \<Rightarrow> wait_loop fn (\<lambda>_. False) 0
      | Some d \<Rightarrow> (let until = start + d in wait_loop fn (\<lambda>k. until < clock k) 0))"

text \<open>\<open>thread_sleep\<close> sleeps for a quarter of a second.\<close>

definition sleep_ms :: int where
  "sleep_ms = 250"

subsection \<open>Lemmas\<close>

lemma wait_loop_stop: "fn k \<or> t k \<Longrightarrow> wait_loop fn t k = Some (fn k, k)"
  by (simp add: wait_loop.simps [of fn t k])

lemma wait_loop_next: "\<not> fn k \<Longrightarrow> \<not> t k \<Longrightarrow> wait_loop fn t k = wait_loop fn t (Suc k)"
  by (simp add: wait_loop.simps [of fn t k])

lemma wait_loop_reaches:
  assumes "fn (k + n) \<or> t (k + n)" and "\<forall>j < n. \<not> fn (k + j) \<and> \<not> t (k + j)"
  shows "wait_loop fn t k = Some (fn (k + n), k + n)"
  using assms
proof (induction n arbitrary: k)
  case 0
  then show ?case by (simp add: wait_loop_stop)
next
  case (Suc n)
  have "\<not> fn k" and "\<not> t k" using Suc.prems(2) [rule_format, of 0] by simp_all
  then have "wait_loop fn t k = wait_loop fn t (Suc k)" by (rule wait_loop_next)
  also have "\<dots> = Some (fn (Suc k + n), Suc k + n)"
  proof (rule Suc.IH)
    show "fn (Suc k + n) \<or> t (Suc k + n)" using Suc.prems(1) by simp
    show "\<forall>j < n. \<not> fn (Suc k + j) \<and> \<not> t (Suc k + j)"
    proof (intro allI impI)
      fix j assume "j < n"
      then show "\<not> fn (Suc k + j) \<and> \<not> t (Suc k + j)"
        using Suc.prems(2) [rule_format, of "Suc j"] by simp
    qed
  qed
  finally show ?case by simp
qed

lemma before_least:
  assumes "j < (LEAST k. P k \<or> Q k)"
  shows "\<not> P j" and "\<not> Q (j::nat)"
  using not_less_Least [OF assms] by simp_all

lemma wait_loop_least:
  assumes "\<exists>k. fn k \<or> t k"
  shows "wait_loop fn t 0 = Some (fn (LEAST k. fn k \<or> t k), LEAST k. fn k \<or> t k)"
proof -
  define n where "n = (LEAST k. fn k \<or> t k)"
  have "fn n \<or> t n" unfolding n_def using assms by (rule LeastI_ex)
  moreover have "\<forall>j < n. \<not> fn j \<and> \<not> t j" unfolding n_def using before_least by blast
  ultimately have "wait_loop fn t 0 = Some (fn n, n)" using wait_loop_reaches [of fn 0 n t] by simp
  then show ?thesis unfolding n_def .
qed

lemma wait_loop_result: "wait_loop fn t i = Some rk \<Longrightarrow> fn (snd rk) \<or> t (snd rk)"
proof (induction fn t i rk rule: wait_loop.raw_induct [rotated, consumes 1, case_names round])
  case (round f fn t i rk)
  show ?case
  proof (cases "fn i \<or> t i")
    case True
    with round(2) show ?thesis by (auto simp: Let_def)
  next
    case False
    with round(2) have "f fn t (Suc i) = Some rk" by (simp add: Let_def)
    then show ?thesis by (rule round(1))
  qed
qed

lemma wait_loop_never:
  assumes "\<forall>k. \<not> fn k \<and> \<not> t k"
  shows "wait_loop fn t i = None"
  using assms wait_loop_result by (cases "wait_loop fn t i") blast+

lemma wait_until_returns:
  assumes "0 \<le> d" and "start \<le> clock 0" and "\<And>k. clock k + sleep_ms \<le> clock (Suc k)"
  shows "\<exists>n. wait_until fn (Some d) start clock = Some (fn n, n) \<and> n \<le> nat (d div sleep_ms) + 1
    \<and> (fn n \<or> start + d < clock n) \<and> (\<forall>j < n. \<not> fn j \<and> clock j \<le> start + d)"
proof -
  define t where "t = (\<lambda>k. start + d < clock k)"
  define n where "n = (LEAST k. fn k \<or> t k)"
  define m where "m = nat (d div sleep_ms) + 1"
  have adv: "start + sleep_ms * int k \<le> clock k" for k
  proof (induction k)
    case (Suc k)
    then show ?case using assms(3) [of k] by (simp add: sleep_ms_def algebra_simps)
  qed (simp add: assms(2))
  have "d < sleep_ms * int m"
  proof -
    have "0 \<le> d div 250" using assms(1) by simp
    then have "int m = d div 250 + 1" by (simp add: m_def sleep_ms_def)
    then show ?thesis by (simp add: sleep_ms_def)
  qed
  with adv [of m] have tm: "t m" unfolding t_def by linarith
  then have ex: "\<exists>k. fn k \<or> t k" by blast
  have "n \<le> m" unfolding n_def using tm by (intro Least_le) simp
  moreover have "fn n \<or> start + d < clock n"
    using LeastI_ex [OF ex] unfolding n_def t_def by simp
  moreover have "\<not> fn j \<and> clock j \<le> start + d" if "j < n" for j
    using before_least [OF that [unfolded n_def]] by (simp add: t_def not_less)
  moreover have "wait_until fn (Some d) start clock = Some (fn n, n)"
    using wait_loop_least [OF ex] by (simp add: wait_until_def n_def t_def)
  ultimately show ?thesis unfolding m_def by blast
qed

subsection \<open>Properties\<close>

text \<open>
  Without a timeout \<open>wait_until\<close> returns if and only if the predicate is true in some round, and
  then it returns true after the first such round.
\<close>

theorem wait_until_forever:
  "wait_until fn None start clock =
     (if \<exists>k. fn k then Some (True, LEAST k. fn k) else None)"
proof (cases "\<exists>k. fn k")
  case True
  then have "fn (LEAST k. fn k)" by (rule LeastI_ex)
  with True show ?thesis using wait_loop_least [of fn "\<lambda>_. False"] by (simp add: wait_until_def)
next
  case False
  then show ?thesis by (simp add: wait_until_def wait_loop_never)
qed

text \<open>
  C37. With a timeout, on a clock that advances by at least the sleep between two rounds, \<open>wait_until\<close>
  always returns, after at most \<open>d div 250 + 1\<close> sleeps; it returns the value of the predicate in the
  last round, which is the first round where the predicate holds or the deadline has passed, so a
  success found in the very round of the deadline is still reported.
\<close>

theorem wait_until_bounded:
  assumes "0 \<le> d" and "start \<le> clock 0" and "\<And>k. clock k + sleep_ms \<le> clock (Suc k)"
  shows "\<exists>n. wait_until fn (Some d) start clock = Some (fn n, n) \<and> n \<le> nat (d div sleep_ms) + 1
    \<and> (fn n \<or> start + d < clock n) \<and> (\<forall>j < n. \<not> fn j \<and> clock j \<le> start + d)"
  using assms by (rule wait_until_returns)

theorem wait_until_bounded_witness:
  "\<exists>n. wait_until (\<lambda>k. k = 3) (Some 15000) 0 (\<lambda>k. 300 * int k) = Some (n = 3, n)"
  using wait_until_bounded [of 15000 0 "\<lambda>k. 300 * int k" "\<lambda>k. k = 3"] by (auto simp: sleep_ms_def)

end
