(* ===== verification/Ruby_Queue.thy ===== *)
theory Ruby_Queue imports Async_Wait "HOL-Library.Multiset" begin

text \<open>
  \<open>management/RubyQueue.hpp\<close>, \<open>RubyQueue.cpp\<close>: the queue through which SimpleBLE's threads hand callbacks
  to the Ruby thread. The state is the object's members; every atomic action of a member function
  (one access of an atomic flag, of a semaphore, of the deque under its mutex) is one function, and
  \<open>q_step\<close> interleaves those of any number of pushing and stopping threads with the loop's. Items are
  the callbacks. The record also keeps what happened: the items appended, refused and executed, the
  pushes under way and the fault that ended the run. A thread created by \<open>rb_thread_create\<close> runs only
  once its creator gives up the GVL, so \<open>start\<close> is one action.
\<close>

subsection \<open>State\<close>

datatype 'i loop_pc =
    LNone | LCreated | LLocked | LLatched | LTop | LWait | LGot | LPop | LRun 'i | LClear | LUnlock | LDone

record 'i rq =
  rq_q :: "'i list"
  rq_sem :: nat
  rq_latch :: bool
  rq_running :: bool
  rq_starting :: bool
  rq_stopping :: bool
  rq_thread :: bool
  rq_run_lock :: bool
  rq_pc :: "'i loop_pc"
  rq_entering :: "'i list"
  rq_pending :: nat
  rq_stop_due :: bool
  rq_killed :: bool
  rq_pushed :: "'i list"
  rq_refused :: "'i list"
  rq_executed :: "'i list"
  rq_fault :: "error option"

definition rq_new :: "'i rq" where
  "rq_new = \<lparr>rq_q = [], rq_sem = 0, rq_latch = False, rq_running = False, rq_starting = False,
     rq_stopping = False, rq_thread = False, rq_run_lock = False, rq_pc = LNone, rq_entering = [],
     rq_pending = 0, rq_stop_due = False, rq_killed = False, rq_pushed = [], rq_refused = [],
     rq_executed = [], rq_fault = None\<rparr>"

text \<open>\<open>std::counting_semaphore<65535>\<close>: releasing it beyond its maximum is undefined.\<close>

definition semaphore_max :: nat where
  "semaphore_max = 65535"

definition sem_release :: "'i rq \<Rightarrow> 'i rq" where
  "sem_release s = (if rq_sem s < semaphore_max then s\<lparr>rq_sem := rq_sem s + 1\<rparr>
                    else s\<lparr>rq_fault := Some UndefinedBehaviour\<rparr>)"

subsection \<open>push\<close>

text \<open>
  The test of \<open>_stopping\<close>, whose \<open>return\<close> stands inside \<open>if (DEBUG)\<close>; the append under the mutex; the
  release of the semaphore.
\<close>

definition push_enter :: "bool \<Rightarrow> 'i \<Rightarrow> 'i rq \<Rightarrow> 'i rq" where
  "push_enter debug fn s =
     (if rq_stopping s \<and> debug then s\<lparr>rq_refused := rq_refused s @ [fn]\<rparr>
      else s\<lparr>rq_entering := rq_entering s @ [fn]\<rparr>)"

definition push_append :: "'i \<Rightarrow> 'i rq \<Rightarrow> 'i rq" where
  "push_append fn s = s\<lparr>rq_q := rq_q s @ [fn], rq_entering := remove1 fn (rq_entering s),
     rq_pending := rq_pending s + 1, rq_pushed := rq_pushed s @ [fn]\<rparr>"

definition push_release :: "'i rq \<Rightarrow> 'i rq" where
  "push_release s = sem_release (s\<lparr>rq_pending := rq_pending s - 1\<rparr>)"

text \<open>A push that no other thread interrupts.\<close>

definition push :: "bool \<Rightarrow> 'i \<Rightarrow> 'i rq \<Rightarrow> 'i rq" where
  "push debug fn s = (let s1 = push_enter debug fn s
     in if rq_stopping s \<and> debug then s1 else push_release (push_append fn s1))"

subsection \<open>start, stop, kill\<close>

definition start :: "'i rq \<Rightarrow> 'i rq" where
  "start s = (if \<not> rq_starting s
              then s\<lparr>rq_starting := True, rq_pc := LCreated, rq_thread := True\<rparr> else s)"

definition stop_request :: "'i rq \<Rightarrow> 'i rq" where
  "stop_request s = (if \<not> rq_stopping s then s\<lparr>rq_stopping := True, rq_stop_due := True\<rparr> else s)"

definition stop_signal :: "'i rq \<Rightarrow> 'i rq" where
  "stop_signal s = (if rq_stop_due s then sem_release (s\<lparr>rq_stop_due := False\<rparr>) else s)"

definition stop :: "'i rq \<Rightarrow> 'i rq" where
  "stop s = (if \<not> rq_stopping s then stop_signal (stop_request s) else s)"

text \<open>What the Ruby runtime does to a killed thread is not modelled: the kill is recorded.\<close>

definition kill :: "'i rq \<Rightarrow> 'i rq" where
  "kill s = (let s1 = stop s in if rq_thread s1 then s1\<lparr>rq_killed := True\<rparr> else s1)"

subsection \<open>The loop\<close>

text \<open>One action of the loop's thread; \<open>None\<close> when it is blocked or there is nothing to do.\<close>

definition loop_step :: "bool \<Rightarrow> 'i rq \<Rightarrow> 'i rq option" where
  "loop_step debug s = (case rq_pc s of
      LNone \<Rightarrow> None
    | LCreated \<Rightarrow> if rq_run_lock s then None else Some (s\<lparr>rq_run_lock := True, rq_pc := LLocked\<rparr>)
    | LLocked \<Rightarrow> Some (s\<lparr>rq_latch := True, rq_pc := LLatched\<rparr>)
    | LLatched \<Rightarrow> Some (s\<lparr>rq_running := True, rq_pc := LTop\<rparr>)
    | LTop \<Rightarrow> Some (s\<lparr>rq_pc := (if rq_stopping s then LClear else LWait)\<rparr>)
    | LWait \<Rightarrow> if rq_sem s = 0 then None else Some (s\<lparr>rq_sem := rq_sem s - 1, rq_pc := LGot\<rparr>)
    | LGot \<Rightarrow> Some (s\<lparr>rq_pc := (if rq_stopping s then LClear else LPop)\<rparr>)
    | LPop \<Rightarrow>
        if rq_q s = []
        then Some (s\<lparr>rq_fault := Some (if debug then AssertionFailure else UndefinedBehaviour)\<rparr>)
        else Some (s\<lparr>rq_q := butlast (rq_q s), rq_pc := LRun (last (rq_q s))\<rparr>)
    | LRun item \<Rightarrow> Some (s\<lparr>rq_executed := rq_executed s @ [item], rq_pc := LTop\<rparr>)
    | LClear \<Rightarrow> Some (s\<lparr>rq_running := False, rq_pc := LUnlock\<rparr>)
    | LUnlock \<Rightarrow> Some (s\<lparr>rq_run_lock := False, rq_pc := LDone\<rparr>)
    | LDone \<Rightarrow> None)"

text \<open>The loop's thread alone, for at most a number of its actions.\<close>

fun loop_steps :: "bool \<Rightarrow> nat \<Rightarrow> 'i rq \<Rightarrow> 'i rq" where
  "loop_steps debug 0 s = s"
| "loop_steps debug (Suc n) s =
     (case loop_step debug s of None \<Rightarrow> s | Some s' \<Rightarrow> loop_steps debug n s')"

subsection \<open>Observers\<close>

text \<open>
  \<open>running\<close> clears the flag under the shared lock, which it can only get when the loop does not hold
  the mutex.
\<close>

definition running :: "'i rq \<Rightarrow> bool \<times> 'i rq" where
  "running s = (if \<not> rq_running s then (False, s)
                else if \<not> rq_run_lock s then (False, s\<lparr>rq_running := False\<rparr>)
                else (True, s))"

definition stopped :: "'i rq \<Rightarrow> bool \<times> 'i rq" where
  "stopped s = (if rq_stopping s then (let (r, s') = running s in (\<not> r, s')) else (False, s))"

text \<open>
  The two members that poll. The state the poll of round \<open>k\<close> meets is \<open>env k s\<close>: what the other
  threads made of \<open>s\<close> by then. \<open>None\<close> is not returning.
\<close>

definition ensure_started ::
  "(nat \<Rightarrow> 'i rq \<Rightarrow> 'i rq) \<Rightarrow> int \<Rightarrow> (nat \<Rightarrow> int) \<Rightarrow> 'i rq \<Rightarrow> (unit result \<times> 'i rq) option" where
  "ensure_started env now clock s =
     (case wait_until (\<lambda>k. rq_latch (env k s)) (Some 15000) now clock of
        None \<Rightarrow> None
      | Some (True, k) \<Rightarrow> Some (Inr (), (env k s)\<lparr>rq_latch := False\<rparr>)
      | Some (False, k) \<Rightarrow>
          Some (Inl (RuntimeError ''RuBLE queue failed to start. Aborting.''), kill (env k s)))"

definition stop_on_exit ::
  "(nat \<Rightarrow> 'i rq \<Rightarrow> 'i rq) \<Rightarrow> int \<Rightarrow> (nat \<Rightarrow> int) \<Rightarrow> 'i rq \<Rightarrow> 'i rq option" where
  "stop_on_exit env now clock s =
     (let s1 = stop s; (st, s2) = stopped s1
      in if st then Some s2
         else (case wait_until (\<lambda>k. \<not> fst (running (env k s2))) (Some 1000) now clock of
                 None \<Rightarrow> None
               | Some (True, k) \<Rightarrow> Some (snd (running (env k s2)))
               | Some (False, k) \<Rightarrow> Some (kill (env k s2))))"

subsection \<open>All interleavings\<close>

inductive q_step :: "bool \<Rightarrow> 'i rq \<Rightarrow> 'i rq \<Rightarrow> bool" for debug :: bool where
  enter: "rq_fault s = None \<Longrightarrow> q_step debug s (push_enter debug fn s)"
| append: "rq_fault s = None \<Longrightarrow> fn \<in> set (rq_entering s) \<Longrightarrow> q_step debug s (push_append fn s)"
| release: "rq_fault s = None \<Longrightarrow> 0 < rq_pending s \<Longrightarrow> q_step debug s (push_release s)"
| start: "rq_fault s = None \<Longrightarrow> q_step debug s (start s)"
| request: "rq_fault s = None \<Longrightarrow> q_step debug s (stop_request s)"
| signal: "rq_fault s = None \<Longrightarrow> q_step debug s (stop_signal s)"
| acquire: "rq_fault s = None \<Longrightarrow> q_step debug s (s\<lparr>rq_latch := False\<rparr>)"
| observe: "rq_fault s = None \<Longrightarrow> q_step debug s (snd (running s))"
| loop: "rq_fault s = None \<Longrightarrow> loop_step debug s = Some t \<Longrightarrow> q_step debug s t"

inductive_cases q_stepE: "q_step debug s t"

definition q_init :: "'i rq \<Rightarrow> bool" where
  "q_init s \<longleftrightarrow> s = rq_new"

abbreviation q_reachable :: "bool \<Rightarrow> 'i rq \<Rightarrow> bool" where
  "q_reachable debug \<equiv> reachable q_init (q_step debug)"

subsection \<open>Invariants\<close>

text \<open>The control state: the flags and the lock are functions of where the loop is.\<close>

definition in_loop :: "'i loop_pc \<Rightarrow> bool" where
  "in_loop pc \<longleftrightarrow> pc \<notin> {LNone, LCreated, LLocked, LLatched, LUnlock, LDone}"

definition control_inv :: "'i rq \<Rightarrow> bool" where
  "control_inv s \<longleftrightarrow>
     (rq_run_lock s \<longleftrightarrow> rq_pc s \<notin> {LNone, LCreated, LDone}) \<and>
     (rq_running s \<longleftrightarrow> in_loop (rq_pc s)) \<and>
     (rq_starting s \<longleftrightarrow> rq_pc s \<noteq> LNone) \<and> (rq_thread s \<longleftrightarrow> rq_starting s) \<and>
     (rq_latch s \<longrightarrow> rq_pc s \<notin> {LNone, LCreated, LLocked}) \<and>
     (rq_stop_due s \<longrightarrow> rq_stopping s)"

text \<open>
  The tokens of the semaphore: those in it, those about to be released and the one the loop holds are
  one for each item in the deque, and one for the stop. The loop that leaves may take one with it.
\<close>

definition held :: "'i loop_pc \<Rightarrow> nat" where
  "held pc = (if pc \<in> {LGot, LPop} then 1 else 0)"

definition exiting :: "'i loop_pc \<Rightarrow> bool" where
  "exiting pc \<longleftrightarrow> pc \<in> {LClear, LUnlock, LDone}"

definition stop_token :: "'i rq \<Rightarrow> nat" where
  "stop_token s = (if rq_stopping s \<and> \<not> rq_stop_due s then 1 else 0)"

definition tokens :: "'i rq \<Rightarrow> nat" where
  "tokens s = rq_sem s + rq_pending s + held (rq_pc s)"

definition token_inv :: "'i rq \<Rightarrow> bool" where
  "token_inv s \<longleftrightarrow> (rq_stop_due s \<longrightarrow> rq_stopping s) \<and> (rq_starting s \<longleftrightarrow> rq_pc s \<noteq> LNone) \<and>
     (case rq_fault s of
        Some e \<Rightarrow> e = UndefinedBehaviour \<and> semaphore_max \<le> length (rq_q s)
      | None \<Rightarrow>
          tokens s \<le> length (rq_q s) + stop_token s \<and>
          (\<not> exiting (rq_pc s) \<longrightarrow> tokens s = length (rq_q s) + stop_token s) \<and>
          (rq_pc s = LPop \<longrightarrow> rq_q s \<noteq> []) \<and>
          (rq_pc s = LWait \<and> stop_token s = 1 \<longrightarrow> 0 < rq_sem s))"

text \<open>No item is lost or duplicated.\<close>

definition in_flight :: "'i rq \<Rightarrow> 'i list" where
  "in_flight s = (case rq_pc s of LRun i \<Rightarrow> [i] | _ \<Rightarrow> [])"

definition items_inv :: "'i rq \<Rightarrow> bool" where
  "items_inv s \<longleftrightarrow> (rq_starting s \<longleftrightarrow> rq_pc s \<noteq> LNone) \<and>
     mset (rq_pushed s) = mset (rq_q s) + mset (in_flight s) + mset (rq_executed s)"

lemmas rq_actions = push_enter_def push_append_def push_release_def start_def stop_request_def
  stop_signal_def running_def sem_release_def

lemmas control_defs = control_inv_def in_loop_def rq_new_def

lemmas token_defs = token_inv_def tokens_def stop_token_def held_def exiting_def rq_new_def

lemmas items_defs = items_inv_def in_flight_def rq_new_def

lemma loop_step_control: "control_inv s \<Longrightarrow> loop_step debug s = Some t \<Longrightarrow> control_inv t"
  by (cases "rq_pc s") (auto simp: loop_step_def control_defs split: if_splits)

lemma q_step_control: "q_step debug s t \<Longrightarrow> control_inv s \<Longrightarrow> control_inv t"
proof (induction rule: q_step.induct)
  case (loop s t)
  then show ?case by (blast intro: loop_step_control)
qed (auto simp: rq_actions control_defs)

lemma loop_step_token:
  "rq_fault s = None \<Longrightarrow> token_inv s \<Longrightarrow> loop_step debug s = Some t \<Longrightarrow> token_inv t"
  by (cases "rq_pc s") (auto simp: loop_step_def token_defs split: if_splits)

lemma q_step_token: "q_step debug s t \<Longrightarrow> token_inv s \<Longrightarrow> token_inv t"
proof (induction rule: q_step.induct)
  case (loop s t)
  then show ?case by (blast intro: loop_step_token)
qed (auto simp: rq_actions token_defs split: if_splits)

lemma loop_step_items: "items_inv s \<Longrightarrow> loop_step debug s = Some t \<Longrightarrow> items_inv t"
proof (cases "rq_pc s")
  case LPop
  assume inv: "items_inv s" and step: "loop_step debug s = Some t"
  show ?thesis
  proof (cases "rq_q s = []")
    case False
    then have "mset (rq_q s) = mset (butlast (rq_q s)) + {#last (rq_q s)#}"
      by (metis append_butlast_last_id mset.simps mset_append)
    with LPop False inv step show ?thesis by (auto simp: loop_step_def items_defs)
  qed (use LPop inv step in \<open>auto simp: loop_step_def items_defs\<close>)
qed (auto simp: loop_step_def items_defs split: if_splits)

lemma q_step_items: "q_step debug s t \<Longrightarrow> items_inv s \<Longrightarrow> items_inv t"
proof (induction rule: q_step.induct)
  case (loop s t)
  then show ?case by (blast intro: loop_step_items)
next
  case (start s)
  then show ?case by (cases "rq_pc s") (auto simp: rq_actions items_defs)
qed (auto simp: rq_actions items_defs split: loop_pc.splits)

lemma q_init_invs: "q_init s \<Longrightarrow> control_inv s" "q_init s \<Longrightarrow> token_inv s" "q_init s \<Longrightarrow> items_inv s"
  by (simp_all add: q_init_def control_defs token_defs items_defs)

interpretation ctl: inductive_invariant q_init "q_step debug" control_inv for debug
  by unfold_locales (erule q_init_invs, erule q_step_control)

interpretation tok: inductive_invariant q_init "q_step debug" token_inv for debug
  by unfold_locales (erule q_init_invs, erule q_step_token)

interpretation itm: inductive_invariant q_init "q_step debug" items_inv for debug
  by unfold_locales (erule q_init_invs, erule q_step_items)

subsection \<open>Lemmas\<close>

lemma control_reachable: "q_reachable debug s \<Longrightarrow> control_inv s"
  by (rule ctl.inv_reachable)

lemma reachable_steps: "(q_step debug)\<^sup>*\<^sup>* s t \<Longrightarrow> q_reachable debug s \<Longrightarrow> q_reachable debug t"
  by (induction rule: rtranclp_induct) (auto intro: reach_step)

lemma running_exact: "control_inv s \<Longrightarrow> running s = (in_loop (rq_pc s), s)"
  by (auto simp: running_def control_defs)

text \<open>What the loop may still execute once it is told to stop.\<close>

definition last_item :: "'i loop_pc \<Rightarrow> nat" where
  "last_item pc = (case pc of LPop \<Rightarrow> 1 | LRun i \<Rightarrow> 1 | _ \<Rightarrow> 0)"

lemma step_after_stop:
  assumes "q_step debug s t" and "rq_stopping s" and "control_inv s"
  shows "rq_stopping t \<and> length (rq_executed t) + last_item (rq_pc t) \<le> length (rq_executed s) + last_item (rq_pc s)"
  using assms
proof (induction rule: q_step.induct)
  case (loop s t)
  then show ?case by (cases "rq_pc s") (auto simp: loop_step_def last_item_def split: if_splits)
qed (auto simp: rq_actions last_item_def control_inv_def)

lemma steps_after_stop:
  assumes "(q_step debug)\<^sup>*\<^sup>* s t" and "rq_stopping s" and "q_reachable debug s"
  shows "rq_stopping t \<and> length (rq_executed t) + last_item (rq_pc t) \<le> length (rq_executed s) + last_item (rq_pc s)"
  using assms
proof (induction rule: rtranclp_induct)
  case (step t u)
  then have "q_reachable debug t" by (blast intro: reachable_steps)
  with step step_after_stop [of debug t u] show ?case by (auto dest: control_reachable)
qed simp

text \<open>The latch is released once, before the loop begins.\<close>

definition latch_spent :: "'i rq \<Rightarrow> bool" where
  "latch_spent s \<longleftrightarrow> \<not> rq_latch s \<and> rq_pc s \<notin> {LNone, LCreated, LLocked} \<and> rq_starting s"

lemma latch_spent_step: "q_step debug s t \<Longrightarrow> latch_spent s \<Longrightarrow> latch_spent t"
proof (induction rule: q_step.induct)
  case (loop s t)
  then show ?case
    by (cases "rq_pc s") (auto simp: loop_step_def latch_spent_def split: if_splits)
qed (auto simp: rq_actions latch_spent_def)

lemma latch_spent_steps: "(q_step debug)\<^sup>*\<^sup>* s t \<Longrightarrow> latch_spent s \<Longrightarrow> latch_spent t"
  by (induction rule: rtranclp_induct) (auto intro: latch_spent_step)

lemma stop_stopping: "rq_stopping (stop s)" "rq_thread (stop s) = rq_thread s"
  by (auto simp: stop_def stop_request_def stop_signal_def sem_release_def)

lemma kill_result: "rq_thread s \<Longrightarrow> rq_killed (kill s) \<and> rq_stopping (kill s)"
  by (simp add: kill_def stop_stopping Let_def)

lemma stop_steps:
  assumes "rq_fault s = None"
  shows "(q_step debug)\<^sup>*\<^sup>* s (stop s)"
proof (cases "rq_stopping s")
  case False
  have "q_step debug s (stop_request s)" using assms by (rule q_step.request)
  moreover have "q_step debug (stop_request s) (stop_signal (stop_request s))"
    using assms by (intro q_step.signal) (simp add: stop_request_def)
  ultimately show ?thesis using False by (simp add: stop_def)
qed (simp add: stop_def)

text \<open>One round of the loop takes the newest item.\<close>

lemma loop_round:
  assumes "rq_pc s = LTop" and "\<not> rq_stopping s" and "rq_sem s = Suc n" and "rq_q s = xs @ [x]"
  shows "loop_steps debug (5 + m) s =
    loop_steps debug m (s\<lparr>rq_sem := n, rq_q := xs, rq_executed := rq_executed s @ [x], rq_pc := LTop\<rparr>)"
  using assms by (simp add: numeral_eq_Suc loop_step_def)

lemma loop_drain:
  assumes "rq_pc s = LTop" and "\<not> rq_stopping s" and "rq_sem s = length (rq_q s)"
  shows "loop_steps debug (5 * length (rq_q s)) s =
    s\<lparr>rq_sem := 0, rq_q := [], rq_executed := rq_executed s @ rev (rq_q s)\<rparr>"
  using assms
proof (induction "rq_q s" arbitrary: s rule: rev_induct)
  case Nil
  then show ?case by (cases s) simp
next
  case (snoc x xs)
  let ?s = "s\<lparr>rq_sem := length xs, rq_q := xs, rq_executed := rq_executed s @ [x], rq_pc := LTop\<rparr>"
  have q: "rq_q s = xs @ [x]" using snoc.hyps(2) by simp
  have "loop_steps debug (5 + 5 * length xs) s = loop_steps debug (5 * length xs) ?s"
    using snoc.prems q by (intro loop_round) simp_all
  also have "\<dots> = ?s\<lparr>rq_sem := 0, rq_q := [], rq_executed := rq_executed ?s @ rev xs\<rparr>"
    using snoc.hyps(1) [of ?s] snoc.prems by simp
  finally show ?case using q snoc.prems(1) by (cases s) simp
qed

lemma push_steps:
  assumes "rq_fault s = None" and "\<not> rq_stopping s"
  shows "(q_step debug)\<^sup>*\<^sup>* s (push debug fn s)"
proof -
  let ?e = "push_enter debug fn s"
  have "q_step debug s ?e" using assms(1) by (rule q_step.enter)
  moreover have "q_step debug ?e (push_append fn ?e)"
    using assms by (intro q_step.append) (simp_all add: push_enter_def)
  moreover have "q_step debug (push_append fn ?e) (push_release (push_append fn ?e))"
    using assms by (intro q_step.release) (simp_all add: push_enter_def push_append_def)
  moreover have "push debug fn s = push_release (push_append fn ?e)"
    using assms by (simp add: push_def Let_def)
  ultimately show ?thesis by (metis converse_rtranclp_into_rtranclp rtranclp.rtrancl_refl)
qed

lemma push_backlog:
  "n \<le> semaphore_max \<Longrightarrow> \<exists>s. q_reachable debug s \<and> rq_fault s = None \<and> \<not> rq_stopping s \<and>
     rq_sem s = n \<and> rq_q s = replicate n fn"
proof (induction n)
  case 0
  have "q_reachable debug rq_new" by (rule reach_init) (simp add: q_init_def)
  then show ?case by (intro exI [of _ rq_new]) (simp add: rq_new_def)
next
  case (Suc n)
  then obtain s where s: "q_reachable debug s" "rq_fault s = None" "\<not> rq_stopping s" "rq_sem s = n"
    "rq_q s = replicate n fn" by auto
  then have "q_reachable debug (push debug fn s)" by (blast intro: push_steps reachable_steps)
  moreover have "rq_sem (push debug fn s) = Suc n" "rq_fault (push debug fn s) = None"
      "\<not> rq_stopping (push debug fn s)" "rq_q (push debug fn s) = replicate (Suc n) fn"
    using s Suc.prems
    by (simp_all add: push_def push_enter_def push_append_def push_release_def sem_release_def
        replicate_append_same)
  ultimately show ?case by blast
qed

text \<open>Runs, for the examples.\<close>

lemma rq_new_fields:
  "rq_q rq_new = []" "rq_sem rq_new = 0" "rq_pc rq_new = LNone" "rq_entering rq_new = []"
  "rq_executed rq_new = []" "rq_pushed rq_new = []" "\<not> rq_starting rq_new"
  "\<not> rq_stopping rq_new" "\<not> rq_stop_due rq_new" "rq_fault rq_new = None" "\<not> rq_running rq_new"
  by (simp_all add: rq_new_def)

lemma reachable_new: "q_reachable debug rq_new"
  by (rule reach_init) (simp add: q_init_def)

lemma reachable_start: "q_reachable debug s \<Longrightarrow> rq_fault s = None \<Longrightarrow> q_reachable debug (start s)"
  by (rule reach_step) (auto intro: q_step.start)

lemma reachable_stop: "q_reachable debug s \<Longrightarrow> rq_fault s = None \<Longrightarrow> q_reachable debug (stop s)"
  by (rule reachable_steps [OF stop_steps])

lemma reachable_push:
  "q_reachable debug s \<Longrightarrow> rq_fault s = None \<Longrightarrow> \<not> rq_stopping s \<Longrightarrow> q_reachable debug (push debug fn s)"
  by (rule reachable_steps [OF push_steps])

lemma loop_step_no_fault:
  "token_inv s \<Longrightarrow> rq_fault s = None \<Longrightarrow> loop_step debug s = Some t \<Longrightarrow> rq_fault t = None"
  by (cases "rq_pc s") (auto simp: loop_step_def token_inv_def split: if_splits)

lemma reachable_loop_steps:
  "q_reachable debug s \<Longrightarrow> rq_fault s = None \<Longrightarrow>
     q_reachable debug (loop_steps debug n s) \<and> rq_fault (loop_steps debug n s) = None"
proof (induction n arbitrary: s)
  case (Suc n)
  show ?case
  proof (cases "loop_step debug s")
    case (Some t)
    then have "q_reachable debug t" and "rq_fault t = None"
      using Suc.prems q_step.loop [of s debug t] loop_step_no_fault [OF tok.inv_reachable]
      by (auto intro: reach_step)
    with Suc.IH [of t] Some show ?thesis by simp
  qed (use Suc.prems in simp)
qed simp

text \<open>The states of a queue that was started, and of one that waits for its first item.\<close>

lemma rq_examples:
  "rq_fault rq_new = None" "rq_fault (start rq_new) = None" "\<not> rq_stopping (start rq_new)"
  "\<not> rq_stopping rq_new"
  "loop_steps debug 3 (start rq_new) = rq_new\<lparr>rq_latch := True, rq_running := True, rq_starting := True,
     rq_thread := True, rq_run_lock := True, rq_pc := LTop\<rparr>"
  by (simp_all add: numeral_eq_Suc loop_step_def rq_new_def start_def)

lemma push_example:
  "\<not> rq_stopping s \<Longrightarrow> rq_sem s < semaphore_max \<Longrightarrow>
     push debug fn s = s\<lparr>rq_q := rq_q s @ [fn], rq_entering := remove1 fn (rq_entering s @ [fn]),
       rq_pushed := rq_pushed s @ [fn], rq_sem := rq_sem s + 1\<rparr>"
  by (cases s) (simp add: push_def push_enter_def push_append_def push_release_def sem_release_def)

lemma stop_example:
  "\<not> rq_stopping s \<Longrightarrow> rq_sem s < semaphore_max \<Longrightarrow>
     stop s = s\<lparr>rq_stopping := True, rq_stop_due := False, rq_sem := rq_sem s + 1\<rparr>"
  by (simp add: stop_def stop_request_def stop_signal_def sem_release_def)

subsection \<open>Properties\<close>

text \<open>
  C5. In every interleaving of pushes, stops, observers and the loop, the loop never pops an empty
  deque, so the assertion of the debug build never fails. The only fault there can be is the
  release of a full semaphore, and it takes a backlog of at least 65535 items.
\<close>

theorem ruby_queue_no_fault:
  assumes "q_reachable debug s"
  shows "rq_fault s \<in> {None, Some UndefinedBehaviour} \<and>
    (length (rq_q s) < semaphore_max \<longrightarrow> rq_fault s = None) \<and>
    (rq_fault s = None \<and> rq_pc s = LPop \<longrightarrow> rq_q s \<noteq> [])"
  using tok.inv_reachable [OF assms] by (auto simp: token_inv_def split: option.splits)

theorem ruby_queue_no_fault_witness:
  "rq_fault (rq_new :: nat rq) \<in> {None, Some UndefinedBehaviour}"
  using ruby_queue_no_fault [OF reachable_new [of True]] by blast

text \<open>
  No callback is lost, duplicated or made up: the items appended so far are those in the deque,
  the one being run and those executed, with their multiplicities.
\<close>

theorem ruby_queue_conserves:
  assumes "q_reachable debug s"
  shows "mset (rq_pushed s) = mset (rq_q s) + mset (in_flight s) + mset (rq_executed s)"
  using itm.inv_reachable [OF assms] by (simp add: items_inv_def)

theorem ruby_queue_conserves_witness:
  "mset (rq_pushed (push True (7::nat) rq_new)) = {#7#}"
proof -
  have p: "push True (7::nat) rq_new = rq_new\<lparr>rq_q := [7], rq_pushed := [7], rq_sem := 1\<rparr>"
    by (simp add: push_example rq_new_fields semaphore_max_def)
  have "q_reachable True (push True (7::nat) rq_new)"
    by (rule reachable_push) (simp_all add: reachable_new rq_new_fields)
  from ruby_queue_conserves [OF this] show ?thesis by (simp add: p rq_new_fields in_flight_def)
qed

text \<open>
  C10. After a stop request at most one more callback runs, the one the loop has already taken or has
  decided to take; if the loop is anywhere else, none runs any more, however many are queued.
\<close>

theorem ruby_queue_stop_bounds:
  assumes "q_reachable debug s" and "rq_stopping s" and "(q_step debug)\<^sup>*\<^sup>* s t"
  shows "rq_stopping t \<and> length (rq_executed t) \<le> length (rq_executed s) + last_item (rq_pc s)"
  using steps_after_stop [OF assms(3,2,1)] by simp

theorem ruby_queue_stop_bounds_witness:
  "length (rq_executed (push_enter False (1::nat) (stop rq_new))) \<le> 0"
proof -
  let ?s = "stop rq_new :: nat rq"
  have s: "?s = rq_new\<lparr>rq_stopping := True, rq_stop_due := False, rq_sem := 1\<rparr>"
    by (simp add: stop_example rq_new_fields semaphore_max_def)
  have r: "q_reachable False ?s" by (rule reachable_stop [OF reachable_new rq_examples(1)])
  have "q_step False ?s (push_enter False 1 ?s)" by (rule q_step.enter) (simp add: s rq_new_fields)
  then have "(q_step False)\<^sup>*\<^sup>* ?s (push_enter False 1 ?s)" by blast
  from ruby_queue_stop_bounds [OF r stop_stopping(1) this] show ?thesis
    by (simp add: s rq_new_fields last_item_def)
qed

text \<open>
  C11. A stop that was signalled ends the loop: from every state the loop's thread, once created,
  reaches its end in at most six of its own actions, without ever blocking on the semaphore, and
  the mutex is free and the running flag down then.
\<close>

theorem ruby_queue_stop_terminates:
  assumes "q_reachable debug s" and "rq_fault s = None"
    and "rq_stopping s" and "\<not> rq_stop_due s" and "rq_starting s"
  shows "rq_pc (loop_steps debug 6 s) = LDone \<and> \<not> rq_run_lock (loop_steps debug 6 s) \<and>
    \<not> rq_running (loop_steps debug 6 s)"
  using control_reachable [OF assms(1)] tok.inv_reachable [OF assms(1)] assms(2-)
  by (cases "rq_pc s") (simp_all add: numeral_eq_Suc loop_step_def control_defs token_inv_def stop_token_def)

theorem ruby_queue_stop_terminates_witness:
  "rq_pc (loop_steps True 6 (stop (start (rq_new :: nat rq)))) = LDone"
proof -
  have s: "stop (start rq_new :: nat rq) = (start rq_new)\<lparr>rq_stopping := True, rq_stop_due := False, rq_sem := 1\<rparr>"
    by (subst stop_example) (simp_all add: start_def rq_new_def semaphore_max_def)
  have "q_reachable True (stop (start rq_new) :: nat rq)"
    by (intro reachable_stop reachable_start reachable_new rq_examples)
  moreover have "rq_fault (stop (start rq_new :: nat rq)) = None" "rq_stopping (stop (start rq_new :: nat rq))"
      "\<not> rq_stop_due (stop (start rq_new :: nat rq))" "rq_starting (stop (start rq_new :: nat rq))"
    unfolding s by (simp_all add: start_def rq_new_fields)
  ultimately show ?thesis using ruby_queue_stop_terminates [of True "stop (start rq_new :: nat rq)"] by blast
qed

text \<open>
  A loop left alone with a backlog runs every item once and empties the deque, the newest
  first: the deque is used as a stack, where the class comment promises FIFO.
\<close>

theorem ruby_queue_drain:
  assumes "rq_pc s = LTop" and "\<not> rq_stopping s" and "rq_sem s = length (rq_q s)"
  shows "rq_q (loop_steps debug (5 * length (rq_q s)) s) = [] \<and>
    rq_executed (loop_steps debug (5 * length (rq_q s)) s) = rq_executed s @ rev (rq_q s)"
  by (simp add: loop_drain [OF assms])

theorem ruby_queue_drain_witness:
  "rq_executed (loop_steps True 10 (push True (6::nat) (push True 5 (loop_steps True 3 (start rq_new)))))
     = [6, 5]"
proof -
  let ?s = "push True (6::nat) (push True 5 (loop_steps True 3 (start rq_new)))"
  have s: "rq_pc ?s = LTop" "\<not> rq_stopping ?s" "rq_sem ?s = length (rq_q ?s)" "rq_q ?s = [5, 6]"
      "rq_executed ?s = []"
    by (simp_all add: rq_examples push_example rq_new_fields semaphore_max_def)
  from ruby_queue_drain [OF s(1,2,3), of True] show ?thesis by (simp add: s(4,5))
qed

text \<open>
  \<open>running\<close> is accurate and changes nothing: it answers true exactly while the loop is between
  raising and clearing its flag; \<open>stopped\<close> is a stop request with no running loop.
\<close>

theorem ruby_queue_running_exact:
  assumes "q_reachable debug s"
  shows "running s = (in_loop (rq_pc s), s) \<and>
    stopped s = (rq_stopping s \<and> \<not> in_loop (rq_pc s), s)"
  using running_exact [OF control_reachable [OF assms]] by (simp add: stopped_def)

theorem ruby_queue_running_exact_witness:
  "fst (running (rq_new :: nat rq)) = False"
proof -
  have "q_reachable True (rq_new :: nat rq)" by (rule reachable_new)
  from ruby_queue_running_exact [OF this] show ?thesis by (simp add: rq_new_fields in_loop_def)
qed

text \<open>
  The bound on the semaphore is real: while the loop does not run, 65535 pushes succeed and the
  next one releases a full semaphore, which is undefined.
\<close>

theorem ruby_queue_overflow:
  "\<exists>s. q_reachable debug s \<and> rq_fault s = None \<and> rq_q s = replicate 65535 fn \<and>
     rq_fault (push debug fn s) = Some UndefinedBehaviour"
proof -
  obtain s where s: "q_reachable debug s" "rq_fault s = None" "\<not> rq_stopping s"
      "rq_sem s = semaphore_max" "rq_q s = replicate semaphore_max fn"
    using push_backlog [of semaphore_max debug fn] by blast
  then have "rq_fault (push debug fn s) = Some UndefinedBehaviour"
    by (simp add: push_def push_enter_def push_append_def push_release_def sem_release_def)
  with s show ?thesis unfolding semaphore_max_def by blast
qed

lemma ensure_started_returns:
  assumes "now \<le> clock 0" and "\<And>k. clock k + sleep_ms \<le> clock (Suc k)"
  shows "\<exists>k \<le> 61. (\<forall>j < k. \<not> rq_latch (env j s)) \<and>
    ensure_started env now clock s =
      Some (if rq_latch (env k s) then (Inr (), (env k s)\<lparr>rq_latch := False\<rparr>)
            else (Inl (RuntimeError ''RuBLE queue failed to start. Aborting.''), kill (env k s)))"
proof -
  from wait_until_returns [of 15000 now clock "\<lambda>k. rq_latch (env k s)"] assms
  obtain k where k: "wait_until (\<lambda>k. rq_latch (env k s)) (Some 15000) now clock = Some (rq_latch (env k s), k)"
      "k \<le> 61" "\<forall>j < k. \<not> rq_latch (env j s)"
    by (auto simp: sleep_ms_def)
  show ?thesis by (rule exI [of _ k]) (use k in \<open>simp add: ensure_started_def\<close>)
qed

text \<open>
  On a clock that advances with the sleeps, \<open>ensure_started\<close> always returns after at most 61 sleeps.
  It succeeds exactly when the poll of its last round finds the latch released, and takes the latch
  then; otherwise it kills the queue and throws.
\<close>

theorem ensure_started_outcome:
  assumes "now \<le> clock 0" and "\<And>k. clock k + sleep_ms \<le> clock (Suc k)"
  shows "\<exists>k \<le> 61. (\<forall>j < k. \<not> rq_latch (env j s)) \<and>
    ensure_started env now clock s =
      Some (if rq_latch (env k s) then (Inr (), (env k s)\<lparr>rq_latch := False\<rparr>)
            else (Inl (RuntimeError ''RuBLE queue failed to start. Aborting.''), kill (env k s)))"
  using assms by (rule ensure_started_returns)

theorem ensure_started_outcome_witness:
  "\<exists>k \<le> 61. ensure_started (loop_steps True) 0 (\<lambda>k. 250 * int k) (start rq_new :: nat rq)
     = Some (if rq_latch (loop_steps True k (start rq_new :: nat rq))
             then (Inr (), (loop_steps True k (start rq_new))\<lparr>rq_latch := False\<rparr>)
             else (Inl (RuntimeError ''RuBLE queue failed to start. Aborting.''),
                   kill (loop_steps True k (start rq_new))))"
proof -
  have "(0::int) \<le> 250 * int 0" and "\<And>k. 250 * int k + sleep_ms \<le> 250 * int (Suc k)"
    by (simp_all add: sleep_ms_def)
  from ensure_started_outcome [OF this, where s = "start rq_new :: nat rq" and env = "loop_steps True"]
  show ?thesis by blast
qed

text \<open>
  The latch is released once. Calling \<open>ensure_started\<close> again, on a queue that was started and whose
  start was confirmed, waits for the whole timeout, kills the queue and throws, whatever the other
  threads do meanwhile.
\<close>

theorem ensure_started_again_kills:
  assumes "latch_spent s" and "q_reachable debug s" and "\<And>k. (q_step debug)\<^sup>*\<^sup>* s (env k s)"
    and "now \<le> clock 0" and "\<And>k. clock k + sleep_ms \<le> clock (Suc k)"
  shows "\<exists>t. ensure_started env now clock s
      = Some (Inl (RuntimeError ''RuBLE queue failed to start. Aborting.''), t)
    \<and> rq_killed t \<and> rq_stopping t"
proof -
  have spent: "latch_spent (env k s)" for k using assms(3,1) by (rule latch_spent_steps)
  have thread: "rq_thread (env k s)" for k
    using spent [of k] control_reachable [OF reachable_steps [OF assms(3) [of k] assms(2)]]
    by (simp add: control_inv_def latch_spent_def)
  obtain k where "wait_until (\<lambda>k. rq_latch (env k s)) (Some 15000) now clock = Some (rq_latch (env k s), k)"
    using wait_until_returns [of 15000 now clock "\<lambda>k. rq_latch (env k s)"] assms(4,5) by auto
  moreover have "\<not> rq_latch (env k s)" using spent [of k] by (simp add: latch_spent_def)
  ultimately have "wait_until (\<lambda>k. rq_latch (env k s)) (Some 15000) now clock = Some (False, k)" by simp
  then show ?thesis using kill_result [OF thread [of k]] by (simp add: ensure_started_def)
qed

theorem ensure_started_again_kills_witness:
  "\<exists>t. ensure_started (\<lambda>_ s. s) 0 (\<lambda>k. 250 * int k) ((loop_steps True 3 (start rq_new))\<lparr>rq_latch := False\<rparr> :: nat rq)
      = Some (Inl (RuntimeError ''RuBLE queue failed to start. Aborting.''), t) \<and> rq_killed t \<and> rq_stopping t"
proof -
  let ?s = "(loop_steps True 3 (start rq_new))\<lparr>rq_latch := False\<rparr> :: nat rq"
  have "q_reachable True (loop_steps True 3 (start rq_new) :: nat rq)"
    and "rq_fault (loop_steps True 3 (start rq_new) :: nat rq) = None"
    using reachable_loop_steps [OF reachable_start [OF reachable_new rq_examples(1)] rq_examples(2)] by blast+
  then have r: "q_reachable True ?s" by (blast intro: reach_step q_step.acquire)
  have spent: "latch_spent ?s" by (simp add: rq_examples latch_spent_def)
  have "(0::int) \<le> 250 * int 0" and "\<And>k. 250 * int k + sleep_ms \<le> 250 * int (Suc k)"
    by (simp_all add: sleep_ms_def)
  from ensure_started_again_kills [of ?s True "\<lambda>_ s. s" 0 "\<lambda>k. 250 * int k", OF spent r rtranclp.rtrancl_refl this]
  show ?thesis .
qed

text \<open>
  C27. \<open>stop_on_exit\<close> returns after at most five sleeps. If the loop is not running once the stop is
  signalled, it returns at once; otherwise it returns as soon as a poll finds the loop gone, and only
  when the deadline passed with the loop still running does it kill the thread.
\<close>

theorem stop_on_exit_outcome:
  assumes "q_reachable debug s" and "rq_fault s = None"
    and "\<And>k. (q_step debug)\<^sup>*\<^sup>* (stop s) (env k (stop s))"
    and "now \<le> clock 0" and "\<And>k. clock k + sleep_ms \<le> clock (Suc k)"
  shows "(\<not> in_loop (rq_pc (stop s)) \<longrightarrow> stop_on_exit env now clock s = Some (stop s)) \<and>
    (in_loop (rq_pc (stop s)) \<longrightarrow> (\<exists>j \<le> 5.
       (\<forall>i < j. in_loop (rq_pc (env i (stop s)))) \<and>
       (in_loop (rq_pc (env j (stop s))) \<longrightarrow> now + 1000 < clock j) \<and>
       stop_on_exit env now clock s = Some (if in_loop (rq_pc (env j (stop s)))
         then kill (env j (stop s)) else env j (stop s))))"
proof -
  have r: "q_reachable debug (stop s)" using assms(1,2) by (rule reachable_stop)
  have obs: "running t = (in_loop (rq_pc t), t)" if "q_reachable debug t" for t
    using that by (intro running_exact control_reachable)
  have st: "stopped (stop s) = (\<not> in_loop (rq_pc (stop s)), stop s)"
    using obs [OF r] by (simp add: stopped_def stop_stopping)
  have env: "running (env k (stop s)) = (in_loop (rq_pc (env k (stop s))), env k (stop s))" for k
    by (rule obs) (rule reachable_steps [OF assms(3) r])
  obtain j where j: "wait_until (\<lambda>k. \<not> in_loop (rq_pc (env k (stop s)))) (Some 1000) now clock
        = Some (\<not> in_loop (rq_pc (env j (stop s))), j)" "j \<le> 5"
      "\<not> in_loop (rq_pc (env j (stop s))) \<or> now + 1000 < clock j"
      "\<forall>i < j. in_loop (rq_pc (env i (stop s)))"
    using wait_until_returns [of 1000 now clock "\<lambda>k. \<not> in_loop (rq_pc (env k (stop s)))"] assms(4,5)
    by (auto simp: sleep_ms_def)
  have "stop_on_exit env now clock s = Some (if in_loop (rq_pc (env j (stop s)))
         then kill (env j (stop s)) else env j (stop s))" if "in_loop (rq_pc (stop s))"
    using that by (simp add: stop_on_exit_def st env j(1))
  moreover have "stop_on_exit env now clock s = Some (stop s)" if "\<not> in_loop (rq_pc (stop s))"
    using that by (simp add: stop_on_exit_def st)
  ultimately show ?thesis using j(2-4) by blast
qed

theorem stop_on_exit_outcome_witness:
  "stop_on_exit (\<lambda>_ s. s) 0 (\<lambda>k. 250 * int k) (rq_new :: nat rq) = Some (stop rq_new)"
proof -
  have "(0::int) \<le> 250 * int 0" and "\<And>k. 250 * int k + sleep_ms \<le> 250 * int (Suc k)"
    by (simp_all add: sleep_ms_def)
  from stop_on_exit_outcome [of True "rq_new :: nat rq" "\<lambda>_ s. s" 0 "\<lambda>k. 250 * int k",
      OF reachable_new rq_examples(1) rtranclp.rtrancl_refl this]
  show ?thesis by (simp add: stop_example rq_new_fields semaphore_max_def in_loop_def)
qed

end
