(* ===== verification/Hashing.thy ===== *)
theory Hashing imports RuBLE_Prelude begin

unbundle bit_operations_syntax

text \<open>
  \<open>utils/hash.cpp\<close>: the \<open>std::hash\<close> specialisations of the wrapped and the wrapping classes. Each is the
  hash code of the class combined with the hash of an address or a UUID, or with the hash of the
  wrapped object. \<open>std::hash<std::string>\<close> and the hash codes of the types are parameters.
\<close>

record type_codes =
  tc_ble_adapter :: u64
  tc_adapter :: u64
  tc_ble_peripheral :: u64
  tc_peripheral :: u64
  tc_ble_service :: u64
  tc_service :: u64
  tc_ble_characteristic :: u64
  tc_characteristic :: u64
  tc_descriptor :: u64

definition hash_combine :: "u64 \<Rightarrow> u64 \<Rightarrow> u64" where
  "hash_combine h1 h = h1 XOR push_bit 1 h"

definition hash_ble_adapter :: "type_codes \<Rightarrow> (string \<Rightarrow> u64) \<Rightarrow> string \<Rightarrow> u64" where
  "hash_ble_adapter tc hasher addr = hash_combine (tc_ble_adapter tc) (hasher addr)"

definition hash_adapter :: "type_codes \<Rightarrow> (string \<Rightarrow> u64) \<Rightarrow> string \<Rightarrow> u64" where
  "hash_adapter tc hasher addr = hash_combine (tc_adapter tc) (hash_ble_adapter tc hasher addr)"

definition hash_ble_characteristic :: "type_codes \<Rightarrow> (string \<Rightarrow> u64) \<Rightarrow> string \<Rightarrow> u64" where
  "hash_ble_characteristic tc hasher uuid = hash_combine (tc_ble_characteristic tc) (hasher uuid)"

definition hash_characteristic :: "type_codes \<Rightarrow> (string \<Rightarrow> u64) \<Rightarrow> string \<Rightarrow> u64" where
  "hash_characteristic tc hasher uuid =
     hash_combine (tc_characteristic tc) (hash_ble_characteristic tc hasher uuid)"

definition hash_descriptor :: "type_codes \<Rightarrow> (string \<Rightarrow> u64) \<Rightarrow> string \<Rightarrow> u64" where
  "hash_descriptor tc hasher uuid = hash_combine (tc_descriptor tc) (hasher uuid)"

definition hash_ble_service :: "type_codes \<Rightarrow> (string \<Rightarrow> u64) \<Rightarrow> string \<Rightarrow> u64" where
  "hash_ble_service tc hasher uuid = hash_combine (tc_ble_service tc) (hasher uuid)"

definition hash_service :: "type_codes \<Rightarrow> (string \<Rightarrow> u64) \<Rightarrow> string \<Rightarrow> u64" where
  "hash_service tc hasher uuid = hash_combine (tc_service tc) (hash_ble_service tc hasher uuid)"

definition hash_ble_peripheral :: "type_codes \<Rightarrow> (string \<Rightarrow> u64) \<Rightarrow> string \<Rightarrow> u64" where
  "hash_ble_peripheral tc hasher addr = hash_combine (tc_ble_peripheral tc) (hasher addr)"

definition hash_peripheral :: "type_codes \<Rightarrow> (string \<Rightarrow> u64) \<Rightarrow> string \<Rightarrow> u64" where
  "hash_peripheral tc hasher addr =
     hash_combine (tc_peripheral tc) (hash_ble_peripheral tc hasher addr)"

subsection \<open>Lemmas\<close>

lemma push_bit_eq_iff:
  assumes "n < 64"
  shows "push_bit n a = push_bit n (b :: u64) \<longleftrightarrow> take_bit (64 - n) a = take_bit (64 - n) b"
proof -
  have "(\<forall>i < 64. n \<le> i \<longrightarrow> bit a (i - n) = bit b (i - n)) \<longleftrightarrow> (\<forall>i < 64 - n. bit a i = bit b i)"
  proof (rule iffI; intro allI impI)
    fix i assume *: "\<forall>i < 64. n \<le> i \<longrightarrow> bit a (i - n) = bit b (i - n)" and "i < 64 - n"
    then show "bit a i = bit b i" using * [rule_format, of "i + n"] by simp
  next
    fix i assume "\<forall>i < 64 - n. bit a i = bit b i" and "i < 64" and "n \<le> i"
    then show "bit a (i - n) = bit b (i - n)" using assms by simp
  qed
  moreover have "push_bit n a = push_bit n b \<longleftrightarrow> (\<forall>i < 64. n \<le> i \<longrightarrow> bit a (i - n) = bit b (i - n))"
    by (auto simp: bit_eq_iff bit_push_bit_iff)
  moreover have "take_bit (64 - n) a = take_bit (64 - n) b \<longleftrightarrow> (\<forall>i < 64 - n. bit a i = bit b i)"
    by (simp add: bit_eq_iff bit_take_bit_iff) (meson diff_le_self order_less_le_trans)
  ultimately show ?thesis by blast
qed

lemma xor_cancel: "a XOR b = a XOR (c :: u64) \<longleftrightarrow> b = c"
proof
  assume "a XOR b = a XOR c"
  then have "a XOR (a XOR b) = a XOR (a XOR c)" by (rule arg_cong)
  then show "b = c" by (simp only: bit.xor_left_self)
qed simp

lemma hash_combine_eq_iff: "hash_combine h a = hash_combine h b \<longleftrightarrow> push_bit 1 a = push_bit 1 b"
  unfolding hash_combine_def by (rule xor_cancel)

lemma push_hash_combine: "push_bit 1 (hash_combine g x) = push_bit 1 g XOR push_bit 2 x"
  unfolding hash_combine_def push_bit_xor push_bit_push_bit by (simp only: one_add_one)

lemma hash_combine1_eq_iff: "hash_combine h a = hash_combine h b \<longleftrightarrow> take_bit 63 a = take_bit 63 b"
  unfolding hash_combine_eq_iff using push_bit_eq_iff [of 1 a b] by simp

lemma hash_combine2_eq_iff:
  "hash_combine h (hash_combine g a) = hash_combine h (hash_combine g b)
     \<longleftrightarrow> take_bit 62 a = take_bit 62 b"
  unfolding hash_combine_eq_iff push_hash_combine xor_cancel using push_bit_eq_iff [of 2 a b] by simp

subsection \<open>Properties\<close>

text \<open>
  The hash of a wrapper distinguishes two objects exactly when the low 62 bits of the hashes of
  their addresses or UUIDs differ, because each of the two layers shifts one bit out; a descriptor
  has one layer and keeps 63 bits. Nothing else of the object, its owner in particular, enters.
\<close>

theorem wrapper_hashes_eq_iff:
  "(hash_adapter tc hs x = hash_adapter tc hs y \<longleftrightarrow> take_bit 62 (hs x) = take_bit 62 (hs y)) \<and>
   (hash_peripheral tc hs x = hash_peripheral tc hs y \<longleftrightarrow> take_bit 62 (hs x) = take_bit 62 (hs y)) \<and>
   (hash_service tc hs x = hash_service tc hs y \<longleftrightarrow> take_bit 62 (hs x) = take_bit 62 (hs y)) \<and>
   (hash_characteristic tc hs x = hash_characteristic tc hs y \<longleftrightarrow> take_bit 62 (hs x) = take_bit 62 (hs y)) \<and>
   (hash_descriptor tc hs x = hash_descriptor tc hs y \<longleftrightarrow> take_bit 63 (hs x) = take_bit 63 (hs y))"
  unfolding hash_adapter_def hash_peripheral_def hash_service_def hash_characteristic_def
    hash_descriptor_def hash_ble_adapter_def hash_ble_peripheral_def hash_ble_service_def
    hash_ble_characteristic_def hash_combine2_eq_iff
  by (simp only: hash_combine1_eq_iff simp_thms)

end
