(* ===== verification/Value_Tracker.thy ===== *)
theory Value_Tracker imports Byte_Array begin

text \<open>
  \<open>concerns/CharacteristicValueTracker.hpp\<close> and \<open>.cpp\<close>: the last value of a characteristic and whether it
  is tracked. \<open>can_notify\<close>, which the class leaves to the characteristic, is an argument; it does not
  change during the life of a characteristic.
\<close>

record tracker =
  track_values :: "bool option"
  tr_value :: "byte_array option"

definition tracker_new :: "bool option \<Rightarrow> tracker" where
  "tracker_new enabled = \<lparr>track_values = enabled, tr_value = None\<rparr>"

definition value_tracking :: "bool \<Rightarrow> tracker \<Rightarrow> bool" where
  "value_tracking can_notify t =
     (case track_values t of None \<Rightarrow> can_notify | Some b \<Rightarrow> b)"

definition last_value :: "tracker \<Rightarrow> byte_array option" where
  "last_value t = tr_value t"

definition set_value_tracking :: "bool \<Rightarrow> bool \<Rightarrow> (tracker, unit) act" where
  "set_value_tracking can_notify new_value =
     (if new_value \<and> \<not> can_notify
      then throwA (RuntimeError ''Characteristic does not have 'notify' capability.'')
      else seqA (if \<not> new_value then modifyA (\<lambda>t. t\<lparr>tr_value := None\<rparr>) else retA ())
             (modifyA (\<lambda>t. t\<lparr>track_values := Some new_value\<rparr>)))"

definition record_new_value :: "bool \<Rightarrow> byte_array \<Rightarrow> tracker \<Rightarrow> bool \<times> tracker" where
  "record_new_value can_notify new_data t =
     (if \<not> value_tracking can_notify t then (True, t)
      else let t' = t\<lparr>tr_value := Some new_data\<rparr>
           in (case tr_value t of
                 None \<Rightarrow> (0 < ba_length new_data, t')
               | Some old_value \<Rightarrow> (ba_neq old_value new_data, t')))"

definition tracker_mark :: "(byte_array \<Rightarrow> 'v list) \<Rightarrow> tracker \<Rightarrow> 'v list" where
  "tracker_mark mark_value t = (case tr_value t of None \<Rightarrow> [] | Some v \<Rightarrow> mark_value v)"

subsection \<open>Runs\<close>

text \<open>The data of a sequence of notifications that were reported as changes, and the state after it.\<close>

fun record_all :: "bool \<Rightarrow> byte_array list \<Rightarrow> tracker \<Rightarrow> byte_array list \<times> tracker" where
  "record_all can_notify [] t = ([], t)"
| "record_all can_notify (d # ds) t =
     (let (changed, t1) = record_new_value can_notify d t;
          (rest, t2) = record_all can_notify ds t1
      in ((if changed then [d] else []) @ rest, t2))"

datatype tracker_op = OpTrack bool | OpRecord byte_array

fun tracker_step :: "bool \<Rightarrow> tracker_op \<Rightarrow> tracker \<Rightarrow> tracker" where
  "tracker_step can_notify (OpTrack b) t = snd (set_value_tracking can_notify b t)"
| "tracker_step can_notify (OpRecord d) t = snd (record_new_value can_notify d t)"

fun tracker_run :: "bool \<Rightarrow> tracker_op list \<Rightarrow> tracker \<Rightarrow> tracker" where
  "tracker_run can_notify [] t = t"
| "tracker_run can_notify (x # xs) t = tracker_run can_notify xs (tracker_step can_notify x t)"

definition tracker_inv :: "bool \<Rightarrow> tracker \<Rightarrow> bool" where
  "tracker_inv can_notify t \<longleftrightarrow>
     (value_tracking can_notify t \<longrightarrow> can_notify) \<and>
     (\<not> value_tracking can_notify t \<longrightarrow> tr_value t = None)"

subsection \<open>Lemmas\<close>

lemma ba_neq_iff: "ba_neq a b \<longleftrightarrow> a \<noteq> b"
  by (cases a; cases b) (simp add: ba_neq_def ba_eq_def ba_cmp_def bytes_cmp_equal)

lemma ba_length_pos: "0 < ba_length d \<longleftrightarrow> d \<noteq> ByteArray []"
  by (cases d) (simp add: ba_length_def)

definition last_or_empty :: "tracker \<Rightarrow> byte_array" where
  "last_or_empty t = (case tr_value t of None \<Rightarrow> ByteArray [] | Some v \<Rightarrow> v)"

lemma record_new_value_tracked:
  "value_tracking cn t \<Longrightarrow> record_new_value cn d t = (d \<noteq> last_or_empty t, t\<lparr>tr_value := Some d\<rparr>)"
  by (auto simp: record_new_value_def last_or_empty_def ba_neq_iff ba_length_pos split: option.splits)

lemma record_new_value_untracked:
  "\<not> value_tracking cn t \<Longrightarrow> record_new_value cn d t = (True, t)"
  by (simp add: record_new_value_def)

lemma value_tracking_update [simp]: "value_tracking cn (t\<lparr>tr_value := v\<rparr>) = value_tracking cn t"
  by (simp add: value_tracking_def)

text \<open>A list without its consecutive repetitions, the first element counting as repeated.\<close>

fun changes :: "'a \<Rightarrow> 'a list \<Rightarrow> 'a list" where
  "changes v [] = []"
| "changes v (d # ds) = (if d = v then [] else [d]) @ changes d ds"

lemma changes_remdups_adj: "v # changes v ds = remdups_adj (v # ds)"
  by (induction ds arbitrary: v) auto

lemma record_all_tracked:
  "value_tracking cn t \<Longrightarrow> record_all cn ds t =
     (changes (last_or_empty t) ds, if ds = [] then t else t\<lparr>tr_value := Some (last ds)\<rparr>)"
proof (induction ds arbitrary: t)
  case (Cons d ds)
  then show ?case by (simp add: record_new_value_tracked last_or_empty_def)
qed simp

lemma record_all_untracked: "\<not> value_tracking cn t \<Longrightarrow> record_all cn ds t = (ds, t)"
  by (induction ds) (simp_all add: record_new_value_untracked)

lemma tracker_inv_step: "tracker_inv cn t \<Longrightarrow> tracker_inv cn (tracker_step cn x t)"
proof (cases x)
  case (OpRecord d)
  assume "tracker_inv cn t"
  with OpRecord show ?thesis
    by (cases "value_tracking cn t")
      (simp_all add: record_new_value_tracked record_new_value_untracked tracker_inv_def)
qed (auto simp: tracker_inv_def set_value_tracking_def value_tracking_def seqA_def bindA_def act_simps)

lemma tracker_inv_run: "tracker_inv cn t \<Longrightarrow> tracker_inv cn (tracker_run cn xs t)"
  by (induction xs arbitrary: t) (simp_all add: tracker_inv_step)

subsection \<open>Properties\<close>

text \<open>
  With tracking on, the notifications reported as changes are exactly those that differ from the
  one before (the first one from the recorded value, or from the empty array if there is none), and
  the recorded value is the last one received; with tracking off everything is reported and nothing
  recorded.
\<close>

theorem value_tracker_changes:
  "fst (record_all can_notify ds t) =
     (if value_tracking can_notify t
      then tl (remdups_adj ((case tr_value t of None \<Rightarrow> ByteArray [] | Some v \<Rightarrow> v) # ds)) else ds) \<and>
   last_value (snd (record_all can_notify ds t)) =
     (if value_tracking can_notify t \<and> ds \<noteq> [] then Some (last ds) else last_value t)"
  using changes_remdups_adj [of "last_or_empty t" ds, symmetric]
  by (simp add: record_all_tracked record_all_untracked last_value_def last_or_empty_def)

text \<open>
  Whatever sequence of recordings and of attempts to switch tracking follows the construction,
  tracking is only ever on for a characteristic that can notify, and without tracking there is no
  recorded value.
\<close>

theorem value_tracker_invariant:
  "let t = tracker_run can_notify xs (tracker_new None)
   in (can_notify \<or> \<not> value_tracking can_notify t) \<and>
      (value_tracking can_notify t \<or> last_value t = None)"
  using tracker_inv_run [of can_notify "tracker_new None" xs]
  by (auto simp: Let_def tracker_inv_def tracker_new_def value_tracking_def last_value_def)

theorem value_tracker_invariant_witness:
  "last_value (tracker_run True [OpRecord (ByteArray [1]), OpTrack False] (tracker_new None)) = None"
  using value_tracker_invariant [of True "[OpRecord (ByteArray [1]), OpTrack False]"]
  by (simp add: value_tracking_def set_value_tracking_def seqA_def bindA_def act_simps Let_def)

end
