(* ===== verification/Registry.thy ===== *)
theory Registry imports Std_Map begin

text \<open>
  \<open>management/Registry.hpp\<close> and \<open>RegistryFactory.hpp\<close>: a registry maps the address or UUID of a
  SimpleBLE object to the one proxy object that wraps it, and creates the proxy on first use; a
  factory keeps one registry for each hash of an owner and hands it to every owner with that hash.
  Both are templates, so their operations here take the class-specific parts from a record:
  where the factory of the class is in the program's state, the key of a SimpleBLE value, and the
  constructor of the proxy. A registry, like a proxy, is known by its number. Each \<open>fetch\<close> runs
  under the registry's mutex, so it is one action.
\<close>

record registry =
  reg_self :: nat
  reg_owner :: "nat option"
  reg_map :: "(string, nat) std_map"

record factory =
  fac_index :: "(64 word \<times> nat) list"
  fac_regs :: "registry list"

definition factory_new :: factory where
  "factory_new = \<lparr>fac_index = [], fac_regs = []\<rparr>"

record ('w, 'v) proxy_class =
  pc_name :: string
  pc_get :: "'w \<Rightarrow> factory"
  pc_upd :: "(factory \<Rightarrow> factory) \<Rightarrow> 'w \<Rightarrow> 'w"
  pc_key :: "'v \<Rightarrow> ('w, string) act"
  pc_new :: "'v \<Rightarrow> nat option \<Rightarrow> ('w, nat) act"
  pc_gc :: "'w \<Rightarrow> bool"

subsection \<open>Registry\<close>

definition reg_data :: "('w, 'v) proxy_class \<Rightarrow> nat \<Rightarrow> 'w \<Rightarrow> (string, nat) std_map" where
  "reg_data C r w = reg_map (fac_regs (pc_get C w) ! r)"

definition reg_owner_of :: "('w, 'v) proxy_class \<Rightarrow> nat \<Rightarrow> 'w \<Rightarrow> nat option" where
  "reg_owner_of C r w = reg_owner (fac_regs (pc_get C w) ! r)"

definition reg_store :: "nat \<Rightarrow> (string, nat) std_map \<Rightarrow> factory \<Rightarrow> factory" where
  "reg_store r m f = f\<lparr>fac_regs := (fac_regs f)[r := (fac_regs f ! r)\<lparr>reg_map := m\<rparr>]\<rparr>"

definition reg_size :: "('w, 'v) proxy_class \<Rightarrow> nat \<Rightarrow> 'w \<Rightarrow> nat" where
  "reg_size C r w = length (reg_data C r w)"

definition reg_contains :: "('w, 'v) proxy_class \<Rightarrow> nat \<Rightarrow> string \<Rightarrow> 'w \<Rightarrow> bool" where
  "reg_contains C r key w = map_contains (reg_data C r w) key"

definition reg_at :: "('w, 'v) proxy_class \<Rightarrow> nat \<Rightarrow> string \<Rightarrow> ('w, nat) act" where
  "reg_at C r addr w = (map_at (reg_data C r w) addr, w)"

definition reg_clear :: "('w, 'v) proxy_class \<Rightarrow> nat \<Rightarrow> ('w, unit) act" where
  "reg_clear C r = modifyA (pc_upd C (reg_store r []))"

definition gc_message :: "string \<Rightarrow> string \<Rightarrow> string" where
  "gc_message name key = ''Warning: attempt to create new '' @ name @ '' at key '' @ key @
     '' during garbage collection.''"

definition fetch :: "('w, 'v) proxy_class \<Rightarrow> nat \<Rightarrow> 'v \<Rightarrow> ('w, nat) act" where
  "fetch C r value =
     bindA (pc_key C value) (\<lambda>key.
     bindA (getA (\<lambda>w. map_find (reg_data C r w) key)) (\<lambda>found.
     case found of
       Some p \<Rightarrow> retA p
     | None \<Rightarrow> bindA (getA (pc_gc C)) (\<lambda>gc.
         if gc then throwA (RuntimeError (gc_message (pc_name C) key))
         else bindA (getA (reg_owner_of C r)) (\<lambda>owner.
              bindA (pc_new C value owner) (\<lambda>p.
              seqA (modifyA (\<lambda>w. pc_upd C (reg_store r (map_emplace key p (reg_data C r w))) w))
                (reg_at C r key))))))"

definition map_to_objects :: "('w, 'v) proxy_class \<Rightarrow> nat \<Rightarrow> 'v list \<Rightarrow> ('w, nat list) act" where
  "map_to_objects C r unwrapped = mapA (fetch C r) unwrapped"

text \<open>The loops of \<open>Peripheral::services\<close> and \<open>Service::characteristics\<close>, which drop the results.\<close>

definition fetch_all :: "('w, 'v) proxy_class \<Rightarrow> nat \<Rightarrow> 'v list \<Rightarrow> ('w, unit) act" where
  "fetch_all C r values = for_eachA (fetch C r) values"

definition reg_for_each :: "('w, 'v) proxy_class \<Rightarrow> nat \<Rightarrow> (nat \<Rightarrow> ('w, 'a) act) \<Rightarrow> ('w, unit) act" where
  "reg_for_each C r fn = bindA (getA (reg_data C r)) (\<lambda>m. for_eachA (\<lambda>(key, value). fn value) m)"

subsection \<open>Factory\<close>

text \<open>\<open>registry(owner)\<close>; the new registry is wrapped in the Ruby object \<open>self\<close>.\<close>

definition factory_registry ::
  "('w, 'v) proxy_class \<Rightarrow> 64 word \<Rightarrow> nat option \<Rightarrow> ('w, nat) act \<Rightarrow> ('w, nat) act" where
  "factory_registry C index owner new_self =
     bindA (getA (\<lambda>w. map_of (fac_index (pc_get C w)) index)) (\<lambda>found.
     case found of
       Some r \<Rightarrow> retA r
     | None \<Rightarrow> bindA new_self (\<lambda>self.
         bindA (getA (\<lambda>w. length (fac_regs (pc_get C w)))) (\<lambda>r.
         seqA (modifyA (pc_upd C (\<lambda>f. f\<lparr>fac_index := (index, r) # fac_index f,
                 fac_regs := fac_regs f @ [\<lparr>reg_self = self, reg_owner = owner, reg_map = []\<rparr>]\<rparr>)))
           (retA r))))"

subsection \<open>The contract\<close>

text \<open>
  What a registry needs of its class: \<open>inv\<close> is an invariant of the program's state that says, among
  other things, that every registered proxy is good for its key and the owner of the registry, and
  that registering a good proxy keeps; \<open>key_from_value\<close> and the constructor keep it, do not touch the
  registries of their own class, and the constructor builds a proxy that is good.
\<close>

locale proxy_registry =
  fixes C :: "('w, 'v) proxy_class"
    and inv :: "'w \<Rightarrow> bool"
    and good :: "'w \<Rightarrow> nat \<Rightarrow> string \<Rightarrow> nat option \<Rightarrow> bool"
  assumes get_upd: "pc_get C (pc_upd C f w) = f (pc_get C w)"
    and gc_upd: "pc_gc C (pc_upd C f w) = pc_gc C w"
    and good_upd: "good (pc_upd C f w) i key owner = good w i key owner"
    and map_ok_data: "inv w \<Longrightarrow> r < length (fac_regs (pc_get C w)) \<Longrightarrow> map_ok (reg_data C r w)"
    and registered_good: "inv w \<Longrightarrow> r < length (fac_regs (pc_get C w)) \<Longrightarrow>
      map_find (reg_data C r w) key = Some i \<Longrightarrow> good w i key (reg_owner_of C r w)"
    and register_inv: "inv w \<Longrightarrow> r < length (fac_regs (pc_get C w)) \<Longrightarrow> good w i key (reg_owner_of C r w) \<Longrightarrow>
      inv (pc_upd C (reg_store r (map_emplace key i (reg_data C r w))) w)"
    and key_keeps: "inv w \<Longrightarrow> pc_key C v w = (kres, w') \<Longrightarrow> inv w' \<and> pc_get C w' = pc_get C w \<and> pc_gc C w' = pc_gc C w"
    and new_keeps: "inv w \<Longrightarrow> r < length (fac_regs (pc_get C w)) \<Longrightarrow> pc_new C v (reg_owner_of C r w) w = (res, w') \<Longrightarrow>
      inv w' \<and> pc_get C w' = pc_get C w \<and> pc_gc C w' = pc_gc C w"
    and new_good: "inv w \<Longrightarrow> r < length (fac_regs (pc_get C w)) \<Longrightarrow> pc_key C v u = (Inr key, w) \<Longrightarrow>
      pc_new C v (reg_owner_of C r w) w = (Inr i, w') \<Longrightarrow> good w' i key (reg_owner_of C r w)"
begin

abbreviation valid :: "nat \<Rightarrow> 'w \<Rightarrow> bool" where
  "valid r w \<equiv> r < length (fac_regs (pc_get C w))"

lemma data_cong: "pc_get C w' = pc_get C w \<Longrightarrow> reg_data C r w' = reg_data C r w"
  by (simp add: reg_data_def)

lemma owner_cong: "pc_get C w' = pc_get C w \<Longrightarrow> reg_owner_of C r w' = reg_owner_of C r w"
  by (simp add: reg_owner_of_def)

lemma data_store: "valid r w \<Longrightarrow>
  reg_data C q (pc_upd C (reg_store r m) w) = (if q = r then m else reg_data C q w)"
  by (simp add: reg_data_def get_upd reg_store_def nth_list_update)

lemma length_store: "length (fac_regs (pc_get C (pc_upd C (reg_store r m) w))) = length (fac_regs (pc_get C w))"
  by (simp add: get_upd reg_store_def)

lemma owner_store: "valid r w \<Longrightarrow> reg_owner_of C q (pc_upd C (reg_store r m) w) = reg_owner_of C q w"
  by (simp add: reg_owner_of_def get_upd reg_store_def nth_list_update)

text \<open>
  The three ways a \<open>fetch\<close> can go after its key was computed: the proxy is there, it is created and
  registered, or nothing happens but an exception.
\<close>

lemma fetch_cases:
  assumes "inv w" and "valid r w" and "fetch C r v w = (res, w')"
  obtains (key_error) e where "pc_key C v w = (Inl e, w')" and "res = Inl e"
  | (found) key p where "pc_key C v w = (Inr key, w')" and "res = Inr p"
      and "map_find (reg_data C r w) key = Some p"
  | (gc) key where "pc_key C v w = (Inr key, w')" and "pc_gc C w"
      and "res = Inl (RuntimeError (gc_message (pc_name C) key))" and "map_find (reg_data C r w) key = None"
  | (new_error) key u e where "pc_key C v w = (Inr key, u)" and "pc_new C v (reg_owner_of C r u) u = (Inl e, w')"
      and "res = Inl e" and "\<not> pc_gc C w" and "map_find (reg_data C r w) key = None"
  | (created) key u p x where "pc_key C v w = (Inr key, u)" and "pc_new C v (reg_owner_of C r u) u = (Inr p, x)"
      and "res = Inr p" and "\<not> pc_gc C w" and "map_find (reg_data C r w) key = None"
      and "w' = pc_upd C (reg_store r (map_emplace key p (reg_data C r x))) x"
proof -
  obtain kr u where key: "pc_key C v w = (kr, u)" by fastforce
  note ku = key_keeps [OF assms(1) key]
  show thesis
  proof (cases kr)
    case (Inl e)
    then have "fetch C r v w = (Inl e, u)" using key by (simp add: fetch_def bindA_def)
    then show thesis using assms(3) key Inl by (intro key_error [of e]) simp_all
  next
    case (Inr k)
    have data: "reg_data C r u = reg_data C r w" using ku by (intro data_cong) blast
    show thesis
    proof (cases "map_find (reg_data C r w) k")
      case (Some p)
      then have "fetch C r v w = (Inr p, u)"
        using key Inr data by (simp add: fetch_def bindA_def act_simps)
      then show thesis using assms(3) key Inr Some by (intro found [of k p]) simp_all
    next
      case None
      show thesis
      proof (cases "pc_gc C w")
        case True
        then have "fetch C r v w = (Inl (RuntimeError (gc_message (pc_name C) k)), u)"
          using key Inr data None ku by (simp add: fetch_def bindA_def act_simps)
        then show thesis using assms(3) key Inr None True by (intro gc [of k]) simp_all
      next
        case False
        obtain nr x where new: "pc_new C v (reg_owner_of C r u) u = (nr, x)" by fastforce
        have vu: "valid r u" using ku assms(2) by simp
        have nx: "inv x \<and> pc_get C x = pc_get C u \<and> pc_gc C x = pc_gc C u"
          using new_keeps [of u r v nr x] ku vu new by blast
        show thesis
        proof (cases nr)
          case (Inl e)
          then have "fetch C r v w = (Inl e, x)"
            using key \<open>kr = Inr k\<close> data None ku False new by (simp add: fetch_def bindA_def act_simps)
          then show thesis
            using assms(3) key \<open>kr = Inr k\<close> new Inl False None by (intro new_error [of k u e]) simp_all
        next
          case (Inr p)
          let ?m = "map_emplace k p (reg_data C r x)"
          have vx: "valid r x" using nx vu by simp
          have mx: "map_ok (reg_data C r x)" using nx vx map_ok_data by blast
          have "reg_data C r x = reg_data C r u" using nx by (intro data_cong) blast
          then have nf: "map_find (reg_data C r x) k = None" using data None by simp
          have "reg_at C r k (pc_upd C (reg_store r ?m) x) = (Inr p, pc_upd C (reg_store r ?m) x)"
            using vx mx nf by (simp add: reg_at_def data_store map_find_emplace)
          then have "fetch C r v w = (Inr p, pc_upd C (reg_store r ?m) x)"
            using key \<open>kr = Inr k\<close> data None ku False new Inr
            by (simp add: fetch_def bindA_def act_simps seqA_def)
          then show thesis using assms(3) key \<open>kr = Inr k\<close> new Inr False None
            by (intro created [of k u p x]) simp_all
        qed
      qed
    qed
  qed
qed

text \<open>What every fetch keeps: the invariant, the number of registries, and what was registered.\<close>

definition grows :: "'w \<Rightarrow> 'w \<Rightarrow> bool" where
  "grows w w' \<longleftrightarrow> length (fac_regs (pc_get C w')) = length (fac_regs (pc_get C w)) \<and>
     (\<forall>q. reg_owner_of C q w' = reg_owner_of C q w) \<and>
     (\<forall>q k i. valid q w \<longrightarrow> map_find (reg_data C q w) k = Some i \<longrightarrow> map_find (reg_data C q w') k = Some i)"

lemma grows_refl: "grows w w"
  by (simp add: grows_def)

lemma grows_trans: "grows u v \<Longrightarrow> grows v w \<Longrightarrow> grows u w"
  by (auto simp: grows_def)

lemma grows_same: "pc_get C w' = pc_get C w \<Longrightarrow> grows w w'"
  by (simp add: grows_def reg_data_def reg_owner_of_def)

lemma fetch_keeps:
  assumes "inv w" and "valid r w" and "fetch C r v w = (res, w')"
  shows "inv w' \<and> grows w w' \<and> pc_gc C w' = pc_gc C w"
  using assms
proof (cases rule: fetch_cases)
  case (key_error e)
  then show ?thesis using key_keeps [OF assms(1)] grows_same by blast
next
  case (found key p)
  then show ?thesis using key_keeps [OF assms(1)] grows_same by blast
next
  case (gc key)
  then show ?thesis using key_keeps [OF assms(1)] grows_same by blast
next
  case (new_error key u e)
  have u: "inv u" "pc_get C u = pc_get C w" "pc_gc C u = pc_gc C w"
    using key_keeps [OF assms(1) new_error(1)] by simp_all
  then have "inv w' \<and> pc_get C w' = pc_get C u \<and> pc_gc C w' = pc_gc C u"
    using new_keeps [of u r v "Inl e" w'] new_error(2) assms(2) by simp
  with u show ?thesis using grows_same by simp
next
  case (created key u p x)
  have u: "inv u" "pc_get C u = pc_get C w" "pc_gc C u = pc_gc C w"
    using key_keeps [OF assms(1) created(1)] by simp_all
  then have x: "inv x" "pc_get C x = pc_get C w" "pc_gc C x = pc_gc C w"
    using new_keeps [of u r v "Inr p" x] created(2) assms(2) by simp_all
  have "good x p key (reg_owner_of C r u)"
    using new_good [of u r v w key p x] u(1,2) created(1,2) assms(2) by simp
  moreover have "reg_owner_of C r u = reg_owner_of C r x"
    using u(2) x(2) by (intro owner_cong) simp
  ultimately have "inv w'" using register_inv x(1,2) assms(2) created(6) by simp
  moreover have "grows w w'"
  proof -
    have d: "reg_data C q x = reg_data C q w" and o: "reg_owner_of C q x = reg_owner_of C q w" for q
      using x(2) by (simp_all add: reg_data_def reg_owner_of_def)
    have "map_ok (reg_data C r w)" using assms(1,2) by (rule map_ok_data)
    then show ?thesis
      using x(2) assms(2) created(6)
      by (simp add: grows_def length_store data_store owner_store d o map_find_emplace)
  qed
  ultimately show ?thesis using created(6) x(3) by (simp add: gc_upd)
qed

lemma fetch_good:
  assumes "inv w" and "valid r w" and "fetch C r v w = (Inr p, w')"
  shows "\<exists>key u. pc_key C v w = (Inr key, u) \<and> map_find (reg_data C r w') key = Some p \<and>
    good w' p key (reg_owner_of C r w)"
  using assms
proof (cases rule: fetch_cases)
  case (found key q)
  then have k: "inv w'" "pc_get C w' = pc_get C w" using key_keeps [OF assms(1) found(1)] by simp_all
  then have "map_find (reg_data C r w') key = Some p" using found by (simp add: reg_data_def)
  moreover have "valid r w'" using k assms(2) by simp
  ultimately have "good w' p key (reg_owner_of C r w')" using k registered_good by blast
  then show ?thesis using found k \<open>map_find (reg_data C r w') key = Some p\<close> by (simp add: owner_cong [OF k(2)])
next
  case (created key u q x)
  have u: "inv u" "pc_get C u = pc_get C w"
    using key_keeps [OF assms(1) created(1)] by simp_all
  then have x: "inv x" "pc_get C x = pc_get C w"
    using new_keeps [of u r v "Inr q" x] created(2) assms(2) by simp_all
  have g: "good x q key (reg_owner_of C r w)"
    using new_good [of u r v w key q x] u created(1,2) assms(2) owner_cong [OF u(2)] by simp
  have "map_ok (reg_data C r x)" using x assms(2) by (intro map_ok_data) simp_all
  moreover have "map_find (reg_data C r x) key = None" using created(5) x(2) by (simp add: reg_data_def)
  ultimately have "map_find (reg_data C r w') key = Some q"
    using created(6) x(2) assms(2) by (simp add: data_store map_find_emplace)
  with g show ?thesis using created by (simp add: good_upd)
qed simp_all

text \<open>Fetching the same key again gives the same proxy and creates nothing.\<close>

lemma fetch_found:
  assumes "pc_key C v w = (Inr key, u)" and "pc_get C u = pc_get C w"
    and "map_find (reg_data C r w) key = Some p"
  shows "fetch C r v w = (Inr p, u)"
  using assms by (simp add: fetch_def bindA_def act_simps reg_data_def)

lemma fetch_gc:
  assumes "inv w" and "valid r w" and "pc_gc C w"
    and "pc_key C v w = (Inr key, u)" and "map_find (reg_data C r w) key = None"
  shows "fetch C r v w = (Inl (RuntimeError (gc_message (pc_name C) key)), u)"
  using assms(3,5) key_keeps [OF assms(1,4)]
  by (simp add: fetch_def bindA_def act_simps assms(4) reg_data_def)

lemma fetch_all_keeps:
  assumes "inv w" and "valid r w" and "fetch_all C r vs w = (res, w')"
  shows "inv w' \<and> grows w w' \<and> pc_gc C w' = pc_gc C w"
  using assms
proof (induction vs arbitrary: w)
  case Nil
  then show ?case by (simp add: fetch_all_def act_simps grows_refl)
next
  case (Cons v vs)
  obtain fr u where f: "fetch C r v w = (fr, u)" by fastforce
  note k = fetch_keeps [OF Cons.prems(1,2) f]
  have vu: "valid r u" using k Cons.prems(2) by (simp add: grows_def)
  show ?case
  proof (cases fr)
    case (Inl e)
    then show ?thesis using Cons.prems(3) f k by (simp add: fetch_all_def seqA_def bindA_def)
  next
    case (Inr p)
    then have "fetch_all C r vs u = (res, w')"
      using Cons.prems(3) f by (simp add: fetch_all_def seqA_def bindA_def)
    from Cons.IH [OF _ vu this] k show ?thesis by (auto intro: grows_trans)
  qed
qed

lemma fetch_all_present:
  assumes "inv w" and "valid r w" and "fetch_all C r vs w = (Inr (), w')" and "v \<in> set vs"
  shows "\<exists>x key y p. pc_key C v x = (Inr key, y) \<and> map_find (reg_data C r w') key = Some p"
  using assms
proof (induction vs arbitrary: w)
  case (Cons a vs)
  from Cons.prems(3) obtain p u where f: "fetch C r a w = (Inr p, u)"
      and rest: "fetch_all C r vs u = (Inr (), w')"
    by (auto simp: fetch_all_def seqA_def elim!: bindA_InrE)
  note k = fetch_keeps [OF Cons.prems(1,2) f]
  have vu: "valid r u" using k Cons.prems(2) by (simp add: grows_def)
  show ?case
  proof (cases "v = a")
    case True
    obtain key y where "pc_key C v w = (Inr key, y)" "map_find (reg_data C r u) key = Some p"
      using fetch_good [OF Cons.prems(1,2) f] True by blast
    moreover have "map_find (reg_data C r w') key = Some p"
      using fetch_all_keeps [OF _ vu rest] k vu calculation(2) by (auto simp: grows_def)
    ultimately show ?thesis by blast
  next
    case False
    then show ?thesis using Cons.IH [OF _ vu rest] k Cons.prems(4) by auto
  qed
qed simp

lemma map_to_objects_keeps:
  assumes "inv w" and "valid r w" and "map_to_objects C r vs w = (res, w')"
  shows "inv w' \<and> grows w w' \<and> pc_gc C w' = pc_gc C w \<and> (\<forall>ps. res = Inr ps \<longrightarrow> length ps = length vs)"
  using assms
proof (induction vs arbitrary: w res w')
  case Nil
  then show ?case by (auto simp: map_to_objects_def act_simps grows_refl)
next
  case (Cons v vs)
  obtain fr u where f: "fetch C r v w = (fr, u)" by fastforce
  note k = fetch_keeps [OF Cons.prems(1,2) f]
  have vu: "valid r u" using k Cons.prems(2) by (simp add: grows_def)
  show ?case
  proof (cases fr)
    case (Inl e)
    then show ?thesis using Cons.prems(3) f k by (auto simp: map_to_objects_def bindA_def)
  next
    case (Inr p)
    obtain mr x where m: "map_to_objects C r vs u = (mr, x)" by fastforce
    note kx = Cons.IH [OF conjunct1 [OF k] vu m]
    have "w' = x \<and> (case mr of Inl e \<Rightarrow> res = Inl e | Inr ps \<Rightarrow> res = Inr (p # ps))"
      using Cons.prems(3) f Inr m
      by (auto simp: map_to_objects_def bindA_def act_simps split: sum.splits)
    then show ?thesis using k kx by (auto intro: grows_trans split: sum.splits)
  qed
qed

end

end
