(* ===== verification/Registry_Spec.thy ===== *)
theory Registry_Spec imports Registry begin

text \<open>
  What a registry promises, without its factory, its classes and its mutex: a partial map from keys to
  proxies with one operation, which looks a key up and otherwise registers a fresh proxy, refuses
  during a garbage collection, or fails with the constructor. Every \<open>fetch\<close> refines it.
\<close>

definition registry_view :: "('w, 'v) proxy_class \<Rightarrow> nat \<Rightarrow> 'w \<Rightarrow> string \<Rightarrow> nat option" where
  "registry_view C r w = map_find (reg_data C r w)"

inductive get_or_create ::
  "bool \<Rightarrow> (nat \<Rightarrow> bool) \<Rightarrow> string \<Rightarrow> (string \<Rightarrow> nat option) \<Rightarrow> nat result \<Rightarrow> (string \<Rightarrow> nat option) \<Rightarrow> bool"
  for gc :: bool and fresh :: "nat \<Rightarrow> bool" and key :: string and f :: "string \<Rightarrow> nat option" where
  known: "f key = Some p \<Longrightarrow> get_or_create gc fresh key f (Inr p) f"
| created: "f key = None \<Longrightarrow> \<not> gc \<Longrightarrow> fresh p \<Longrightarrow> get_or_create gc fresh key f (Inr p) (f(key \<mapsto> p))"
| collecting: "f key = None \<Longrightarrow> gc \<Longrightarrow> get_or_create gc fresh key f (Inl (RuntimeError msg)) f"
| failed: "f key = None \<Longrightarrow> \<not> gc \<Longrightarrow> get_or_create gc fresh key f (Inl e) f"

inductive_simps get_or_create_known: "get_or_create gc fresh key f (Inr p) g"

lemma get_or_create_grows: "get_or_create gc fresh key f r g \<Longrightarrow> f k = Some i \<Longrightarrow> g k = Some i"
  by (induction rule: get_or_create.induct) auto

lemma get_or_create_during_gc: "get_or_create True fresh key f r g \<Longrightarrow> g = f"
  by (erule get_or_create.cases) simp_all

lemma get_or_create_dom:
  "get_or_create gc fresh key f r g \<Longrightarrow> dom f \<subseteq> dom g \<and> dom g \<subseteq> insert key (dom f)"
  by (induction rule: get_or_create.induct) auto

text \<open>
  One \<open>fetch\<close> read as a step of the lookup: if the value's key cannot be computed the exception goes
  through and nothing is registered; otherwise the registry makes one abstract step, all other
  registries of the class stay as they are, and the proxy answered is \<open>good\<close> for the key and the
  owner of the registry.
\<close>

definition lookup_step :: "('w, 'v) proxy_class \<Rightarrow> ('w \<Rightarrow> nat \<Rightarrow> string \<Rightarrow> nat option \<Rightarrow> bool) \<Rightarrow>
    (nat \<Rightarrow> bool) \<Rightarrow> nat \<Rightarrow> 'v \<Rightarrow> 'w \<Rightarrow> bool" where
  "lookup_step C good fresh r v w \<longleftrightarrow> (case fetch C r v w of (res, w') \<Rightarrow>
     case pc_key C v w of
       (Inl e, u) \<Rightarrow> res = Inl e \<and> (\<forall>q. registry_view C q w' = registry_view C q w)
     | (Inr key, u) \<Rightarrow>
         get_or_create (pc_gc C w) fresh key (registry_view C r w) res (registry_view C r w') \<and>
         (\<forall>q. q \<noteq> r \<longrightarrow> registry_view C q w' = registry_view C q w) \<and>
         (\<forall>p. res = Inr p \<longrightarrow> good w' p key (reg_owner_of C r w)))"

context proxy_registry begin

lemma view_cong: "pc_get C w' = pc_get C w \<Longrightarrow> registry_view C r w' = registry_view C r w"
  by (simp add: registry_view_def reg_data_def)

lemma fetch_refines:
  assumes "inv w" and "valid r w" and "fetch C r v w = (res, w')" and "pc_key C v w = (Inr key, u)"
    and fresh: "\<And>p x. pc_new C v (reg_owner_of C r u) u = (Inr p, x) \<Longrightarrow> fresh p"
  shows "get_or_create (pc_gc C w) fresh key (registry_view C r w) res (registry_view C r w') \<and>
    (\<forall>q. q \<noteq> r \<longrightarrow> registry_view C q w' = registry_view C q w)"
proof -
  note ku = key_keeps [OF assms(1,4)]
  have same: "registry_view C q u = registry_view C q w" for q using ku by (intro view_cong) blast
  from assms(1-3) show ?thesis
  proof (cases rule: fetch_cases)
    case (key_error e)
    then show ?thesis using assms(4) by simp
  next
    case (found k p)
    then show ?thesis using assms(4) same by (auto simp: registry_view_def intro: get_or_create.known)
  next
    case (gc k)
    then show ?thesis using assms(4) same by (auto simp: registry_view_def intro: get_or_create.collecting)
  next
    case (new_error k y e)
    then have "pc_get C w' = pc_get C u" using assms(2,4) ku new_keeps [of u r v "Inl e" w'] by simp
    then have "registry_view C q w' = registry_view C q w" for q using same view_cong by metis
    then show ?thesis using new_error assms(4) by (auto simp: registry_view_def intro: get_or_create.failed)
  next
    case (created k y p x)
    have yu: "y = u" "k = key" using created(1) assms(4) by simp_all
    have x: "inv x \<and> pc_get C x = pc_get C w"
      using new_keeps [of u r v "Inr p" x] created(2) assms(2) ku yu by simp
    have d: "reg_data C q x = reg_data C q w" for q using x by (simp add: reg_data_def)
    have m: "map_ok (reg_data C r w)" using assms(1,2) by (rule map_ok_data)
    have "registry_view C r w' = (registry_view C r w)(key \<mapsto> p)"
      using created(5,6) x assms(2) m yu
      by (auto simp: registry_view_def fun_eq_iff data_store map_find_emplace d)
    moreover have "registry_view C q w' = registry_view C q w" if "q \<noteq> r" for q
      using created(6) x assms(2) that by (simp add: registry_view_def data_store d)
    ultimately show ?thesis using created(2-5) yu fresh by (auto simp: registry_view_def intro: get_or_create.created)
  qed
qed

lemma fetch_lookup_step:
  assumes "inv w" and "valid r w"
    and new: "\<And>key u p x. pc_key C v w = (Inr key, u) \<Longrightarrow> pc_new C v (reg_owner_of C r w) u = (Inr p, x) \<Longrightarrow> fresh p"
  shows "lookup_step C good fresh r v w"
proof -
  obtain res w' where f: "fetch C r v w = (res, w')" by fastforce
  obtain kr u where k: "pc_key C v w = (kr, u)" by fastforce
  note ku = key_keeps [OF assms(1) k]
  have same: "registry_view C q u = registry_view C q w" "reg_owner_of C q u = reg_owner_of C q w" for q
    using ku by (auto intro: view_cong owner_cong)
  show ?thesis
  proof (cases kr)
    case (Inl e)
    then have "res = Inl e" "w' = u" using f k by (simp_all add: fetch_def bindA_def)
    then show ?thesis using f k Inl same by (simp add: lookup_step_def)
  next
    case (Inr key)
    have "get_or_create (pc_gc C w) fresh key (registry_view C r w) res (registry_view C r w') \<and>
        (\<forall>q. q \<noteq> r \<longrightarrow> registry_view C q w' = registry_view C q w)"
      by (rule fetch_refines [OF assms(1,2) f k [unfolded Inr]]) (use new k Inr same in simp)
    moreover have "good w' p key (reg_owner_of C r w)" if "res = Inr p" for p
      using fetch_good [OF assms(1,2) f [unfolded that]] k Inr by auto
    ultimately show ?thesis using f k Inr by (simp add: lookup_step_def)
  qed
qed

lemma fetch_all_dom:
  assumes "inv w" and "valid r w" and "fetch_all C r vs w = (res, w')"
    and "\<And>v w. pc_key C v w = (Inr (key v), w)"
  shows "dom (registry_view C r w') \<subseteq> dom (registry_view C r w) \<union> key ` set vs"
  using assms(1-3)
proof (induction vs arbitrary: w)
  case Nil
  then show ?case by (simp add: fetch_all_def act_simps)
next
  case (Cons v vs)
  obtain fr u where f: "fetch C r v w = (fr, u)" by fastforce
  note k = fetch_keeps [OF Cons.prems(1,2) f]
  have vu: "valid r u" using k Cons.prems(2) by (simp add: grows_def)
  have d: "dom (registry_view C r u) \<subseteq> insert (key v) (dom (registry_view C r w))"
    using fetch_refines [OF Cons.prems(1,2) f assms(4), of "\<lambda>_. True"] get_or_create_dom by blast
  show ?case
  proof (cases fr)
    case (Inl e)
    then have "w' = u" using Cons.prems(3) f by (simp add: fetch_all_def seqA_def bindA_def)
    with d show ?thesis by auto
  next
    case (Inr p)
    then have "fetch_all C r vs u = (res, w')"
      using Cons.prems(3) f by (simp add: fetch_all_def seqA_def bindA_def)
    from Cons.IH [OF conjunct1 [OF k] vu this] d show ?thesis by auto
  qed
qed

end

end
