(* ===== verification/Inspection.thy ===== *)
theory Inspection imports Ruby_Values Ruby_Context Hexadecimal begin

text \<open>
  \<open>utils/inspection.hpp\<close>, \<open>inspection.cpp\<close> and \<open>human_type_names.hpp\<close>: the text that stands for an
  object, and enumerations described by Boost.Describe as the list of their enumerators and names.
  The demangler is a parameter, from the mangled name of a type to its readable one.
\<close>

subsection \<open>Objects\<close>

definition human_type_name :: "(string \<Rightarrow> string) \<Rightarrow> string \<Rightarrow> string" where
  "human_type_name demangle type_name = demangle type_name"

text \<open>Of a C++ object at an address, and of a Ruby object with a \<open>VALUE\<close>.\<close>

definition basic_object_inspect_start :: "string \<Rightarrow> u64 \<Rightarrow> string" where
  "basic_object_inspect_start type_name addr = ''#<'' @ type_name @ '':'' @ to_hex_addr True addr"

definition ruby_object_inspect_start :: "string \<Rightarrow> u64 \<Rightarrow> string" where
  "ruby_object_inspect_start class_name value = ''#<'' @ class_name @ '':'' @ to_hex_string True value"

definition basic_object_inspect :: "string \<Rightarrow> u64 \<Rightarrow> string" where
  "basic_object_inspect type_name addr = basic_object_inspect_start type_name addr @ ''>''"

text \<open>Ruby's \<open>inspect\<close> of an object, and of a new Ruby string, wherever the thread is.\<close>

definition ruby_inspect ::
  "((thread_state, string cell) act \<Rightarrow> (thread_state, string cell) act) \<Rightarrow> ruby_api \<Rightarrow> rb_value \<Rightarrow> (thread_state, string) act" where
  "ruby_inspect call_with_gvl rb obj = ensure_ruby call_with_gvl (liftA (rb_inspect rb obj))"

definition ruby_quote_string ::
  "((thread_state, string cell) act \<Rightarrow> (thread_state, string cell) act) \<Rightarrow> ruby_api \<Rightarrow> bytes \<Rightarrow> (thread_state, string) act" where
  "ruby_quote_string call_with_gvl rb str =
     ensure_ruby call_with_gvl (ruby_inspect call_with_gvl rb (RString str))"

subsection \<open>Enumerations\<close>

type_synonym 'e described = "('e \<times> string) list"

definition enumerator_traits_as_array :: "'e described \<Rightarrow> ('e \<times> string) list" where
  "enumerator_traits_as_array traits = map (\<lambda>(value, name). (value, name)) traits"

definition enum_to_string :: "'e described \<Rightarrow> 'e \<Rightarrow> string \<Rightarrow> string" where
  "enum_to_string traits v fallback = (case map_of traits v of None \<Rightarrow> fallback | Some name \<Rightarrow> name)"

definition enum_val_as_string :: "'e described \<Rightarrow> 'e \<Rightarrow> string" where
  "enum_val_as_string traits v = enum_to_string traits v ''(unrecognized)''"

definition enum_val_inspect :: "string \<Rightarrow> 'e described \<Rightarrow> 'e \<Rightarrow> string" where
  "enum_val_inspect rb_type_name traits v = rb_type_name @ ''::'' @ enum_val_as_string traits v"

text \<open>The constants that \<open>define_described_enum\<close> gives the Ruby class, in order.\<close>

definition define_described_enum :: "'e described \<Rightarrow> (string \<times> 'e) list" where
  "define_described_enum traits = map (\<lambda>(value, name). (name, value)) (enumerator_traits_as_array traits)"

text \<open>SimpleBLE's enumeration of address types, which the code describes.\<close>

datatype address_type = PUBLIC | RANDOM | UNSPECIFIED

definition address_type_traits :: "address_type described" where
  "address_type_traits = [(PUBLIC, ''PUBLIC''), (RANDOM, ''RANDOM''), (UNSPECIFIED, ''UNSPECIFIED'')]"

subsection \<open>Lemmas\<close>

lemma length_to_hex_addr: "length (to_hex_addr p addr) = 18"
  using ref_to_hex_string_digits [where num = addr and prefix = True]
  by (auto simp: to_hex_addr_def ptr_to_hex_addr_def to_hex_string_def)

lemma to_hex_addr_inject: "to_hex_addr p a = to_hex_addr q b \<longleftrightarrow> a = b"
proof
  assume eq: "to_hex_addr p a = to_hex_addr q b"
  obtain d where d: "to_hex_addr p a = ''0x'' @ d" "hex_value d = unat a"
    using ref_to_hex_string_digits [where num = a and prefix = True]
    by (auto simp: to_hex_addr_def ptr_to_hex_addr_def to_hex_string_def)
  obtain e where e: "to_hex_addr q b = ''0x'' @ e" "hex_value e = unat b"
    using ref_to_hex_string_digits [where num = b and prefix = True]
    by (auto simp: to_hex_addr_def ptr_to_hex_addr_def to_hex_string_def)
  have "d = e" using eq d(1) e(1) by simp
  then show "a = b" using d(2) e(2) by (simp add: word_unat_eq_iff)
qed (simp add: to_hex_addr_def)

text \<open>
  In Ruby the quoted text is what Ruby's \<open>inspect\<close> answers; a thread outside Ruby gets no text, because
  the outer \<open>ensure_ruby\<close> reads its result after it deleted it.
\<close>

lemma ruby_quote_string_eq:
  assumes "gvl_call_ok c" and "thread_in_ruby s \<longleftrightarrow> holds_gvl s" and "rb_inspect rb (RString str) = Inr t"
  shows "ruby_quote_string c rb str s = (if thread_in_ruby s then Inr t else Inl UndefinedBehaviour, s)"
proof (cases "thread_in_ruby s")
  case True
  then show ?thesis using assms(3) by (simp add: ruby_quote_string_def ruby_inspect_def ensure_ruby_def act_simps)
next
  case False
  then have "thread_use_count s = 0" and "\<not> holds_gvl s"
    using assms(2) by (simp_all add: thread_in_ruby_def word_gt_0)
  then show ?thesis
    using False assms(1,3)
    by (cases s) (simp add: ruby_quote_string_def ruby_inspect_def ensure_ruby_def gvl_call_ok_def sample_gvl_call_def
        ruby_invoke_def with_guard_def thread_in_ruby_def bindA_def retA_def liftA_def)
qed

lemma map_of_swap:
  "distinct (map snd ps) \<Longrightarrow> (v, n) \<in> set ps \<Longrightarrow> map_of (map (\<lambda>(v, n). (n, v)) ps) n = Some v"
  by (induction ps) (auto simp: image_iff)

subsection \<open>Properties\<close>

text \<open>
  The text of an object identifies it: two objects have the same text only if their types have
  the same name and they are at the same address, because the address has a fixed width.
\<close>

theorem basic_object_inspect_inject:
  "basic_object_inspect t a = basic_object_inspect u b \<longleftrightarrow> t = u \<and> a = b"
proof
  assume "basic_object_inspect t a = basic_object_inspect u b"
  then have "(t @ '':'') @ to_hex_addr True a = (u @ '':'') @ to_hex_addr True b"
    by (simp add: basic_object_inspect_def basic_object_inspect_start_def)
  then have "t @ '':'' = u @ '':'' \<and> to_hex_addr True a = to_hex_addr True b"
    by (subst (asm) append_eq_append_conv) (simp_all add: length_to_hex_addr)
  then show "t = u \<and> a = b" by (simp add: to_hex_addr_inject)
qed simp

text \<open>
  For an enumeration whose enumerators have different values and different names, the constant that
  Ruby gets under the name of a value is this value, and a value without a name reads
  \<open>(unrecognized)\<close>.
\<close>

theorem described_enum_roundtrip:
  assumes "distinct (map fst traits)" and "distinct (map snd traits)"
  shows "(v \<in> fst ` set traits \<longrightarrow>
      map_of (define_described_enum traits) (enum_val_as_string traits v) = Some v) \<and>
    (v \<notin> fst ` set traits \<longrightarrow> enum_val_as_string traits v = ''(unrecognized)'')"
proof (intro conjI impI)
  assume "v \<in> fst ` set traits"
  then obtain n where n: "(v, n) \<in> set traits" by auto
  then have "enum_val_as_string traits v = n"
    using assms(1) by (simp add: enum_val_as_string_def enum_to_string_def)
  then show "map_of (define_described_enum traits) (enum_val_as_string traits v) = Some v"
    using map_of_swap [OF assms(2) n] by (simp add: define_described_enum_def enumerator_traits_as_array_def)
next
  assume "v \<notin> fst ` set traits"
  then have "map_of traits v = None" by (simp add: map_of_eq_None_iff)
  then show "enum_val_as_string traits v = ''(unrecognized)''"
    by (simp add: enum_val_as_string_def enum_to_string_def)
qed

theorem described_enum_roundtrip_witness:
  "map_of (define_described_enum [(5::nat, ''READ''), (6, ''NOTIFY'')])
     (enum_val_as_string [(5::nat, ''READ''), (6, ''NOTIFY'')] 6) = Some 6"
  using described_enum_roundtrip [of "[(5::nat, ''READ''), (6, ''NOTIFY'')]" 6] by simp

end
