(* ===== verification/Gatt_World.thy ===== *)
theory Gatt_World imports Registry_Spec Inspection Callback_Traits Named_Bit_Set Value_Tracker Hashing begin

text \<open>
  The program's state around SimpleBLE: the proxy objects of the four wrapped classes
  (\<open>bindings/Adapter.hpp\<close>, \<open>Peripheral.hpp\<close>, \<open>Service.hpp\<close>, \<open>Characteristic.hpp\<close>, \<open>Descriptor.hpp\<close>), the four
  registry factories and the flags of \<open>bindings/globals.cpp\<close> and \<open>RuBLE.cpp\<close>. SimpleBLE is not part
  of this repository: it is the record \<open>ble\<close> of the member functions the code calls, over a state of
  its own; SimpleBLE's adapters and peripherals are handles into that state, its services and
  characteristics are what their accessors answer. The closures the code gives to SimpleBLE are
  named by what they capture.
\<close>

subsection \<open>SimpleBLE\<close>

type_synonym uuid = string
type_synonym address = string
type_synonym ble_handle = nat

record ble_characteristic =
  bc_uuid :: uuid
  bc_capabilities :: "string list"
  bc_descriptors :: "uuid list"

record ble_service =
  bs_uuid :: uuid
  bs_data :: bytes
  bs_characteristics :: "ble_characteristic list"

datatype ble_callback =
    CbScanStart nat | CbScanStop nat | CbScanUpdated nat | CbScanFound nat
  | CbConnected nat | CbDisconnected nat
  | CbNotify nat | CbIndicate nat

record 'b ble =
  bluetooth_enabled :: "('b, bool) act"
  get_adapters :: "('b, ble_handle list) act"
  ad_initialized :: "ble_handle \<Rightarrow> ('b, bool) act"
  ad_identifier :: "ble_handle \<Rightarrow> ('b, string) act"
  ad_address :: "ble_handle \<Rightarrow> ('b, address) act"
  ad_scan_start :: "ble_handle \<Rightarrow> ('b, unit) act"
  ad_scan_stop :: "ble_handle \<Rightarrow> ('b, unit) act"
  ad_scan_for :: "ble_handle \<Rightarrow> int \<Rightarrow> ('b, unit) act"
  ad_scan_is_active :: "ble_handle \<Rightarrow> ('b, bool) act"
  ad_scan_get_results :: "ble_handle \<Rightarrow> ('b, ble_handle list) act"
  ad_get_paired_peripherals :: "ble_handle \<Rightarrow> ('b, ble_handle list) act"
  ad_set_callback :: "ble_handle \<Rightarrow> ble_callback \<Rightarrow> ('b, unit) act"
  pe_initialized :: "ble_handle \<Rightarrow> ('b, bool) act"
  pe_identifier :: "ble_handle \<Rightarrow> ('b, string) act"
  pe_address :: "ble_handle \<Rightarrow> ('b, address) act"
  pe_address_type :: "ble_handle \<Rightarrow> ('b, address_type) act"
  pe_rssi :: "ble_handle \<Rightarrow> ('b, 16 word) act"
  pe_tx_power :: "ble_handle \<Rightarrow> ('b, 16 word) act"
  pe_mtu :: "ble_handle \<Rightarrow> ('b, 16 word) act"
  pe_is_connected :: "ble_handle \<Rightarrow> ('b, bool) act"
  pe_is_connectable :: "ble_handle \<Rightarrow> ('b, bool) act"
  pe_is_paired :: "ble_handle \<Rightarrow> ('b, bool) act"
  pe_connect :: "ble_handle \<Rightarrow> ('b, unit) act"
  pe_disconnect :: "ble_handle \<Rightarrow> ('b, unit) act"
  pe_unpair :: "ble_handle \<Rightarrow> ('b, unit) act"
  pe_services :: "ble_handle \<Rightarrow> ('b, ble_service list) act"
  pe_manufacturer_data :: "ble_handle \<Rightarrow> ('b, (16 word, bytes) std_map) act"
  pe_read :: "ble_handle \<Rightarrow> uuid \<Rightarrow> uuid \<Rightarrow> ('b, bytes) act"
  pe_read_descriptor :: "ble_handle \<Rightarrow> uuid \<Rightarrow> uuid \<Rightarrow> uuid \<Rightarrow> ('b, bytes) act"
  pe_write_descriptor :: "ble_handle \<Rightarrow> uuid \<Rightarrow> uuid \<Rightarrow> uuid \<Rightarrow> bytes \<Rightarrow> ('b, unit) act"
  pe_write_request :: "ble_handle \<Rightarrow> uuid \<Rightarrow> uuid \<Rightarrow> bytes \<Rightarrow> ('b, unit) act"
  pe_write_command :: "ble_handle \<Rightarrow> uuid \<Rightarrow> uuid \<Rightarrow> bytes \<Rightarrow> ('b, unit) act"
  pe_notify :: "ble_handle \<Rightarrow> uuid \<Rightarrow> uuid \<Rightarrow> ble_callback \<Rightarrow> ('b, unit) act"
  pe_indicate :: "ble_handle \<Rightarrow> uuid \<Rightarrow> uuid \<Rightarrow> ble_callback \<Rightarrow> ('b, unit) act"
  pe_unsubscribe :: "ble_handle \<Rightarrow> uuid \<Rightarrow> uuid \<Rightarrow> ('b, unit) act"
  pe_set_callback :: "ble_handle \<Rightarrow> ble_callback \<Rightarrow> ('b, unit) act"

text \<open>
  What else the code is compiled against: whether it is a debug build, the hash functions, and the
  call of a Ruby proc.
\<close>

record 'b env =
  e_ble :: "'b ble"
  e_debug :: bool
  e_types :: type_codes
  e_hash :: "string \<Rightarrow> u64"
  e_call :: "rb_value \<Rightarrow> rb_value list \<Rightarrow> rb_value result"

subsection \<open>Proxy objects\<close>

record adapter =
  a_self :: rb_value
  a_ble :: "ble_handle option"
  a_addr :: address
  a_on_scan_start :: callback
  a_on_scan_stop :: callback
  a_on_scan_update :: callback
  a_on_scan_find :: callback
  a_registry :: nat

record peripheral =
  p_owner :: nat
  p_ble :: ble_handle
  p_addr :: address
  p_addr_type :: address_type
  p_on_connected :: callback
  p_on_disconnected :: callback
  p_registry :: nat
  p_self :: rb_value

record service =
  s_owner :: nat
  s_ble :: ble_service
  s_registry :: nat
  s_uuid :: uuid
  s_self :: rb_value

record descriptor =
  d_uuid :: uuid
  d_owner :: nat
  d_self :: rb_value

record characteristic =
  c_tracker :: tracker
  c_owner :: nat
  c_ble :: ble_characteristic
  c_uuid :: uuid
  c_on_notify :: "callback option"
  c_on_indicate :: "callback option"
  c_capabilities :: "bitset option"
  c_descriptors :: "(uuid, descriptor) std_map option"
  c_self :: rb_value

subsection \<open>State\<close>

text \<open>
  A callback that was pushed to the Ruby queue, by what its closure captured.
\<close>

datatype item =
    ItScanStart nat | ItScanStop nat | ItScanUpdate nat ble_handle | ItScanFind nat ble_handle
  | ItConnected nat | ItDisconnected nat
  | ItNotify nat byte_array | ItIndicate nat byte_array

record 'b world =
  w_ble :: 'b
  w_during_gc :: bool
  w_next_value :: nat
  w_adapters :: "adapter option list"
  w_peripherals :: "peripheral option list"
  w_services :: "service option list"
  w_characteristics :: "characteristic option list"
  w_adapter_registry :: "nat option"
  w_adapter_regs :: factory
  w_peripheral_regs :: factory
  w_service_regs :: factory
  w_characteristic_regs :: factory
  w_unpair_all_on_exit :: bool
  w_deinit_called :: bool
  w_flag_check_this :: "nat option"
  w_pushed :: "item list"
  w_calls :: "(rb_value \<times> rb_value list) list"
  w_queue_stopped :: bool

text \<open>A member function of SimpleBLE, called from here; \<open>ble_call\<close> changes SimpleBLE's state only.\<close>

definition ble_call :: "('b, 'a) act \<Rightarrow> ('b world, 'a) act" where
  "ble_call m w = (case m (w_ble w) of (r, b) \<Rightarrow> (r, w\<lparr>w_ble := b\<rparr>))"

text \<open>Wrapping a C++ object in a new Ruby object (\<open>Data_Object<T>(*this)\<close>).\<close>

definition new_rb_value :: "('b world, nat) act" where
  "new_rb_value w = (Inr (w_next_value w), w\<lparr>w_next_value := w_next_value w + 1\<rparr>)"

text \<open>A function that is \<open>noexcept\<close>: an exception that leaves it ends the program.\<close>

definition noexceptA :: "('w, 'a) act \<Rightarrow> ('w, 'a) act" where
  "noexceptA m w = (case m w of (Inl e, w') \<Rightarrow> (Inl Terminated, w') | (Inr x, w') \<Rightarrow> (Inr x, w'))"

text \<open>
  The objects of a class are numbered in the order of their construction; \<open>None\<close> is one whose
  construction is not finished or was undone by an exception. Using such a one is undefined.
\<close>

definition live :: "'o option list \<Rightarrow> nat \<Rightarrow> 'o option" where
  "live store i = (if i < length store then store ! i else None)"

definition deref :: "('w \<Rightarrow> 'o option list) \<Rightarrow> nat \<Rightarrow> ('w, 'o) act" where
  "deref store i w = (case live (store w) i of
     None \<Rightarrow> (Inl UndefinedBehaviour, w) | Some x \<Rightarrow> (Inr x, w))"

definition alloc :: "('w \<Rightarrow> 'o option list) \<Rightarrow> (('o option list \<Rightarrow> 'o option list) \<Rightarrow> 'w \<Rightarrow> 'w) \<Rightarrow> ('w, nat) act" where
  "alloc store upd w = (Inr (length (store w)), upd (\<lambda>s. s @ [None]) w)"

text \<open>The body of a constructor: an exception destroys the object.\<close>

definition in_ctor ::
  "(('o option list \<Rightarrow> 'o option list) \<Rightarrow> 'w \<Rightarrow> 'w) \<Rightarrow> nat \<Rightarrow> ('w, unit) act \<Rightarrow> ('w, nat) act" where
  "in_ctor upd i body w = (case body w of
     (Inl e, w') \<Rightarrow> (Inl e, upd (\<lambda>s. s[i := None]) w') | (Inr u, w') \<Rightarrow> (Inr i, w'))"

text \<open>Firing a callback of a proxy; the calls of Ruby procs are recorded.\<close>

definition fire :: "'b env \<Rightarrow> callback \<Rightarrow> rb_value list \<Rightarrow> ('b world, rb_value) act" where
  "fire E cb args =
     (let r = callback_fire (e_debug E) (e_call E) args cb
      in seqA (if r \<noteq> Inl AssertionFailure \<and> rb_test (cb_proc cb)
               then modifyA (\<lambda>w. w\<lparr>w_calls := w_calls w @ [(cb_proc cb, args)]\<rparr>) else retA ())
           (liftA r))"

text \<open>The program before its initialisation, with the SimpleBLE state \<open>b\<close>.\<close>

definition world_blank :: "'b \<Rightarrow> 'b world" where
  "world_blank b = \<lparr>w_ble = b, w_during_gc = False, w_next_value = 0, w_adapters = [],
     w_peripherals = [], w_services = [], w_characteristics = [], w_adapter_registry = None,
     w_adapter_regs = factory_new, w_peripheral_regs = factory_new, w_service_regs = factory_new,
     w_characteristic_regs = factory_new, w_unpair_all_on_exit = True, w_deinit_called = False,
     w_flag_check_this = None, w_pushed = [], w_calls = [], w_queue_stopped = False\<rparr>"

end
