(* ===== verification/Gatt_Objects.thy ===== *)
theory Gatt_Objects imports Gatt_World begin

text \<open>
  The constructors of the proxies (\<open>bindings/*.cpp\<close>), in the order of their member initialisers, and
  the four classes of registries they are kept in. A proxy's registry of children comes from the
  factory of the child class under the hash of the proxy (\<open>hash.cpp\<close>). Below, \<open>world_ok\<close> is the
  invariant of the whole object graph, and each class is shown to fulfil the contract
  \<open>proxy_registry\<close>.
\<close>

subsection \<open>Delegation to SimpleBLE\<close>

text \<open>
  \<open>Peripheral\<close> calls its SimpleBLE peripheral; \<open>Service\<close> calls its peripheral with its own UUID;
  \<open>Characteristic\<close> calls its service with its own UUID, and \<open>Descriptor\<close> its characteristic.
\<close>

definition peripheral_notify :: "'b env \<Rightarrow> nat \<Rightarrow> uuid \<Rightarrow> uuid \<Rightarrow> ble_callback \<Rightarrow> ('b world, unit) act" where
  "peripheral_notify E p service characteristic cb =
     bindA (deref w_peripherals p) (\<lambda>per.
       ble_call (pe_notify (e_ble E) (p_ble per) service characteristic cb))"

definition peripheral_indicate :: "'b env \<Rightarrow> nat \<Rightarrow> uuid \<Rightarrow> uuid \<Rightarrow> ble_callback \<Rightarrow> ('b world, unit) act" where
  "peripheral_indicate E p service characteristic cb =
     bindA (deref w_peripherals p) (\<lambda>per.
       ble_call (pe_indicate (e_ble E) (p_ble per) service characteristic cb))"

definition service_notify :: "'b env \<Rightarrow> nat \<Rightarrow> uuid \<Rightarrow> ble_callback \<Rightarrow> ('b world, unit) act" where
  "service_notify E s characteristic cb =
     bindA (deref w_services s) (\<lambda>svc. peripheral_notify E (s_owner svc) (s_uuid svc) characteristic cb)"

definition service_indicate :: "'b env \<Rightarrow> nat \<Rightarrow> uuid \<Rightarrow> ble_callback \<Rightarrow> ('b world, unit) act" where
  "service_indicate E s characteristic cb =
     bindA (deref w_services s) (\<lambda>svc. peripheral_indicate E (s_owner svc) (s_uuid svc) characteristic cb)"

subsection \<open>Characteristic\<close>

definition CAPABILITY_NAMES :: fields where
  "CAPABILITY_NAMES = [''read'', ''write_request'', ''write_command'', ''notify'', ''indicate'']"

definition set_characteristic :: "nat \<Rightarrow> (characteristic \<Rightarrow> characteristic) \<Rightarrow> 'b world \<Rightarrow> 'b world" where
  "set_characteristic c f = w_characteristics_update (\<lambda>s. s[c := map_option f (s ! c)])"

text \<open>The capabilities are computed on first use and kept.\<close>

definition capabilities :: "nat \<Rightarrow> ('b world, bitset) act" where
  "capabilities c = bindA (deref w_characteristics c) (\<lambda>ch.
     case c_capabilities ch of
       Some bits \<Rightarrow> retA bits
     | None \<Rightarrow> bindA (liftA (nbs_of_list CAPABILITY_NAMES (bc_capabilities (c_ble ch)))) (\<lambda>bits.
         seqA (modifyA (set_characteristic c (\<lambda>ch. ch\<lparr>c_capabilities := Some bits\<rparr>))) (retA bits)))"

definition has_capability :: "nat \<Rightarrow> string \<Rightarrow> ('b world, bool) act" where
  "has_capability c name = bindA (capabilities c) (\<lambda>bits. liftA (nbs_get CAPABILITY_NAMES bits name))"

definition characteristic_body :: "'b env \<Rightarrow> nat \<Rightarrow> nat \<Rightarrow> uuid \<Rightarrow> ('b world, unit) act" where
  "characteristic_body E c owner uuid =
     bindA (has_capability c ''notify'') (\<lambda>notify.
     seqA (if notify then service_notify E owner uuid (CbNotify c) else retA ())
       (bindA (has_capability c ''indicate'') (\<lambda>indicate.
          if indicate then service_indicate E owner uuid (CbIndicate c) else retA ())))"

definition new_characteristic :: "'b env \<Rightarrow> ble_characteristic \<Rightarrow> nat option \<Rightarrow> ('b world, nat) act" where
  "new_characteristic E v owner = (case owner of
     None \<Rightarrow> throwA UndefinedBehaviour
   | Some o' \<Rightarrow>
     bindA (alloc w_characteristics w_characteristics_update) (\<lambda>c.
     bindA new_rb_value (\<lambda>self.
     seqA (modifyA (w_characteristics_update (\<lambda>s. s[c := Some
              \<lparr>c_tracker = tracker_new None, c_owner = o', c_ble = v, c_uuid = bc_uuid v,
               c_on_notify = None, c_on_indicate = None, c_capabilities = None, c_descriptors = None,
               c_self = RObject self\<rparr>])))
       (in_ctor w_characteristics_update c (characteristic_body E c o' (bc_uuid v))))))"

definition characteristic_class :: "'b env \<Rightarrow> ('b world, ble_characteristic) proxy_class" where
  "characteristic_class E = \<lparr>pc_name = ''RuBLE::Characteristic'', pc_get = w_characteristic_regs,
     pc_upd = w_characteristic_regs_update, pc_key = (\<lambda>v. retA (bc_uuid v)),
     pc_new = new_characteristic E, pc_gc = w_during_gc\<rparr>"

subsection \<open>Service\<close>

definition new_service :: "'b env \<Rightarrow> ble_service \<Rightarrow> nat option \<Rightarrow> ('b world, nat) act" where
  "new_service E v owner = (case owner of
     None \<Rightarrow> throwA UndefinedBehaviour
   | Some o' \<Rightarrow>
     bindA (alloc w_services w_services_update) (\<lambda>s.
     bindA (factory_registry (characteristic_class E) (hash_service (e_types E) (e_hash E) (bs_uuid v))
              (Some s) new_rb_value) (\<lambda>reg.
     bindA new_rb_value (\<lambda>self.
     seqA (modifyA (w_services_update (\<lambda>st. st[s := Some
              \<lparr>s_owner = o', s_ble = v, s_registry = reg, s_uuid = bs_uuid v, s_self = RObject self\<rparr>])))
       (retA s)))))"

definition service_class :: "'b env \<Rightarrow> ('b world, ble_service) proxy_class" where
  "service_class E = \<lparr>pc_name = ''RuBLE::Service'', pc_get = w_service_regs,
     pc_upd = w_service_regs_update, pc_key = (\<lambda>v. retA (bs_uuid v)),
     pc_new = new_service E, pc_gc = w_during_gc\<rparr>"

subsection \<open>Peripheral\<close>

definition peripheral_registry_of :: "'b env \<Rightarrow> ble_handle \<Rightarrow> nat \<Rightarrow> ('b world, nat) act" where
  "peripheral_registry_of E h p =
     bindA (noexceptA (ble_call (pe_address (e_ble E) h))) (\<lambda>addr.
       factory_registry (service_class E) (hash_peripheral (e_types E) (e_hash E) addr) (Some p) new_rb_value)"

definition new_peripheral :: "'b env \<Rightarrow> ble_handle \<Rightarrow> nat option \<Rightarrow> ('b world, nat) act" where
  "new_peripheral E h owner = (case owner of
     None \<Rightarrow> throwA UndefinedBehaviour
   | Some o' \<Rightarrow>
     bindA (alloc w_peripherals w_peripherals_update) (\<lambda>p.
     bindA (ble_call (pe_address (e_ble E) h)) (\<lambda>addr.
     bindA (ble_call (pe_address_type (e_ble E) h)) (\<lambda>addr_type.
     bindA (peripheral_registry_of E h p) (\<lambda>reg.
     bindA new_rb_value (\<lambda>self.
     seqA (modifyA (w_peripherals_update (\<lambda>st. st[p := Some
              \<lparr>p_owner = o', p_ble = h, p_addr = addr, p_addr_type = addr_type,
               p_on_connected = callback_new 1, p_on_disconnected = callback_new 1,
               p_registry = reg, p_self = RObject self\<rparr>])))
       (in_ctor w_peripherals_update p
          (seqA (ble_call (pe_set_callback (e_ble E) h (CbConnected p)))
                (ble_call (pe_set_callback (e_ble E) h (CbDisconnected p)))))))))))"

definition peripheral_class :: "'b env \<Rightarrow> ('b world, ble_handle) proxy_class" where
  "peripheral_class E = \<lparr>pc_name = ''RuBLE::Peripheral'', pc_get = w_peripheral_regs,
     pc_upd = w_peripheral_regs_update, pc_key = (\<lambda>h. ble_call (pe_address (e_ble E) h)),
     pc_new = new_peripheral E, pc_gc = w_during_gc\<rparr>"

subsection \<open>Adapter\<close>

definition adapter_registry_of :: "'b env \<Rightarrow> ble_handle \<Rightarrow> nat \<Rightarrow> ('b world, nat) act" where
  "adapter_registry_of E h a =
     bindA (noexceptA (ble_call (ad_address (e_ble E) h))) (\<lambda>addr.
       factory_registry (peripheral_class E) (hash_adapter (e_types E) (e_hash E) addr) (Some a) new_rb_value)"

definition new_adapter :: "'b env \<Rightarrow> ble_handle \<Rightarrow> nat option \<Rightarrow> ('b world, nat) act" where
  "new_adapter E h owner =
     bindA (alloc w_adapters w_adapters_update) (\<lambda>a.
     bindA new_rb_value (\<lambda>self.
     bindA (ble_call (ad_address (e_ble E) h)) (\<lambda>addr.
     bindA (adapter_registry_of E h a) (\<lambda>reg.
     seqA (modifyA (w_adapters_update (\<lambda>st. st[a := Some
              \<lparr>a_self = RObject self, a_ble = Some h, a_addr = addr,
               a_on_scan_start = callback_new 1, a_on_scan_stop = callback_new 1,
               a_on_scan_update = callback_new 2, a_on_scan_find = callback_new 2,
               a_registry = reg\<rparr>])))
       (in_ctor w_adapters_update a
          (seqA (ble_call (ad_set_callback (e_ble E) h (CbScanStart a)))
          (seqA (ble_call (ad_set_callback (e_ble E) h (CbScanStop a)))
          (seqA (ble_call (ad_set_callback (e_ble E) h (CbScanUpdated a)))
                (ble_call (ad_set_callback (e_ble E) h (CbScanFound a)))))))))))"

definition adapter_class :: "'b env \<Rightarrow> ('b world, ble_handle) proxy_class" where
  "adapter_class E = \<lparr>pc_name = ''RuBLE::Adapter'', pc_get = w_adapter_regs,
     pc_upd = w_adapter_regs_update, pc_key = (\<lambda>h. ble_call (ad_address (e_ble E) h)),
     pc_new = new_adapter E, pc_gc = w_during_gc\<rparr>"

text \<open>
  \<open>Init_Registries\<close>: the registry of adapters has no owner; its key is the hash of a null pointer,
  which is 0 in the standard library.
\<close>

definition Init_Registries :: "'b env \<Rightarrow> ('b world, unit) act" where
  "Init_Registries E =
     bindA (getA w_adapter_registry) (\<lambda>reg. if reg \<noteq> None then retA ()
     else bindA (factory_registry (adapter_class E) 0 None new_rb_value) (\<lambda>r.
            modifyA (\<lambda>w. w\<lparr>w_adapter_registry := Some r\<rparr>)))"

subsection \<open>The invariant of the object graph\<close>

text \<open>
  Every index entry of a factory is one of its registries; the registries are maps, and what they
  hold are live proxies that fit the key and the owner.
\<close>

definition reg_ok :: "'o option list \<Rightarrow> ('o \<Rightarrow> string \<Rightarrow> nat option \<Rightarrow> bool) \<Rightarrow> factory \<Rightarrow> bool" where
  "reg_ok store fits f \<longleftrightarrow>
     (\<forall>(k, r) \<in> set (fac_index f). r < length (fac_regs f)) \<and>
     (\<forall>g \<in> set (fac_regs f). map_ok (reg_map g) \<and>
        (\<forall>(k, i) \<in> set (reg_map g). \<exists>x. live store i = Some x \<and> fits x k (reg_owner g)))"

definition owners_ok :: "'o option list \<Rightarrow> factory \<Rightarrow> bool" where
  "owners_ok store f \<longleftrightarrow> (\<forall>g \<in> set (fac_regs f). \<exists>i x. reg_owner g = Some i \<and> live store i = Some x)"

definition fits_adapter :: "adapter \<Rightarrow> string \<Rightarrow> nat option \<Rightarrow> bool" where
  "fits_adapter x k owner = True"

definition fits_peripheral :: "peripheral \<Rightarrow> string \<Rightarrow> nat option \<Rightarrow> bool" where
  "fits_peripheral x k owner = (owner = Some (p_owner x))"

definition fits_service :: "service \<Rightarrow> string \<Rightarrow> nat option \<Rightarrow> bool" where
  "fits_service x k owner = (s_uuid x = k \<and> owner = Some (s_owner x))"

definition fits_characteristic :: "characteristic \<Rightarrow> string \<Rightarrow> nat option \<Rightarrow> bool" where
  "fits_characteristic x k owner = (c_uuid x = k \<and> owner = Some (c_owner x))"

definition adapters_ok :: "'b world \<Rightarrow> bool" where
  "adapters_ok w \<longleftrightarrow> (\<forall>i x. live (w_adapters w) i = Some x \<longrightarrow>
     a_ble x \<noteq> None \<and> a_registry x < length (fac_regs (w_peripheral_regs w)))"

definition peripherals_ok :: "'b world \<Rightarrow> bool" where
  "peripherals_ok w \<longleftrightarrow> (\<forall>i x. live (w_peripherals w) i = Some x \<longrightarrow>
     live (w_adapters w) (p_owner x) \<noteq> None \<and> p_registry x < length (fac_regs (w_service_regs w)))"

definition services_ok :: "'b env \<Rightarrow> 'b world \<Rightarrow> bool" where
  "services_ok E w \<longleftrightarrow> (\<forall>i x. live (w_services w) i = Some x \<longrightarrow>
     live (w_peripherals w) (s_owner x) \<noteq> None \<and>
     map_of (fac_index (w_characteristic_regs w)) (hash_service (e_types E) (e_hash E) (s_uuid x))
       = Some (s_registry x))"

definition characteristics_ok :: "'b world \<Rightarrow> bool" where
  "characteristics_ok w \<longleftrightarrow> (\<forall>i x. live (w_characteristics w) i = Some x \<longrightarrow>
     live (w_services w) (c_owner x) \<noteq> None)"

definition world_ok :: "'b env \<Rightarrow> 'b world \<Rightarrow> bool" where
  "world_ok E w \<longleftrightarrow>
     reg_ok (w_adapters w) fits_adapter (w_adapter_regs w) \<and>
     reg_ok (w_peripherals w) fits_peripheral (w_peripheral_regs w) \<and>
     reg_ok (w_services w) fits_service (w_service_regs w) \<and>
     reg_ok (w_characteristics w) fits_characteristic (w_characteristic_regs w) \<and>
     owners_ok (w_adapters w) (w_peripheral_regs w) \<and>
     owners_ok (w_peripherals w) (w_service_regs w) \<and>
     owners_ok (w_services w) (w_characteristic_regs w) \<and>
     adapters_ok w \<and> peripherals_ok w \<and> services_ok E w \<and> characteristics_ok w \<and>
     (\<forall>r. w_adapter_registry w = Some r \<longrightarrow> r < length (fac_regs (w_adapter_regs w)))"

text \<open>
  The registration of a callback with SimpleBLE only stores it: it does not throw.
\<close>

definition quiet_callbacks :: "'b ble \<Rightarrow> bool" where
  "quiet_callbacks B \<longleftrightarrow>
     (\<forall>h cb b. \<exists>b'. pe_set_callback B h cb b = (Inr (), b')) \<and>
     (\<forall>h cb b. \<exists>b'. ad_set_callback B h cb b = (Inr (), b'))"

subsection \<open>Lemmas on stores and factories\<close>

lemma live_less: "live s i = Some x \<Longrightarrow> i < length s"
  by (simp add: live_def split: if_splits)

lemma live_snoc_None [simp]: "live (s @ [None]) = live s"
  by (auto simp: fun_eq_iff live_def nth_append)

lemma live_snoc_Some [simp]: "live (s @ [Some x]) i = (if i = length s then Some x else live s i)"
  by (auto simp: live_def nth_append)

lemma live_length [simp]: "live s (length s) = None"
  by (simp add: live_def)

lemma live_update [simp]:
  "live (s[i := map_option f (s ! i)]) j = (if j = i then map_option f (live s i) else live s j)"
  by (auto simp: live_def)

lemma live_drop: "live (s[i := None]) j = (if j = i then None else live s j)"
  by (auto simp: live_def)

lemma reg_ok_mono:
  assumes "reg_ok s fits f"
    and "\<And>i x. live s i = Some x \<Longrightarrow> \<exists>y. live s' i = Some y \<and> (\<forall>k owner. fits x k owner \<longrightarrow> fits y k owner)"
  shows "reg_ok s' fits f"
  unfolding reg_ok_def
proof (intro conjI ballI)
  fix kr assume "kr \<in> set (fac_index f)"
  then show "case kr of (k, r) \<Rightarrow> r < length (fac_regs f)" using assms(1) by (auto simp: reg_ok_def)
next
  fix g assume g: "g \<in> set (fac_regs f)"
  then show "map_ok (reg_map g)" using assms(1) by (simp add: reg_ok_def)
  fix ki assume ki: "ki \<in> set (reg_map g)"
  obtain k i where p: "ki = (k, i)" by fastforce
  obtain x where x: "live s i = Some x" "fits x k (reg_owner g)"
    using assms(1) g ki p unfolding reg_ok_def by blast
  with assms(2) [OF x(1)] p show "case ki of (k, i) \<Rightarrow> \<exists>x. live s' i = Some x \<and> fits x k (reg_owner g)"
    by auto
qed

lemma owners_ok_mono:
  "owners_ok s f \<Longrightarrow> (\<And>i x. live s i = Some x \<Longrightarrow> \<exists>y. live s' i = Some y) \<Longrightarrow> owners_ok s' f"
  unfolding owners_ok_def by meson

text \<open>The proxies a factory's registries hold, and the law that a fresh number is none of them.\<close>

definition registered :: "factory \<Rightarrow> nat set" where
  "registered f = {i. \<exists>g \<in> set (fac_regs f). \<exists>k. (k, i) \<in> set (reg_map g)}"

lemma registered_less: "reg_ok s fits f \<Longrightarrow> i \<in> registered f \<Longrightarrow> i < length s"
  unfolding registered_def reg_ok_def by (blast dest: live_less)

lemma reg_ok_drop: "reg_ok s fits f \<Longrightarrow> i \<notin> registered f \<Longrightarrow> reg_ok (s[i := None]) fits f"
  unfolding reg_ok_def registered_def by (fastforce simp: live_drop)

lemma reg_store_cases:
  assumes "g \<in> set (fac_regs (reg_store r m f))"
  obtains "g = (fac_regs f ! r)\<lparr>reg_map := m\<rparr>" | "g \<in> set (fac_regs f)"
  using assms set_update_subset_insert [of "fac_regs f" r "(fac_regs f ! r)\<lparr>reg_map := m\<rparr>"]
  by (auto simp: reg_store_def)

lemma reg_ok_store:
  assumes "reg_ok s fits f" and "r < length (fac_regs f)" and "map_ok m"
    and "\<And>k i. (k, i) \<in> set m \<Longrightarrow> \<exists>x. live s i = Some x \<and> fits x k (reg_owner (fac_regs f ! r))"
  shows "reg_ok s fits (reg_store r m f)"
proof -
  have "map_ok (reg_map g) \<and> (\<forall>(k, i) \<in> set (reg_map g). \<exists>x. live s i = Some x \<and> fits x k (reg_owner g))"
    if "g \<in> set (fac_regs (reg_store r m f))" for g
    using that
  proof (cases rule: reg_store_cases)
    case 1
    then show ?thesis using assms(3,4) by auto
  next
    case 2
    then show ?thesis using assms(1) by (simp add: reg_ok_def)
  qed
  moreover have "\<forall>(k, q) \<in> set (fac_index (reg_store r m f)). q < length (fac_regs (reg_store r m f))"
    using assms(1) by (auto simp: reg_ok_def reg_store_def)
  ultimately show ?thesis unfolding reg_ok_def by blast
qed

lemma owners_ok_store:
  assumes "owners_ok s f" and "r < length (fac_regs f)"
  shows "owners_ok s (reg_store r m f)"
  unfolding owners_ok_def
proof
  fix g assume "g \<in> set (fac_regs (reg_store r m f))"
  then show "\<exists>i x. reg_owner g = Some i \<and> live s i = Some x"
    by (cases rule: reg_store_cases) (use assms in \<open>auto simp: owners_ok_def\<close>)
qed

text \<open>A factory with one more, empty, registry.\<close>

definition add_registry :: "64 word \<Rightarrow> nat \<Rightarrow> nat option \<Rightarrow> factory \<Rightarrow> factory" where
  "add_registry index self owner f = f\<lparr>fac_index := (index, length (fac_regs f)) # fac_index f,
     fac_regs := fac_regs f @ [\<lparr>reg_self = self, reg_owner = owner, reg_map = []\<rparr>]\<rparr>"

lemma add_registry_fields [simp]:
  "length (fac_regs (add_registry index self owner f)) = Suc (length (fac_regs f))"
  "map_of (fac_index (add_registry index self owner f)) k =
     (if k = index then Some (length (fac_regs f)) else map_of (fac_index f) k)"
  "registered (add_registry index self owner f) = registered f"
  by (auto simp: add_registry_def registered_def)

lemma reg_ok_add: "reg_ok s fits f \<Longrightarrow> reg_ok s fits (add_registry index self owner f)"
  unfolding reg_ok_def add_registry_def by fastforce

lemma owners_ok_add:
  "owners_ok s f \<Longrightarrow> live s i = Some x \<Longrightarrow> owners_ok s (add_registry index self (Some i) f)"
  unfolding owners_ok_def add_registry_def by fastforce

lemma reg_ok_index: "reg_ok s fits f \<Longrightarrow> map_of (fac_index f) k = Some r \<Longrightarrow> r < length (fac_regs f)"
  unfolding reg_ok_def by (blast dest: map_of_SomeD)

subsection \<open>What keeps the invariant\<close>

lemmas objects_ok_defs = adapters_ok_def peripherals_ok_def services_ok_def characteristics_ok_def

lemma world_ok_frame [simp]:
  "world_ok E (w\<lparr>w_ble := b\<rparr>) = world_ok E w"
  "world_ok E (w\<lparr>w_next_value := n\<rparr>) = world_ok E w"
  "world_ok E (w\<lparr>w_pushed := ps\<rparr>) = world_ok E w"
  "world_ok E (w\<lparr>w_calls := cs\<rparr>) = world_ok E w"
  "world_ok E (w\<lparr>w_deinit_called := d\<rparr>) = world_ok E w"
  "world_ok E (w\<lparr>w_flag_check_this := t\<rparr>) = world_ok E w"
  "world_ok E (w\<lparr>w_queue_stopped := q\<rparr>) = world_ok E w"
  by (simp_all add: world_ok_def objects_ok_defs)

lemma world_ok_set_characteristic:
  assumes "world_ok E w" and "\<And>x. c_uuid (f x) = c_uuid x \<and> c_owner (f x) = c_owner x"
  shows "world_ok E (set_characteristic c f w)"
proof -
  have "reg_ok (w_characteristics (set_characteristic c f w)) fits_characteristic (w_characteristic_regs w)"
    by (rule reg_ok_mono [of "w_characteristics w"])
      (use assms in \<open>auto simp: world_ok_def set_characteristic_def fits_characteristic_def\<close>)
  with assms show ?thesis
    by (auto simp: world_ok_def objects_ok_defs set_characteristic_def split: if_splits)
qed

lemma world_ok_drop_characteristic:
  assumes "world_ok E w" and "c \<notin> registered (w_characteristic_regs w)"
  shows "world_ok E (w_characteristics_update (\<lambda>s. s[c := None]) w)"
  using assms by (auto simp: world_ok_def objects_ok_defs live_drop intro: reg_ok_drop)

text \<open>Facts about a state that calls of SimpleBLE and the caches of a characteristic do not touch.\<close>

definition same_regs :: "'b world \<Rightarrow> 'b world \<Rightarrow> bool" where
  "same_regs v w \<longleftrightarrow> w_characteristic_regs w = w_characteristic_regs v \<and> w_service_regs w = w_service_regs v \<and>
     w_peripheral_regs w = w_peripheral_regs v \<and> w_adapter_regs w = w_adapter_regs v \<and>
     w_during_gc w = w_during_gc v \<and> w_adapter_registry w = w_adapter_registry v"

definition ch_like :: "uuid \<Rightarrow> nat \<Rightarrow> nat \<Rightarrow> 'b world \<Rightarrow> bool" where
  "ch_like u owner c w \<longleftrightarrow> (\<exists>x. live (w_characteristics w) c = Some x \<and> c_uuid x = u \<and> c_owner x = owner)"

definition frame :: "'b env \<Rightarrow> 'b world \<Rightarrow> 'b world \<Rightarrow> bool" where
  "frame E v w \<longleftrightarrow> world_ok E w \<and> same_regs v w \<and>
     w_adapters w = w_adapters v \<and> w_peripherals w = w_peripherals v \<and> w_services w = w_services v \<and>
     (\<forall>c u owner. ch_like u owner c v \<longrightarrow> ch_like u owner c w)"

lemma frame_refl: "world_ok E w \<Longrightarrow> frame E w w"
  by (simp add: frame_def same_regs_def)

lemma frame_ble [simp]: "frame E v (w\<lparr>w_ble := b\<rparr>) = frame E v w"
  by (simp add: frame_def same_regs_def ch_like_def)

lemma frame_set_characteristic:
  assumes "frame E v w" and "\<And>x. c_uuid (f x) = c_uuid x \<and> c_owner (f x) = c_owner x"
  shows "frame E v (set_characteristic c f w)"
proof -
  have "ch_like u owner d (set_characteristic c f w)" if "ch_like u owner d w" for u owner d
    using that assms(2) unfolding ch_like_def set_characteristic_def by auto
  then show ?thesis using assms world_ok_set_characteristic [of E w f c]
    by (simp add: frame_def same_regs_def set_characteristic_def)
qed

lemma frame_ble_call [inv_intros]: "keeps (frame E v) (ble_call m)"
  by (rule keepsI) (simp add: ble_call_def split: prod.splits)

lemma frame_deref [inv_intros]: "keeps P (deref store i)"
  by (rule keepsI) (simp add: deref_def split: option.splits)

lemma frame_modify_characteristic [inv_intros]:
  "(\<And>x. c_uuid (f x) = c_uuid x \<and> c_owner (f x) = c_owner x) \<Longrightarrow>
     keeps (frame E v) (modifyA (set_characteristic c f))"
  by (rule keepsI) (simp add: act_simps frame_set_characteristic)

lemma keeps_option [inv_intros]:
  "keeps P m \<Longrightarrow> (\<And>x. keeps P (f x)) \<Longrightarrow> keeps P (case opt of None \<Rightarrow> m | Some x \<Rightarrow> f x)"
  by (cases opt) auto

lemma keeps_if [inv_intros]: "keeps P m \<Longrightarrow> keeps P n \<Longrightarrow> keeps P (if b then m else n)"
  by simp

lemma frame_capabilities [inv_intros]: "keeps (frame E v) (capabilities c)"
  unfolding capabilities_def by (intro inv_intros) simp

lemma frame_has_capability [inv_intros]: "keeps (frame E v) (has_capability c name)"
  unfolding has_capability_def by (intro inv_intros)

lemma frame_notify [inv_intros]:
  "keeps (frame E v) (service_notify E s u cb)" "keeps (frame E v) (service_indicate E s u cb)"
  unfolding service_notify_def service_indicate_def peripheral_notify_def peripheral_indicate_def
  by (intro inv_intros)+

lemma frame_characteristic_body [inv_intros]: "keeps (frame E v) (characteristic_body E c owner u)"
  unfolding characteristic_body_def by (intro inv_intros)

subsection \<open>Registering a proxy\<close>

lemma reg_ok_data: "reg_ok s fits f \<Longrightarrow> r < length (fac_regs f) \<Longrightarrow> map_ok (reg_map (fac_regs f ! r))"
  by (simp add: reg_ok_def)

lemma reg_ok_find:
  assumes "reg_ok s fits f" and "r < length (fac_regs f)" and "map_find (reg_map (fac_regs f ! r)) k = Some i"
  shows "\<exists>x. live s i = Some x \<and> fits x k (reg_owner (fac_regs f ! r))"
proof -
  have "(k, i) \<in> set (reg_map (fac_regs f ! r))"
    using assms map_find_in_set [OF reg_ok_data [OF assms(1,2)]] by blast
  with assms(1,2) show ?thesis unfolding reg_ok_def by (auto dest: nth_mem)
qed

lemma reg_ok_register:
  assumes "reg_ok s fits f" and "r < length (fac_regs f)"
    and "live s i = Some x" and "fits x k (reg_owner (fac_regs f ! r))"
  shows "reg_ok s fits (reg_store r (map_emplace k i (reg_map (fac_regs f ! r))) f)"
proof (rule reg_ok_store [OF assms(1,2)])
  have ok: "map_ok (reg_map (fac_regs f ! r))" using assms(1,2) by (rule reg_ok_data)
  then show "map_ok (map_emplace k i (reg_map (fac_regs f ! r)))" by (rule map_ok_emplace)
  fix k' j assume "(k', j) \<in> set (map_emplace k i (reg_map (fac_regs f ! r)))"
  then consider "(k', j) = (k, i)" | "(k', j) \<in> set (reg_map (fac_regs f ! r))"
    using set_map_emplace [of k i "reg_map (fac_regs f ! r)"] by auto
  then show "\<exists>x. live s j = Some x \<and> fits x k' (reg_owner (fac_regs f ! r))"
  proof cases
    case 1
    then show ?thesis using assms(3,4) by auto
  next
    case 2
    then show ?thesis using assms(1,2) unfolding reg_ok_def by (auto dest: nth_mem)
  qed
qed

lemma reg_store_length [simp]: "length (fac_regs (reg_store r m f)) = length (fac_regs f)"
  by (simp add: reg_store_def)

lemma reg_store_index [simp]: "fac_index (reg_store r m f) = fac_index f"
  by (simp add: reg_store_def)

lemma owners_ok_get:
  assumes "owners_ok s f" and "r < length (fac_regs f)"
  obtains i x where "reg_owner (fac_regs f ! r) = Some i" and "live s i = Some x"
  using assms unfolding owners_ok_def by (meson nth_mem)

text \<open>The proxy with a number is live and fits a key and an owner.\<close>

definition good_in :: "('w \<Rightarrow> 'o option list) \<Rightarrow> ('o \<Rightarrow> string \<Rightarrow> nat option \<Rightarrow> bool) \<Rightarrow>
    'w \<Rightarrow> nat \<Rightarrow> string \<Rightarrow> nat option \<Rightarrow> bool" where
  "good_in store fits w i k owner \<longleftrightarrow> (\<exists>x. live (store w) i = Some x \<and> fits x k owner)"

lemma good_in_find:
  "reg_ok (store w) fits f \<Longrightarrow> r < length (fac_regs f) \<Longrightarrow> map_find (reg_map (fac_regs f ! r)) k = Some i \<Longrightarrow>
     good_in store fits w i k (reg_owner (fac_regs f ! r))"
  unfolding good_in_def by (rule reg_ok_find)

lemma good_in_frame [simp]:
  "good_in w_characteristics cfits (w_characteristic_regs_update f w) = good_in w_characteristics cfits w"
  "good_in w_services sfits (w_service_regs_update f w) = good_in w_services sfits w"
  "good_in w_peripherals pfits (w_peripheral_regs_update f w) = good_in w_peripherals pfits w"
  "good_in w_adapters afits (w_adapter_regs_update f w) = good_in w_adapters afits w"
  by (simp_all add: good_in_def fun_eq_iff)

lemma world_ok_regs:
  assumes "world_ok E w"
  shows "reg_ok (w_adapters w) fits_adapter (w_adapter_regs w)"
    and "reg_ok (w_peripherals w) fits_peripheral (w_peripheral_regs w)"
    and "reg_ok (w_services w) fits_service (w_service_regs w)"
    and "reg_ok (w_characteristics w) fits_characteristic (w_characteristic_regs w)"
  using assms by (simp_all add: world_ok_def)

lemma world_ok_register:
  assumes "world_ok E w"
  shows
    "r < length (fac_regs (w_characteristic_regs w)) \<Longrightarrow>
      good_in w_characteristics fits_characteristic w i k (reg_owner (fac_regs (w_characteristic_regs w) ! r)) \<Longrightarrow>
      world_ok E (w_characteristic_regs_update
        (reg_store r (map_emplace k i (reg_map (fac_regs (w_characteristic_regs w) ! r)))) w)"
    and "r < length (fac_regs (w_service_regs w)) \<Longrightarrow>
      good_in w_services fits_service w i k (reg_owner (fac_regs (w_service_regs w) ! r)) \<Longrightarrow>
      world_ok E (w_service_regs_update
        (reg_store r (map_emplace k i (reg_map (fac_regs (w_service_regs w) ! r)))) w)"
    and "r < length (fac_regs (w_peripheral_regs w)) \<Longrightarrow>
      good_in w_peripherals fits_peripheral w i k (reg_owner (fac_regs (w_peripheral_regs w) ! r)) \<Longrightarrow>
      world_ok E (w_peripheral_regs_update
        (reg_store r (map_emplace k i (reg_map (fac_regs (w_peripheral_regs w) ! r)))) w)"
    and "r < length (fac_regs (w_adapter_regs w)) \<Longrightarrow>
      good_in w_adapters fits_adapter w i k (reg_owner (fac_regs (w_adapter_regs w) ! r)) \<Longrightarrow>
      world_ok E (w_adapter_regs_update
        (reg_store r (map_emplace k i (reg_map (fac_regs (w_adapter_regs w) ! r)))) w)"
  using assms
  by (auto simp: world_ok_def objects_ok_defs good_in_def intro: reg_ok_register owners_ok_store)

subsection \<open>The constructors keep the invariant\<close>

text \<open>The characteristic is stored, in a graph that is in order, before the body of its constructor runs.\<close>

lemma new_characteristic_run:
  assumes ok: "world_ok E w" and owner: "live (w_services w) o' = Some sv"
  obtains w1 where "world_ok E w1" and "same_regs w w1" and "ch_like (bc_uuid v) o' (length (w_characteristics w)) w1"
    and "live (w_services w1) o' = Some sv"
    and "new_characteristic E v (Some o') w =
      in_ctor w_characteristics_update (length (w_characteristics w))
        (characteristic_body E (length (w_characteristics w)) o' (bc_uuid v)) w1"
proof -
  define x where "x = \<lparr>c_tracker = tracker_new None, c_owner = o', c_ble = v, c_uuid = bc_uuid v,
      c_on_notify = None, c_on_indicate = None, c_capabilities = None, c_descriptors = None,
      c_self = RObject (w_next_value w)\<rparr>"
  define w1 where "w1 = w\<lparr>w_next_value := w_next_value w + 1, w_characteristics := w_characteristics w @ [Some x]\<rparr>"
  have "reg_ok (w_characteristics w1) fits_characteristic (w_characteristic_regs w1)"
    by (rule reg_ok_mono [of "w_characteristics w"])
      (use ok in \<open>auto simp: world_ok_def w1_def dest: live_less\<close>)
  then have "world_ok E w1"
    using ok owner by (auto simp: world_ok_def objects_ok_defs w1_def x_def split: if_splits)
  moreover have "new_characteristic E v (Some o') w =
      in_ctor w_characteristics_update (length (w_characteristics w))
        (characteristic_body E (length (w_characteristics w)) o' (bc_uuid v)) w1"
    by (cases w) (simp add: new_characteristic_def bindA_def seqA_def alloc_def new_rb_value_def act_simps
        x_def w1_def)
  moreover have "same_regs w w1" and "ch_like (bc_uuid v) o' (length (w_characteristics w)) w1"
    and "live (w_services w1) o' = Some sv"
    using owner by (simp_all add: w1_def x_def same_regs_def ch_like_def)
  ultimately show ?thesis using that by blast
qed

lemma new_characteristic_keeps:
  assumes ok: "world_ok E w" and owner: "live (w_services w) o' = Some sv"
    and new: "new_characteristic E v (Some o') w = (res, w')"
  shows "world_ok E w' \<and> same_regs w w' \<and>
    (\<forall>i. res = Inr i \<longrightarrow> ch_like (bc_uuid v) o' i w')"
proof -
  let ?c = "length (w_characteristics w)"
  obtain w1 where w1: "world_ok E w1" "same_regs w w1" "ch_like (bc_uuid v) o' ?c w1"
    and run: "new_characteristic E v (Some o') w =
      in_ctor w_characteristics_update ?c (characteristic_body E ?c o' (bc_uuid v)) w1"
    using new_characteristic_run [OF ok owner] by metis
  obtain br u where body: "characteristic_body E ?c o' (bc_uuid v) w1 = (br, u)" by fastforce
  have fr: "frame E w1 u"
    using keepsD [OF frame_characteristic_body, OF frame_refl [OF w1(1)], of ?c o' "bc_uuid v"] body by simp
  have same: "same_regs w u" using fr w1(2) by (simp add: frame_def same_regs_def)
  have fresh: "?c \<notin> registered (w_characteristic_regs u)"
    using ok same registered_less unfolding world_ok_def same_regs_def by fastforce
  show ?thesis
  proof (cases br)
    case (Inl e)
    then have "res = Inl e" and w': "w' = w_characteristics_update (\<lambda>s. s[?c := None]) u"
      using new run body by (simp_all add: in_ctor_def)
    moreover have "world_ok E w'" unfolding w'
      by (rule world_ok_drop_characteristic [OF _ fresh]) (use fr in \<open>simp add: frame_def\<close>)
    moreover have "same_regs w w'" using same by (simp add: same_regs_def w')
    ultimately show ?thesis by simp
  next
    case (Inr y)
    then have "res = Inr ?c" and "w' = u" using new run body by (simp_all add: in_ctor_def)
    then show ?thesis using w1(3) fr same by (auto simp: frame_def)
  qed
qed

interpretation chr: proxy_registry "characteristic_class E" "world_ok E"
    "good_in w_characteristics fits_characteristic" for E :: "'b env"
proof unfold_locales
  fix w w' :: "'b world" and r v res and u i key
  let ?C = "characteristic_class E"
  assume ok: "world_ok E w" and r: "r < length (fac_regs (pc_get ?C w))"
  obtain o' sv where o': "reg_owner_of ?C r w = Some o'" "live (w_services w) o' = Some sv"
    using ok r by (auto simp: world_ok_def characteristic_class_def reg_owner_of_def elim: owners_ok_get)
  {
    assume "pc_new ?C v (reg_owner_of ?C r w) w = (res, w')"
    then have "new_characteristic E v (Some o') w = (res, w')" by (simp add: o'(1)) (simp add: characteristic_class_def)
    from new_characteristic_keeps [OF ok o'(2) this]
    show "world_ok E w' \<and> pc_get ?C w' = pc_get ?C w \<and> pc_gc ?C w' = pc_gc ?C w"
      by (simp add: same_regs_def characteristic_class_def)
  next
    assume "pc_key ?C v u = (Inr key, w)" and "pc_new ?C v (reg_owner_of ?C r w) w = (Inr i, w')"
    then have "new_characteristic E v (Some o') w = (Inr i, w')" and "key = bc_uuid v"
      by (simp_all add: o'(1)) (simp_all add: characteristic_class_def act_simps)
    with new_characteristic_keeps [OF ok o'(2) this(1)]
    show "good_in w_characteristics fits_characteristic w' i key (reg_owner_of ?C r w)"
      by (auto simp: good_in_def ch_like_def fits_characteristic_def o'(1))
  }
qed (simp_all add: characteristic_class_def reg_data_def reg_owner_of_def act_simps
    reg_ok_data [OF world_ok_regs(4)] good_in_find [where store = w_characteristics, OF world_ok_regs(4)]
    world_ok_register(1))

text \<open>What the factory answers: the registry with that index, or a new one.\<close>

definition registry_for :: "64 word \<Rightarrow> nat \<Rightarrow> factory \<Rightarrow> factory \<Rightarrow> nat \<Rightarrow> bool" where
  "registry_for index owner f F r \<longleftrightarrow>
     (map_of (fac_index f) index = Some r \<and> F = f) \<or>
     (map_of (fac_index f) index = None \<and> r = length (fac_regs f) \<and>
        (\<exists>self. F = add_registry index self (Some owner) f))"

lemma registry_for_reg_ok:
  "registry_for index owner f F r \<Longrightarrow> reg_ok s fits f \<Longrightarrow> reg_ok s fits F \<and> r < length (fac_regs F)"
  by (auto simp: registry_for_def reg_ok_add dest: reg_ok_index)

lemma registry_for_index:
  "registry_for index owner f F r \<Longrightarrow> map_of (fac_index F) index = Some r \<and>
     (\<forall>k q. map_of (fac_index f) k = Some q \<longrightarrow> map_of (fac_index F) k = Some q) \<and>
     length (fac_regs f) \<le> length (fac_regs F)"
  by (auto simp: registry_for_def)

lemma registry_for_length:
  "registry_for index owner f F r \<Longrightarrow> q < length (fac_regs f) \<Longrightarrow> q < length (fac_regs F)"
  using registry_for_index [of index owner f F r] by simp

lemma registry_for_owners:
  assumes "registry_for index owner f F r" and "owners_ok s f"
    and "\<And>i x. live s i = Some x \<Longrightarrow> \<exists>y. live s' i = Some y" and "live s' owner = Some z"
  shows "owners_ok s' F"
proof -
  have "owners_ok s' f" using assms(2,3) by (rule owners_ok_mono)
  then show ?thesis using assms(1,4) by (auto simp: registry_for_def intro: owners_ok_add)
qed

lemma snoc_mono: "live s i = Some x \<Longrightarrow> \<exists>y. live (s @ [Some z]) i = Some y \<and> (\<forall>k owner. fits x k owner \<longrightarrow> fits y k owner)"
  by (auto dest: live_less)

lemma reg_ok_snoc: "reg_ok s fits f \<Longrightarrow> reg_ok (s @ [Some z]) fits f"
  by (erule reg_ok_mono) (erule snoc_mono)

lemma live_snoc_mono: "live s i = Some x \<Longrightarrow> \<exists>y. live (s @ [Some z]) i = Some y"
  by (auto dest: live_less)

lemma world_ok_add_service:
  assumes ok: "world_ok E w" and live: "live (w_peripherals w) (s_owner x) = Some p"
    and reg: "registry_for (hash_service (e_types E) (e_hash E) (s_uuid x)) (length (w_services w))
      (w_characteristic_regs w) F (s_registry x)"
  shows "world_ok E (w\<lparr>w_services := w_services w @ [Some x], w_characteristic_regs := F\<rparr>)"
proof -
  have "owners_ok (w_services w @ [Some x]) F"
    by (rule registry_for_owners [OF reg, of "w_services w"]) (use ok in \<open>auto simp: world_ok_def dest: live_less\<close>)
  moreover have "reg_ok (w_characteristics w) fits_characteristic F"
    using registry_for_reg_ok [OF reg world_ok_regs(4) [OF ok]] by simp
  moreover have "reg_ok (w_services w @ [Some x]) fits_service (w_service_regs w)"
    using ok by (simp add: world_ok_def reg_ok_snoc)
  ultimately show ?thesis
    using ok live registry_for_index [OF reg] by (auto simp: world_ok_def objects_ok_defs split: if_splits)
qed

lemma world_ok_add_peripheral:
  assumes ok: "world_ok E w" and live: "live (w_adapters w) (p_owner x) = Some a"
    and reg: "registry_for index (length (w_peripherals w)) (w_service_regs w) F (p_registry x)"
  shows "world_ok E (w\<lparr>w_peripherals := w_peripherals w @ [Some x], w_service_regs := F\<rparr>)"
proof -
  have "owners_ok (w_peripherals w @ [Some x]) F"
    by (rule registry_for_owners [OF reg, of "w_peripherals w"]) (use ok in \<open>auto simp: world_ok_def dest: live_less\<close>)
  moreover have "reg_ok (w_services w) fits_service F" and "p_registry x < length (fac_regs F)"
    using registry_for_reg_ok [OF reg world_ok_regs(3) [OF ok]] by simp_all
  moreover have "reg_ok (w_peripherals w @ [Some x]) fits_peripheral (w_peripheral_regs w)"
    using ok by (simp add: world_ok_def reg_ok_snoc)
  ultimately show ?thesis
    using ok live registry_for_length [OF reg]
    by (auto simp: world_ok_def objects_ok_defs split: if_splits)
qed

lemma world_ok_add_adapter:
  assumes ok: "world_ok E w" and ble: "a_ble x \<noteq> None"
    and reg: "registry_for index (length (w_adapters w)) (w_peripheral_regs w) F (a_registry x)"
  shows "world_ok E (w\<lparr>w_adapters := w_adapters w @ [Some x], w_peripheral_regs := F\<rparr>)"
proof -
  have "owners_ok (w_adapters w @ [Some x]) F"
    by (rule registry_for_owners [OF reg, of "w_adapters w"]) (use ok in \<open>auto simp: world_ok_def dest: live_less\<close>)
  moreover have "reg_ok (w_peripherals w) fits_peripheral F" and "a_registry x < length (fac_regs F)"
    using registry_for_reg_ok [OF reg world_ok_regs(2) [OF ok]] by simp_all
  moreover have "reg_ok (w_adapters w @ [Some x]) fits_adapter (w_adapter_regs w)"
    using ok by (simp add: world_ok_def reg_ok_snoc)
  ultimately show ?thesis
    using ok ble registry_for_length [OF reg]
    by (auto simp: world_ok_def objects_ok_defs split: if_splits)
qed

text \<open>The final states of the other constructors, written out.\<close>

lemma new_service_run:
  obtains r F n m where
    "registry_for (hash_service (e_types E) (e_hash E) (bs_uuid v)) (length (w_services w)) (w_characteristic_regs w) F r"
    and "w_next_value w \<le> n" and "n < m"
    and "new_service E v (Some o') w = (Inr (length (w_services w)), w\<lparr>w_services := w_services w @ [Some
        \<lparr>s_owner = o', s_ble = v, s_registry = r, s_uuid = bs_uuid v, s_self = RObject n\<rparr>],
        w_characteristic_regs := F, w_next_value := m\<rparr>)"
proof -
  let ?f = "w_characteristic_regs w" and ?i = "length (w_services w)"
  let ?h = "hash_service (e_types E) (e_hash E) (bs_uuid v)"
  show thesis
  proof (cases "map_of (fac_index ?f) ?h")
    case (Some r)
    then show thesis
      by (intro that [of ?f r "w_next_value w" "w_next_value w + 1"])
        (simp_all add: registry_for_def, cases w, simp add: new_service_def factory_registry_def
          characteristic_class_def bindA_def seqA_def alloc_def new_rb_value_def act_simps)
  next
    case None
    show thesis
    proof (rule that)
      show "registry_for ?h ?i ?f (add_registry ?h (w_next_value w) (Some ?i) ?f) (length (fac_regs ?f))"
        using None by (force simp: registry_for_def)
      show "new_service E v (Some o') w = (Inr ?i, w\<lparr>w_services := w_services w @ [Some
          \<lparr>s_owner = o', s_ble = v, s_registry = length (fac_regs ?f), s_uuid = bs_uuid v, s_self = RObject (w_next_value w + 1)\<rparr>],
          w_characteristic_regs := add_registry ?h (w_next_value w) (Some ?i) ?f, w_next_value := w_next_value w + 2\<rparr>)"
        using None by (simp add: new_service_def factory_registry_def add_registry_def
          characteristic_class_def bindA_def seqA_def alloc_def new_rb_value_def act_simps)
    qed simp_all
  qed
qed

lemma new_service_keeps:
  assumes ok: "world_ok E w" and owner: "live (w_peripherals w) o' = Some p"
  obtains i w' where "new_service E v (Some o') w = (Inr i, w')" and "world_ok E w'"
    and "w_service_regs w' = w_service_regs w" and "w_peripheral_regs w' = w_peripheral_regs w"
    and "w_during_gc w' = w_during_gc w"
    and "good_in w_services fits_service w' i (bs_uuid v) (Some o')"
proof -
  obtain r F n m where reg: "registry_for (hash_service (e_types E) (e_hash E) (bs_uuid v)) (length (w_services w))
        (w_characteristic_regs w) F r"
    and run: "new_service E v (Some o') w = (Inr (length (w_services w)), w\<lparr>w_services := w_services w @ [Some
        \<lparr>s_owner = o', s_ble = v, s_registry = r, s_uuid = bs_uuid v, s_self = RObject n\<rparr>],
        w_characteristic_regs := F, w_next_value := m\<rparr>)"
    by (rule new_service_run)
  let ?x = "\<lparr>s_owner = o', s_ble = v, s_registry = r, s_uuid = bs_uuid v, s_self = RObject n\<rparr>"
  have "world_ok E (w\<lparr>w_services := w_services w @ [Some ?x], w_characteristic_regs := F\<rparr>)"
    by (rule world_ok_add_service [OF ok]) (use owner reg in simp_all)
  then show thesis
    by (intro that [OF run]) (simp_all add: world_ok_def objects_ok_defs good_in_def fits_service_def)
qed

interpretation svc: proxy_registry "service_class E" "world_ok E"
    "good_in w_services fits_service" for E :: "'b env"
proof unfold_locales
  fix w w' :: "'b world" and r v res and u i key
  let ?C = "service_class E"
  assume ok: "world_ok E w" and r: "r < length (fac_regs (pc_get ?C w))"
  obtain o' p where o': "reg_owner_of ?C r w = Some o'" "live (w_peripherals w) o' = Some p"
    using ok r by (auto simp: world_ok_def service_class_def reg_owner_of_def elim: owners_ok_get)
  obtain j x where new: "new_service E v (Some o') w = (Inr j, x)" "world_ok E x"
      "w_service_regs x = w_service_regs w" "w_during_gc x = w_during_gc w"
      "good_in w_services fits_service x j (bs_uuid v) (Some o')"
    by (rule new_service_keeps [OF ok o'(2)])
  {
    assume "pc_new ?C v (reg_owner_of ?C r w) w = (res, w')"
    then have "new_service E v (Some o') w = (res, w')" by (simp add: o'(1)) (simp add: service_class_def)
    then show "world_ok E w' \<and> pc_get ?C w' = pc_get ?C w \<and> pc_gc ?C w' = pc_gc ?C w"
      using new by (simp add: service_class_def)
  next
    assume "pc_key ?C v u = (Inr key, w)" and "pc_new ?C v (reg_owner_of ?C r w) w = (Inr i, w')"
    then have "new_service E v (Some o') w = (Inr i, w')" and "key = bs_uuid v"
      by (simp_all add: o'(1)) (simp_all add: service_class_def act_simps)
    then show "good_in w_services fits_service w' i key (reg_owner_of ?C r w)"
      using new by (simp add: o'(1))
  }
qed (simp_all add: service_class_def reg_data_def reg_owner_of_def act_simps
    reg_ok_data [OF world_ok_regs(3)] good_in_find [where store = w_services, OF world_ok_regs(3)]
    world_ok_register(2))

lemma world_ok_alloc [simp]:
  "world_ok E (w_peripherals_update (\<lambda>s. s @ [None]) w) = world_ok E w"
  "world_ok E (w_adapters_update (\<lambda>s. s @ [None]) w) = world_ok E w"
  by (simp_all add: world_ok_def objects_ok_defs reg_ok_def owners_ok_def)

lemma new_peripheral_run:
  assumes quiet: "quiet_callbacks (e_ble E)"
  obtains (fail) e b where "new_peripheral E h (Some o') w = (Inl e, (w_peripherals_update (\<lambda>s. s @ [None]) w)\<lparr>w_ble := b\<rparr>)"
  | (created) x F m addr b where
      "registry_for (hash_peripheral (e_types E) (e_hash E) addr) (length (w_peripherals w)) (w_service_regs w) F (p_registry x)"
    and "p_owner x = o'" and "p_on_connected x = callback_new 1" and "p_on_disconnected x = callback_new 1"
    and "p_self x = RObject m" and "w_next_value w \<le> m"
    and "new_peripheral E h (Some o') w = (Inr (length (w_peripherals w)), w\<lparr>w_peripherals := w_peripherals w @ [Some x],
        w_service_regs := F, w_next_value := m + 1, w_ble := b\<rparr>)"
proof -
  let ?B = "e_ble E" and ?f = "w_service_regs w" and ?i = "length (w_peripherals w)"
  obtain r1 b1 where 1: "pe_address ?B h (w_ble w) = (r1, b1)" by fastforce
  obtain r2 b2 where 2: "pe_address_type ?B h b1 = (r2, b2)" by fastforce
  obtain r3 b3 where 3: "pe_address ?B h b2 = (r3, b3)" by fastforce
  obtain b4 where 4: "pe_set_callback ?B h (CbConnected ?i) b3 = (Inr (), b4)"
    using quiet unfolding quiet_callbacks_def by meson
  obtain b5 where 5: "pe_set_callback ?B h (CbDisconnected ?i) b4 = (Inr (), b5)"
    using quiet unfolding quiet_callbacks_def by meson
  note defs = new_peripheral_def peripheral_registry_of_def alloc_def bindA_def seqA_def act_simps
    ble_call_def noexceptA_def
  show thesis
  proof (cases r1)
    case (Inl e)
    with 1 show ?thesis by (intro fail [of e b1]) (cases w, simp add: defs)
  next
    case i1: (Inr addr)
    show ?thesis
    proof (cases r2)
      case (Inl e)
      with 1 2 i1 show ?thesis by (intro fail [of e b2]) (cases w, simp add: defs)
    next
      case i2: (Inr at)
      show ?thesis
      proof (cases r3)
        case (Inl e)
        with 1 2 3 i1 i2 show ?thesis by (intro fail [of Terminated b3]) (cases w, simp add: defs)
      next
        case i3: (Inr addr2)
        let ?h = "hash_peripheral (e_types E) (e_hash E) addr2"
        define x where "x = (\<lambda>r m. \<lparr>p_owner = o', p_ble = h, p_addr = addr, p_addr_type = at,
          p_on_connected = callback_new 1, p_on_disconnected = callback_new 1, p_registry = r, p_self = RObject m\<rparr>)"
        show ?thesis
        proof (cases "map_of (fac_index ?f) ?h")
          case (Some r)
          with 1 2 3 4 5 i1 i2 i3 show ?thesis
            by (intro created [where addr = addr2 and x = "x r (w_next_value w)" and F = ?f and m = "w_next_value w" and b = b5])
              (simp_all add: registry_for_def x_def, cases w,
               simp add: defs factory_registry_def service_class_def in_ctor_def new_rb_value_def)
        next
          case None
          show ?thesis
          proof (rule created [where addr = addr2 and x = "x (length (fac_regs ?f)) (w_next_value w + 1)"
                and m = "w_next_value w + 1" and F = "add_registry ?h (w_next_value w) (Some ?i) ?f" and b = b5])
            show "registry_for ?h ?i ?f (add_registry ?h (w_next_value w) (Some ?i) ?f)
                (p_registry (x (length (fac_regs ?f)) (w_next_value w + 1)))"
              using None by (force simp: registry_for_def x_def)
            show "new_peripheral E h (Some o') w = (Inr ?i, w\<lparr>w_peripherals := w_peripherals w @
                [Some (x (length (fac_regs ?f)) (w_next_value w + 1))],
                w_service_regs := add_registry ?h (w_next_value w) (Some ?i) ?f, w_next_value := w_next_value w + 1 + 1, w_ble := b5\<rparr>)"
              using 1 2 3 4 5 i1 i2 i3 None
              by (cases w) (simp add: defs factory_registry_def add_registry_def service_class_def in_ctor_def
                  new_rb_value_def x_def)
          qed (simp_all add: x_def)
        qed
      qed
    qed
  qed
qed

lemma new_peripheral_keeps:
  assumes ok: "world_ok E w" and quiet: "quiet_callbacks (e_ble E)"
    and owner: "live (w_adapters w) o' = Some a"
    and run: "new_peripheral E h (Some o') w = (res, w')"
  shows "world_ok E w' \<and> w_peripheral_regs w' = w_peripheral_regs w \<and> w_adapter_regs w' = w_adapter_regs w \<and>
    w_during_gc w' = w_during_gc w \<and>
    (\<forall>i k. res = Inr i \<longrightarrow> good_in w_peripherals fits_peripheral w' i k (Some o'))"
  using quiet
proof (cases rule: new_peripheral_run [where h = h and o' = o' and w = w])
  case fail
  with run ok show ?thesis by auto
next
  case (created x F m addr b)
  have "world_ok E (w\<lparr>w_peripherals := w_peripherals w @ [Some x], w_service_regs := F\<rparr>)"
    by (rule world_ok_add_peripheral [OF ok]) (use owner created(1,2) in simp_all)
  with created(2,7) run show ?thesis
    by (auto simp: world_ok_def objects_ok_defs good_in_def fits_peripheral_def)
qed

lemma new_adapter_run:
  assumes quiet: "quiet_callbacks (e_ble E)"
  obtains (fail) e b where "new_adapter E h owner w =
      (Inl e, (w_adapters_update (\<lambda>s. s @ [None]) (w\<lparr>w_next_value := w_next_value w + 1\<rparr>))\<lparr>w_ble := b\<rparr>)"
  | (created) x F m addr b where
      "registry_for (hash_adapter (e_types E) (e_hash E) addr) (length (w_adapters w)) (w_peripheral_regs w) F (a_registry x)"
    and "a_ble x \<noteq> None" and "a_self x = RObject (w_next_value w)" and "w_next_value w < m"
    and "a_on_scan_start x = callback_new 1" and "a_on_scan_stop x = callback_new 1"
    and "a_on_scan_update x = callback_new 2" and "a_on_scan_find x = callback_new 2"
    and "new_adapter E h owner w = (Inr (length (w_adapters w)), w\<lparr>w_adapters := w_adapters w @ [Some x],
        w_peripheral_regs := F, w_next_value := m, w_ble := b\<rparr>)"
proof -
  let ?B = "e_ble E" and ?f = "w_peripheral_regs w" and ?i = "length (w_adapters w)"
  obtain r1 b1 where 1: "ad_address ?B h (w_ble w) = (r1, b1)" by fastforce
  obtain r2 b2 where 2: "ad_address ?B h b1 = (r2, b2)" by fastforce
  obtain b3 where 3: "ad_set_callback ?B h (CbScanStart ?i) b2 = (Inr (), b3)"
    using quiet unfolding quiet_callbacks_def by meson
  obtain b4 where 4: "ad_set_callback ?B h (CbScanStop ?i) b3 = (Inr (), b4)"
    using quiet unfolding quiet_callbacks_def by meson
  obtain b5 where 5: "ad_set_callback ?B h (CbScanUpdated ?i) b4 = (Inr (), b5)"
    using quiet unfolding quiet_callbacks_def by meson
  obtain b6 where 6: "ad_set_callback ?B h (CbScanFound ?i) b5 = (Inr (), b6)"
    using quiet unfolding quiet_callbacks_def by meson
  note defs = new_adapter_def adapter_registry_of_def alloc_def bindA_def seqA_def act_simps
    ble_call_def noexceptA_def new_rb_value_def
  show thesis
  proof (cases r1)
    case (Inl e)
    with 1 show ?thesis by (intro fail [of e b1]) (cases w, simp add: defs)
  next
    case i1: (Inr addr)
    show ?thesis
    proof (cases r2)
      case (Inl e)
      with 1 2 i1 show ?thesis by (intro fail [of Terminated b2]) (cases w, simp add: defs)
    next
      case i2: (Inr addr2)
      let ?h = "hash_adapter (e_types E) (e_hash E) addr2"
      define x where "x = (\<lambda>r. \<lparr>a_self = RObject (w_next_value w), a_ble = Some h, a_addr = addr,
         a_on_scan_start = callback_new 1, a_on_scan_stop = callback_new 1,
         a_on_scan_update = callback_new 2, a_on_scan_find = callback_new 2, a_registry = r\<rparr>)"
      show ?thesis
      proof (cases "map_of (fac_index ?f) ?h")
        case (Some r)
        with 1 2 3 4 5 6 i1 i2 show ?thesis
          by (intro created [where addr = addr2 and x = "x r" and F = ?f and m = "w_next_value w + 1" and b = b6])
            (simp_all add: registry_for_def x_def, cases w,
             simp add: defs factory_registry_def peripheral_class_def in_ctor_def)
      next
        case None
        show ?thesis
        proof (rule created [where addr = addr2 and x = "x (length (fac_regs ?f))" and m = "w_next_value w + 2"
                and F = "add_registry ?h (w_next_value w + 1) (Some ?i) ?f" and b = b6])
          show "registry_for ?h ?i ?f (add_registry ?h (w_next_value w + 1) (Some ?i) ?f) (a_registry (x (length (fac_regs ?f))))"
            using None by (force simp: registry_for_def x_def)
          show "new_adapter E h owner w = (Inr ?i, w\<lparr>w_adapters := w_adapters w @ [Some (x (length (fac_regs ?f)))],
              w_peripheral_regs := add_registry ?h (w_next_value w + 1) (Some ?i) ?f, w_next_value := w_next_value w + 2,
              w_ble := b6\<rparr>)"
            using 1 2 3 4 5 6 i1 i2 None
            by (cases w) (simp add: defs factory_registry_def add_registry_def peripheral_class_def in_ctor_def x_def)
        qed (simp_all add: x_def)
      qed
    qed
  qed
qed

lemma new_adapter_keeps:
  assumes ok: "world_ok E w" and quiet: "quiet_callbacks (e_ble E)"
    and new: "new_adapter E h owner w = (res, w')"
  shows "world_ok E w' \<and> w_adapter_regs w' = w_adapter_regs w \<and> w_during_gc w' = w_during_gc w \<and>
    (\<forall>i k. res = Inr i \<longrightarrow> good_in w_adapters fits_adapter w' i k None)"
  using quiet
proof (cases rule: new_adapter_run [where h = h and owner = owner and w = w])
  case fail
  with new ok show ?thesis by auto
next
  case (created x F m addr b)
  have "world_ok E (w\<lparr>w_adapters := w_adapters w @ [Some x], w_peripheral_regs := F\<rparr>)"
    by (rule world_ok_add_adapter [OF ok created(2,1)])
  with created(9) new show ?thesis
    by (auto simp: world_ok_def objects_ok_defs good_in_def fits_adapter_def)
qed

definition graph_ok :: "'b env \<Rightarrow> 'b world \<Rightarrow> bool" where
  "graph_ok E w \<longleftrightarrow> quiet_callbacks (e_ble E) \<and> world_ok E w"

lemma graph_okD: "graph_ok E w \<Longrightarrow> world_ok E w" "graph_ok E w \<Longrightarrow> quiet_callbacks (e_ble E)"
  by (simp_all add: graph_ok_def)

interpretation per: proxy_registry "peripheral_class E" "graph_ok E"
    "good_in w_peripherals fits_peripheral" for E :: "'b env"
proof unfold_locales
  fix w w' :: "'b world" and r v res and u i key
  let ?C = "peripheral_class E"
  assume ok: "graph_ok E w" and r: "r < length (fac_regs (pc_get ?C w))"
  obtain o' a where o': "reg_owner_of ?C r w = Some o'" "live (w_adapters w) o' = Some a"
    using ok r by (auto simp: graph_ok_def world_ok_def peripheral_class_def reg_owner_of_def elim: owners_ok_get)
  {
    assume "pc_new ?C v (reg_owner_of ?C r w) w = (res, w')"
    then have "new_peripheral E v (Some o') w = (res, w')" by (simp add: o'(1)) (simp add: peripheral_class_def)
    from new_peripheral_keeps [OF graph_okD(1) [OF ok] graph_okD(2) [OF ok] o'(2) this] ok
    show "graph_ok E w' \<and> pc_get ?C w' = pc_get ?C w \<and> pc_gc ?C w' = pc_gc ?C w"
      by (simp add: peripheral_class_def graph_ok_def)
  next
    assume "pc_new ?C v (reg_owner_of ?C r w) w = (Inr i, w')"
    then have "new_peripheral E v (Some o') w = (Inr i, w')"
      by (simp add: o'(1)) (simp add: peripheral_class_def)
    from new_peripheral_keeps [OF graph_okD(1) [OF ok] graph_okD(2) [OF ok] o'(2) this] ok
    show "good_in w_peripherals fits_peripheral w' i key (reg_owner_of ?C r w)"
      by (simp add: o'(1))
  next
    show "map_ok (reg_data ?C r w)"
      using reg_ok_data [OF world_ok_regs(2) [OF graph_okD(1) [OF ok]]] r
      by (simp add: peripheral_class_def reg_data_def)
  next
    assume "map_find (reg_data ?C r w) key = Some i"
    then show "good_in w_peripherals fits_peripheral w i key (reg_owner_of ?C r w)"
      using good_in_find [where store = w_peripherals, OF world_ok_regs(2) [OF graph_okD(1) [OF ok]]] r
      by (simp add: peripheral_class_def reg_data_def reg_owner_of_def)
  next
    assume "good_in w_peripherals fits_peripheral w i key (reg_owner_of ?C r w)"
    then show "graph_ok E (pc_upd ?C (reg_store r (map_emplace key i (reg_data ?C r w))) w)"
      using world_ok_register(3) [OF graph_okD(1) [OF ok]] r ok
      by (simp add: peripheral_class_def reg_data_def reg_owner_of_def graph_ok_def)
  }
qed (auto simp: peripheral_class_def graph_ok_def ble_call_def split: prod.splits)

interpretation adp: proxy_registry "adapter_class E" "graph_ok E"
    "\<lambda>w i k owner. good_in w_adapters fits_adapter w i k None" for E :: "'b env"
proof unfold_locales
  fix w w' :: "'b world" and r v res and u i key
  let ?C = "adapter_class E"
  assume ok: "graph_ok E w" and r: "r < length (fac_regs (pc_get ?C w))"
  {
    assume "pc_new ?C v (reg_owner_of ?C r w) w = (res, w')"
    then have "new_adapter E v (reg_owner_of ?C r w) w = (res, w')" by (simp add: adapter_class_def)
    from new_adapter_keeps [OF graph_okD(1) [OF ok] graph_okD(2) [OF ok] this] ok
    show "graph_ok E w' \<and> pc_get ?C w' = pc_get ?C w \<and> pc_gc ?C w' = pc_gc ?C w"
      by (simp add: adapter_class_def graph_ok_def)
  next
    assume "pc_new ?C v (reg_owner_of ?C r w) w = (Inr i, w')"
    then have "new_adapter E v (reg_owner_of ?C r w) w = (Inr i, w')" by (simp add: adapter_class_def)
    from new_adapter_keeps [OF graph_okD(1) [OF ok] graph_okD(2) [OF ok] this] ok
    show "good_in w_adapters fits_adapter w' i key None" by simp
  next
    show "map_ok (reg_data ?C r w)"
      using reg_ok_data [OF world_ok_regs(1) [OF graph_okD(1) [OF ok]]] r
      by (simp add: adapter_class_def reg_data_def)
  next
    assume "map_find (reg_data ?C r w) key = Some i"
    then show "good_in w_adapters fits_adapter w i key None"
      using reg_ok_find [OF world_ok_regs(1) [OF graph_okD(1) [OF ok]]] r
      by (auto simp: adapter_class_def reg_data_def good_in_def fits_adapter_def)
  next
    assume "good_in w_adapters fits_adapter w i key None"
    then show "graph_ok E (pc_upd ?C (reg_store r (map_emplace key i (reg_data ?C r w))) w)"
      using world_ok_register(4) [OF graph_okD(1) [OF ok]] r ok
      by (simp add: adapter_class_def reg_data_def graph_ok_def good_in_def fits_adapter_def)
  }
qed (auto simp: adapter_class_def graph_ok_def ble_call_def split: prod.splits)

end
