(* ===== verification/Gatt_Access.thy ===== *)
theory Gatt_Access imports Gatt_Objects Text_Join begin

text \<open>
  The operations of peripherals, services, characteristics and descriptors
  (\<open>bindings/Peripheral.cpp\<close>, \<open>Service.cpp\<close>, \<open>Characteristic.cpp\<close>, \<open>Descriptor.cpp\<close>), each with the object it is
  called on, \<open>this\<close>, as an argument.
\<close>

subsection \<open>Peripheral\<close>

definition per_call :: "nat \<Rightarrow> (ble_handle \<Rightarrow> ('b, 'a) act) \<Rightarrow> ('b world, 'a) act" where
  "per_call p f = bindA (deref w_peripherals p) (\<lambda>per. ble_call (f (p_ble per)))"

definition peripheral_initialized :: "'b env \<Rightarrow> nat \<Rightarrow> ('b world, bool) act" where
  "peripheral_initialized E p = per_call p (pe_initialized (e_ble E))"

definition peripheral_identifier :: "'b env \<Rightarrow> nat \<Rightarrow> ('b world, string) act" where
  "peripheral_identifier E p = per_call p (pe_identifier (e_ble E))"

definition peripheral_rssi :: "'b env \<Rightarrow> nat \<Rightarrow> ('b world, 16 word) act" where
  "peripheral_rssi E p = per_call p (pe_rssi (e_ble E))"

definition peripheral_tx_power :: "'b env \<Rightarrow> nat \<Rightarrow> ('b world, 16 word) act" where
  "peripheral_tx_power E p = per_call p (pe_tx_power (e_ble E))"

definition peripheral_mtu :: "'b env \<Rightarrow> nat \<Rightarrow> ('b world, 16 word) act" where
  "peripheral_mtu E p = per_call p (pe_mtu (e_ble E))"

definition peripheral_is_connected :: "'b env \<Rightarrow> nat \<Rightarrow> ('b world, bool) act" where
  "peripheral_is_connected E p = per_call p (pe_is_connected (e_ble E))"

definition peripheral_is_connectable :: "'b env \<Rightarrow> nat \<Rightarrow> ('b world, bool) act" where
  "peripheral_is_connectable E p = per_call p (pe_is_connectable (e_ble E))"

definition peripheral_is_paired :: "'b env \<Rightarrow> nat \<Rightarrow> ('b world, bool) act" where
  "peripheral_is_paired E p = per_call p (pe_is_paired (e_ble E))"

definition peripheral_connect :: "'b env \<Rightarrow> nat \<Rightarrow> ('b world, unit) act" where
  "peripheral_connect E p = per_call p (pe_connect (e_ble E))"

definition peripheral_disconnect :: "'b env \<Rightarrow> nat \<Rightarrow> ('b world, unit) act" where
  "peripheral_disconnect E p = per_call p (pe_disconnect (e_ble E))"

definition peripheral_unpair :: "'b env \<Rightarrow> nat \<Rightarrow> ('b world, unit) act" where
  "peripheral_unpair E p = per_call p (pe_unpair (e_ble E))"

definition peripheral_address :: "nat \<Rightarrow> ('b world, address) act" where
  "peripheral_address p = bindA (deref w_peripherals p) (\<lambda>per. retA (p_addr per))"

definition peripheral_address_type :: "nat \<Rightarrow> ('b world, address_type) act" where
  "peripheral_address_type p = bindA (deref w_peripherals p) (\<lambda>per. retA (p_addr_type per))"

definition manufacturer_data :: "'b env \<Rightarrow> nat \<Rightarrow> ('b world, (16 word, byte_array) std_map) act" where
  "manufacturer_data E p = bindA (per_call p (pe_manufacturer_data (e_ble E))) (\<lambda>data.
     retA (map_from_range (map (\<lambda>(k, v). (k, ByteArray v)) data)))"

definition StatusFlagNames :: fields where
  "StatusFlagNames = [''initialized'', ''connected'', ''connectable'', ''paired'']"

text \<open>
  \<open>status_flags\<close>: the tests of the map run one after the other, and each sets the flag of its name.
  The order in which an \<open>unordered_map\<close> is walked is not specified; the one here is that of its
  initialiser.
\<close>

fun run_flag_tests :: "fields \<Rightarrow> (string \<times> ('w, bool) act) list \<Rightarrow> bitset \<Rightarrow> ('w, bitset) act" where
  "run_flag_tests flds [] bits = retA bits"
| "run_flag_tests flds ((name, test) # ts) bits =
     bindA test (\<lambda>b. bindA (liftA (nbs_assign flds name b bits)) (run_flag_tests flds ts))"

definition peripheral_status_flags :: "'b env \<Rightarrow> nat \<Rightarrow> ('b world, bitset) act" where
  "peripheral_status_flags E p = run_flag_tests StatusFlagNames
     [(''initialized'', peripheral_initialized E p), (''paired'', peripheral_is_paired E p),
      (''connected'', peripheral_is_connected E p), (''connectable'', peripheral_is_connectable E p)]
     (nbs_empty StatusFlagNames)"

definition peripheral_statuses :: "'b env \<Rightarrow> nat \<Rightarrow> ('b world, string list) act" where
  "peripheral_statuses E p =
     bindA (peripheral_status_flags E p) (\<lambda>bits. retA (flag_names StatusFlagNames bits))"

definition services :: "'b env \<Rightarrow> nat \<Rightarrow> ('b world, (uuid, nat) std_map) act" where
  "services E p = bindA (deref w_peripherals p) (\<lambda>per.
     bindA (getA w_during_gc) (\<lambda>gc.
     seqA (if \<not> gc
           then bindA (ble_call (pe_services (e_ble E) (p_ble per)))
                  (fetch_all (service_class E) (p_registry per))
           else retA ())
       (getA (reg_data (service_class E) (p_registry per)))))"

text \<open>\<open>try { ... } catch (std::out_of_range &)\<close>\<close>

definition catch_out_of_range :: "('w, 'a) act \<Rightarrow> 'a \<Rightarrow> ('w, 'a) act" where
  "catch_out_of_range m x w = (case m w of (Inl OutOfRange, w') \<Rightarrow> (Inr x, w') | rw \<Rightarrow> rw)"

text \<open>
  \<open>operator[]\<close> of a peripheral; the condition of its refresh tests the pointer to the registry, which
  is never null, where the comment wants the registry not to contain the key.
\<close>

definition peripheral_index :: "'b env \<Rightarrow> nat \<Rightarrow> uuid \<Rightarrow> ('b world, nat option) act" where
  "peripheral_index E p svcUuid = bindA (deref w_peripherals p) (\<lambda>per.
     catch_out_of_range
       (let registry_set = True; C = service_class E; r = p_registry per
        in bindA (getA (reg_contains C r svcUuid)) (\<lambda>found.
           seqA (if registry_set \<or> \<not> found then seqA (services E p) (retA ()) else retA ())
             (bindA (reg_at C r svcUuid) (\<lambda>s. retA (Some s)))))
       None)"

definition peripheral_read :: "'b env \<Rightarrow> nat \<Rightarrow> uuid \<Rightarrow> uuid \<Rightarrow> ('b world, byte_array) act" where
  "peripheral_read E p service characteristic =
     bindA (per_call p (\<lambda>h. pe_read (e_ble E) h service characteristic)) (\<lambda>d. retA (ByteArray d))"

definition peripheral_read_descriptor :: "'b env \<Rightarrow> nat \<Rightarrow> uuid \<Rightarrow> uuid \<Rightarrow> uuid \<Rightarrow> ('b world, byte_array) act" where
  "peripheral_read_descriptor E p service characteristic descriptor =
     bindA (per_call p (\<lambda>h. pe_read_descriptor (e_ble E) h service characteristic descriptor))
       (\<lambda>d. retA (ByteArray d))"

definition peripheral_write :: "'b env \<Rightarrow> nat \<Rightarrow> uuid \<Rightarrow> uuid \<Rightarrow> uuid \<Rightarrow> byte_array \<Rightarrow> ('b world, unit) act" where
  "peripheral_write E p service characteristic descriptor data =
     per_call p (\<lambda>h. pe_write_descriptor (e_ble E) h service characteristic descriptor (ba_data data))"

definition peripheral_write_request :: "'b env \<Rightarrow> nat \<Rightarrow> uuid \<Rightarrow> uuid \<Rightarrow> byte_array \<Rightarrow> ('b world, unit) act" where
  "peripheral_write_request E p service characteristic data =
     per_call p (\<lambda>h. pe_write_request (e_ble E) h service characteristic (ba_data data))"

definition peripheral_write_command :: "'b env \<Rightarrow> nat \<Rightarrow> uuid \<Rightarrow> uuid \<Rightarrow> byte_array \<Rightarrow> ('b world, unit) act" where
  "peripheral_write_command E p service characteristic data =
     per_call p (\<lambda>h. pe_write_command (e_ble E) h service characteristic (ba_data data))"

definition peripheral_unsubscribe :: "'b env \<Rightarrow> nat \<Rightarrow> uuid \<Rightarrow> uuid \<Rightarrow> ('b world, unit) act" where
  "peripheral_unsubscribe E p service characteristic =
     per_call p (\<lambda>h. pe_unsubscribe (e_ble E) h service characteristic)"

definition set_peripheral :: "nat \<Rightarrow> (peripheral \<Rightarrow> peripheral) \<Rightarrow> 'b world \<Rightarrow> 'b world" where
  "set_peripheral p f = w_peripherals_update (\<lambda>s. s[p := map_option f (s ! p)])"

definition peripheral_on_connect :: "nat \<Rightarrow> rb_value \<Rightarrow> ('b world, unit) act" where
  "peripheral_on_connect p cb = bindA (deref w_peripherals p) (\<lambda>per.
     case callback_set cb (p_on_connected per) of (r, cb') \<Rightarrow>
       seqA (modifyA (set_peripheral p (\<lambda>x. x\<lparr>p_on_connected := cb'\<rparr>))) (liftA r))"

definition peripheral_on_disconnect :: "nat \<Rightarrow> rb_value \<Rightarrow> ('b world, unit) act" where
  "peripheral_on_disconnect p cb = bindA (deref w_peripherals p) (\<lambda>per.
     case callback_set cb (p_on_disconnected per) of (r, cb') \<Rightarrow>
       seqA (modifyA (set_peripheral p (\<lambda>x. x\<lparr>p_on_disconnected := cb'\<rparr>))) (liftA r))"

subsection \<open>Service\<close>

definition service_data :: "nat \<Rightarrow> ('b world, byte_array) act" where
  "service_data s = bindA (deref w_services s) (\<lambda>svc. retA (ByteArray (bs_data (s_ble svc))))"

definition service_characteristics :: "'b env \<Rightarrow> nat \<Rightarrow> ('b world, (uuid, nat) std_map) act" where
  "service_characteristics E s = bindA (deref w_services s) (\<lambda>svc.
     bindA (getA w_during_gc) (\<lambda>gc.
     seqA (if \<not> gc
           then fetch_all (characteristic_class E) (s_registry svc) (bs_characteristics (s_ble svc))
           else retA ())
       (getA (reg_data (characteristic_class E) (s_registry svc)))))"

definition service_index :: "'b env \<Rightarrow> nat \<Rightarrow> uuid \<Rightarrow> ('b world, nat) act" where
  "service_index E s charUuid = bindA (deref w_services s) (\<lambda>svc.
     let C = characteristic_class E; r = s_registry svc
     in bindA (getA (reg_contains C r charUuid)) (\<lambda>found.
        seqA (if \<not> found then seqA (service_characteristics E s) (retA ()) else retA ())
          (reg_at C r charUuid)))"

definition service_read :: "'b env \<Rightarrow> nat \<Rightarrow> uuid \<Rightarrow> ('b world, byte_array) act" where
  "service_read E s characteristic =
     bindA (deref w_services s) (\<lambda>svc. peripheral_read E (s_owner svc) (s_uuid svc) characteristic)"

definition service_read_descriptor :: "'b env \<Rightarrow> nat \<Rightarrow> uuid \<Rightarrow> uuid \<Rightarrow> ('b world, byte_array) act" where
  "service_read_descriptor E s characteristic descriptor =
     bindA (deref w_services s) (\<lambda>svc.
       peripheral_read_descriptor E (s_owner svc) (s_uuid svc) characteristic descriptor)"

definition service_write :: "'b env \<Rightarrow> nat \<Rightarrow> uuid \<Rightarrow> uuid \<Rightarrow> byte_array \<Rightarrow> ('b world, unit) act" where
  "service_write E s characteristic descriptor data =
     bindA (deref w_services s) (\<lambda>svc.
       peripheral_write E (s_owner svc) (s_uuid svc) characteristic descriptor data)"

definition service_write_request :: "'b env \<Rightarrow> nat \<Rightarrow> uuid \<Rightarrow> byte_array \<Rightarrow> ('b world, unit) act" where
  "service_write_request E s characteristic data =
     bindA (deref w_services s) (\<lambda>svc.
       peripheral_write_request E (s_owner svc) (s_uuid svc) characteristic data)"

definition service_write_command :: "'b env \<Rightarrow> nat \<Rightarrow> uuid \<Rightarrow> byte_array \<Rightarrow> ('b world, unit) act" where
  "service_write_command E s characteristic data =
     bindA (deref w_services s) (\<lambda>svc.
       peripheral_write_command E (s_owner svc) (s_uuid svc) characteristic data)"

definition service_unsubscribe :: "'b env \<Rightarrow> nat \<Rightarrow> uuid \<Rightarrow> ('b world, unit) act" where
  "service_unsubscribe E s characteristic =
     bindA (deref w_services s) (\<lambda>svc. peripheral_unsubscribe E (s_owner svc) (s_uuid svc) characteristic)"

subsection \<open>Characteristic\<close>

text \<open>\<open>Descriptor::make_map\<close>: one new descriptor for each UUID, the first one kept.\<close>

fun make_map :: "uuid list \<Rightarrow> nat \<Rightarrow> (uuid, descriptor) std_map \<Rightarrow> ('b world, (uuid, descriptor) std_map) act" where
  "make_map [] owner result = retA result"
| "make_map (u # us) owner result = bindA new_rb_value (\<lambda>self.
     make_map us owner (map_emplace u \<lparr>d_uuid = u, d_owner = owner, d_self = RObject self\<rparr> result))"

definition descriptors :: "nat \<Rightarrow> ('b world, (uuid, descriptor) std_map) act" where
  "descriptors c = bindA (deref w_characteristics c) (\<lambda>ch.
     case c_descriptors ch of
       Some m \<Rightarrow> retA m
     | None \<Rightarrow> bindA (make_map (bc_descriptors (c_ble ch)) c []) (\<lambda>result.
         seqA (modifyA (set_characteristic c (\<lambda>ch. ch\<lparr>c_descriptors := Some result\<rparr>))) (retA result)))"

definition characteristic_index :: "nat \<Rightarrow> uuid \<Rightarrow> ('b world, descriptor) act" where
  "characteristic_index c descUuid = bindA (deref w_characteristics c) (\<lambda>ch.
     seqA (if (case c_descriptors ch of None \<Rightarrow> True | Some m \<Rightarrow> \<not> map_contains m descUuid)
           then seqA (descriptors c) (retA ()) else retA ())
       (bindA (deref w_characteristics c) (\<lambda>ch. case c_descriptors ch of
          None \<Rightarrow> throwA UndefinedBehaviour | Some m \<Rightarrow> liftA (map_at m descUuid))))"

definition capability_names :: "nat \<Rightarrow> ('b world, string list) act" where
  "capability_names c = bindA (capabilities c) (\<lambda>bits. retA (flag_names CAPABILITY_NAMES bits))"

text \<open>The value tracker of a characteristic (\<open>CharacteristicValueTracker\<close>).\<close>

definition characteristic_value_tracking :: "nat \<Rightarrow> ('b world, bool) act" where
  "characteristic_value_tracking c = bindA (has_capability c ''notify'') (\<lambda>can_notify.
     bindA (deref w_characteristics c) (\<lambda>ch. retA (value_tracking can_notify (c_tracker ch))))"

definition characteristic_set_value_tracking :: "nat \<Rightarrow> bool \<Rightarrow> ('b world, unit) act" where
  "characteristic_set_value_tracking c new_value =
     bindA (if new_value then has_capability c ''notify'' else retA False) (\<lambda>can_notify.
     bindA (deref w_characteristics c) (\<lambda>ch.
     case set_value_tracking can_notify new_value (c_tracker ch) of (r, t) \<Rightarrow>
       seqA (modifyA (set_characteristic c (\<lambda>ch. ch\<lparr>c_tracker := t\<rparr>))) (liftA r)))"

definition characteristic_record :: "nat \<Rightarrow> byte_array \<Rightarrow> ('b world, bool) act" where
  "characteristic_record c data = bindA (has_capability c ''notify'') (\<lambda>can_notify.
     bindA (deref w_characteristics c) (\<lambda>ch.
     case record_new_value can_notify data (c_tracker ch) of (changed, t) \<Rightarrow>
       seqA (modifyA (set_characteristic c (\<lambda>ch. ch\<lparr>c_tracker := t\<rparr>))) (retA changed)))"

definition characteristic_read :: "'b env \<Rightarrow> nat \<Rightarrow> bool \<Rightarrow> ('b world, byte_array) act" where
  "characteristic_read E c force =
     bindA (if force then retA False else characteristic_value_tracking c) (\<lambda>tracking.
     bindA (deref w_characteristics c) (\<lambda>ch.
     case (if tracking then last_value (c_tracker ch) else None) of
       Some v \<Rightarrow> retA v
     | None \<Rightarrow> bindA (service_read E (c_owner ch) (c_uuid ch)) (\<lambda>value.
         seqA (characteristic_record c value) (retA value))))"

definition characteristic_read_descriptor :: "'b env \<Rightarrow> nat \<Rightarrow> uuid \<Rightarrow> ('b world, byte_array) act" where
  "characteristic_read_descriptor E c descriptor =
     bindA (deref w_characteristics c) (\<lambda>ch. service_read_descriptor E (c_owner ch) (c_uuid ch) descriptor)"

definition characteristic_write :: "'b env \<Rightarrow> nat \<Rightarrow> uuid \<Rightarrow> byte_array \<Rightarrow> ('b world, unit) act" where
  "characteristic_write E c descriptor data =
     bindA (deref w_characteristics c) (\<lambda>ch. service_write E (c_owner ch) (c_uuid ch) descriptor data)"

definition characteristic_write_request :: "'b env \<Rightarrow> nat \<Rightarrow> byte_array \<Rightarrow> ('b world, unit) act" where
  "characteristic_write_request E c data =
     bindA (deref w_characteristics c) (\<lambda>ch. service_write_request E (c_owner ch) (c_uuid ch) data)"

definition characteristic_write_command :: "'b env \<Rightarrow> nat \<Rightarrow> byte_array \<Rightarrow> ('b world, unit) act" where
  "characteristic_write_command E c data =
     bindA (deref w_characteristics c) (\<lambda>ch. service_write_command E (c_owner ch) (c_uuid ch) data)"

definition characteristic_unsubscribe :: "'b env \<Rightarrow> nat \<Rightarrow> ('b world, unit) act" where
  "characteristic_unsubscribe E c =
     bindA (deref w_characteristics c) (\<lambda>ch. service_unsubscribe E (c_owner ch) (c_uuid ch))"

definition set_on_notify :: "nat \<Rightarrow> rb_value \<Rightarrow> ('b world, unit) act" where
  "set_on_notify c cb = bindA (deref w_characteristics c) (\<lambda>ch.
     let cur = (case c_on_notify ch of None \<Rightarrow> callback_new 2 | Some k \<Rightarrow> k)
     in case callback_set cb cur of (r, cb') \<Rightarrow>
       seqA (modifyA (set_characteristic c (\<lambda>ch. ch\<lparr>c_on_notify := Some cb'\<rparr>))) (liftA r))"

definition set_on_indicate :: "nat \<Rightarrow> rb_value \<Rightarrow> ('b world, unit) act" where
  "set_on_indicate c cb = bindA (deref w_characteristics c) (\<lambda>ch.
     let cur = (case c_on_indicate ch of None \<Rightarrow> callback_new 2 | Some k \<Rightarrow> k)
     in case callback_set cb cur of (r, cb') \<Rightarrow>
       seqA (modifyA (set_characteristic c (\<lambda>ch. ch\<lparr>c_on_indicate := Some cb'\<rparr>))) (liftA r))"

definition fire_on_notify :: "'b env \<Rightarrow> nat \<Rightarrow> byte_array \<Rightarrow> ('b world, unit) act" where
  "fire_on_notify E c data = bindA (characteristic_record c data) (\<lambda>changed.
     if \<not> changed then retA ()
     else bindA (deref w_characteristics c) (\<lambda>ch. case c_on_notify ch of
            None \<Rightarrow> retA ()
          | Some k \<Rightarrow> seqA (fire E k [RString (ba_data data), c_self ch]) (retA ())))"

definition fire_on_indicate :: "'b env \<Rightarrow> nat \<Rightarrow> byte_array \<Rightarrow> ('b world, unit) act" where
  "fire_on_indicate E c data = bindA (deref w_characteristics c) (\<lambda>ch. case c_on_indicate ch of
       None \<Rightarrow> retA ()
     | Some k \<Rightarrow> seqA (fire E k [RString (ba_data data), c_self ch]) (retA ()))"

subsection \<open>Descriptor\<close>

definition descriptor_read :: "'b env \<Rightarrow> descriptor \<Rightarrow> ('b world, byte_array) act" where
  "descriptor_read E d = characteristic_read_descriptor E (d_owner d) (d_uuid d)"

definition descriptor_write :: "'b env \<Rightarrow> descriptor \<Rightarrow> byte_array \<Rightarrow> ('b world, unit) act" where
  "descriptor_write E d data = characteristic_write E (d_owner d) (d_uuid d) data"

subsection \<open>The operations keep the object graph\<close>

lemma graph_ok_frame [simp]:
  "graph_ok E (w\<lparr>w_ble := b\<rparr>) = graph_ok E w"
  "graph_ok E (w\<lparr>w_next_value := n\<rparr>) = graph_ok E w"
  "graph_ok E (w\<lparr>w_pushed := ps\<rparr>) = graph_ok E w"
  "graph_ok E (w\<lparr>w_calls := cs\<rparr>) = graph_ok E w"
  "graph_ok E (w\<lparr>w_deinit_called := d\<rparr>) = graph_ok E w"
  "graph_ok E (w\<lparr>w_flag_check_this := t\<rparr>) = graph_ok E w"
  "graph_ok E (w\<lparr>w_queue_stopped := q\<rparr>) = graph_ok E w"
  by (simp_all add: graph_ok_def)

lemma graph_ble_call [inv_intros]: "keeps (graph_ok E) (ble_call m)"
  by (rule keepsI) (simp add: ble_call_def split: prod.splits)

lemma graph_per_call [inv_intros]: "keeps (graph_ok E) (per_call p f)"
  unfolding per_call_def by (intro inv_intros)

lemma graph_new_rb_value [inv_intros]: "keeps (graph_ok E) new_rb_value"
  by (rule keepsI) (simp add: new_rb_value_def)

lemma graph_set_characteristic [inv_intros]:
  "(\<And>x. c_uuid (f x) = c_uuid x \<and> c_owner (f x) = c_owner x) \<Longrightarrow>
     keeps (graph_ok E) (modifyA (set_characteristic c f))"
  by (rule keepsI) (auto simp: act_simps graph_ok_def intro: world_ok_set_characteristic)

lemma world_ok_set_peripheral:
  assumes "world_ok E w" and "\<And>x. p_owner (f x) = p_owner x \<and> p_registry (f x) = p_registry x"
  shows "world_ok E (set_peripheral p f w)"
proof -
  have "reg_ok (w_peripherals (set_peripheral p f w)) fits_peripheral (w_peripheral_regs w)"
    by (rule reg_ok_mono [of "w_peripherals w"])
      (use assms in \<open>auto simp: world_ok_def set_peripheral_def fits_peripheral_def\<close>)
  moreover have "owners_ok (w_peripherals (set_peripheral p f w)) (w_service_regs w)"
    by (rule owners_ok_mono [of "w_peripherals w"])
      (use assms in \<open>auto simp: world_ok_def set_peripheral_def\<close>)
  ultimately show ?thesis using assms
    by (auto simp: world_ok_def objects_ok_defs set_peripheral_def split: if_splits)
qed

lemma graph_set_peripheral [inv_intros]:
  "(\<And>x. p_owner (f x) = p_owner x \<and> p_registry (f x) = p_registry x) \<Longrightarrow>
     keeps (graph_ok E) (modifyA (set_peripheral p f))"
  by (rule keepsI) (auto simp: act_simps graph_ok_def intro: world_ok_set_peripheral)

lemma graph_capabilities [inv_intros]:
  "keeps (graph_ok E) (capabilities c)" "keeps (graph_ok E) (has_capability c name)"
  unfolding has_capability_def capabilities_def by (intro inv_intros, simp)+

lemma graph_fire [inv_intros]: "keeps (graph_ok E) (fire F k args)"
  by (rule keepsI) (simp add: fire_def Let_def seqA_def bindA_def act_simps split: sum.splits)

lemma keeps_prod [inv_intros]: "(\<And>a b. keeps P (f a b)) \<Longrightarrow> keeps P (case x of (a, b) \<Rightarrow> f a b)"
  by (cases x) simp

lemma graph_run_flag_tests [inv_intros]:
  "(\<And>n t. (n, t) \<in> set ts \<Longrightarrow> keeps (graph_ok E) t) \<Longrightarrow> keeps (graph_ok E) (run_flag_tests flds ts bits)"
proof (induction flds ts bits rule: run_flag_tests.induct)
  case (2 flds name test ts bits)
  have "keeps (graph_ok E) test" by (rule 2(2) [of name]) simp
  moreover have "keeps (graph_ok E) (run_flag_tests flds ts b)" for b
    by (rule 2(1)) (meson 2(2) list.set_intros(2))
  ultimately show ?case by (auto intro!: inv_intros)
qed (simp add: inv_intros)

lemma graph_make_map [inv_intros]: "keeps (graph_ok E) (make_map us owner m)"
  by (induction us owner m rule: make_map.induct) (auto intro!: inv_intros)

lemma graph_descriptors [inv_intros]: "keeps (graph_ok E) (descriptors c)"
  unfolding descriptors_def by (intro inv_intros) simp

lemma graph_record [inv_intros]: "keeps (graph_ok E) (characteristic_record c d)"
  unfolding characteristic_record_def by (intro inv_intros) simp

lemmas characteristic_ops = characteristic_index_def capability_names_def characteristic_value_tracking_def
  characteristic_set_value_tracking_def characteristic_read_def characteristic_read_descriptor_def
  characteristic_write_def characteristic_write_request_def characteristic_write_command_def
  characteristic_unsubscribe_def set_on_notify_def set_on_indicate_def fire_on_notify_def
  fire_on_indicate_def

lemmas service_ops = service_read_def service_read_descriptor_def service_write_def
  service_write_request_def service_write_command_def service_unsubscribe_def service_data_def

lemmas peripheral_ops = peripheral_read_def peripheral_read_descriptor_def peripheral_write_def
  peripheral_write_request_def peripheral_write_command_def peripheral_unsubscribe_def

lemma graph_service_ops [inv_intros]:
  "keeps (graph_ok E) (service_read F s u)" "keeps (graph_ok E) (service_read_descriptor F s u d)"
  "keeps (graph_ok E) (service_write F s u d x)" "keeps (graph_ok E) (service_write_request F s u x)"
  "keeps (graph_ok E) (service_write_command F s u x)" "keeps (graph_ok E) (service_unsubscribe F s u)"
  unfolding service_ops peripheral_ops by (intro inv_intros)+

lemma graph_characteristic_ops [inv_intros]:
  "keeps (graph_ok E) (characteristic_index c u)" "keeps (graph_ok E) (characteristic_value_tracking c)"
  "keeps (graph_ok E) (characteristic_set_value_tracking c b)" "keeps (graph_ok E) (characteristic_read F c b)"
  "keeps (graph_ok E) (characteristic_read_descriptor F c u)" "keeps (graph_ok E) (characteristic_write F c u x)"
  "keeps (graph_ok E) (characteristic_write_request F c x)" "keeps (graph_ok E) (characteristic_write_command F c x)"
  "keeps (graph_ok E) (characteristic_unsubscribe F c)" "keeps (graph_ok E) (set_on_notify c v)"
  "keeps (graph_ok E) (set_on_indicate c v)" "keeps (graph_ok E) (fire_on_notify F c x)"
  "keeps (graph_ok E) (fire_on_indicate F c x)"
  unfolding characteristic_ops Let_def by (intro inv_intros; simp add: inv_intros)+

lemma graph_peripheral_ops [inv_intros]:
  "keeps (graph_ok E) (peripheral_on_connect p v)" "keeps (graph_ok E) (peripheral_on_disconnect p v)"
  "keeps (graph_ok E) (peripheral_status_flags F p)"
  unfolding peripheral_on_connect_def peripheral_on_disconnect_def peripheral_status_flags_def
    peripheral_initialized_def peripheral_is_paired_def peripheral_is_connected_def peripheral_is_connectable_def
  by (intro inv_intros; auto intro: inv_intros)+

end
