(* ===== verification/Adapter_Ops.thy ===== *)
theory Adapter_Ops imports Gatt_Access begin

text \<open>
  \<open>bindings/Adapter.cpp\<close>; the closures the constructors hand to SimpleBLE and the callbacks they push to
  the Ruby queue; and the text forms of the proxies. Which thread runs what is the matter of the
  queue's own model: here SimpleBLE's thread turns an event into pushed items, and \<open>run_item\<close> is what
  the Ruby thread does with one.
\<close>

subsection \<open>Adapter\<close>

definition adapter_get :: "nat \<Rightarrow> ('b world, ble_handle) act" where
  "adapter_get a = bindA (deref w_adapters a) (\<lambda>ad. case a_ble ad of
     None \<Rightarrow> throwA (RuntimeError ''Tried fetching address for unconfigured Adapter instance'')
   | Some h \<Rightarrow> retA h)"

definition ad_call :: "nat \<Rightarrow> (ble_handle \<Rightarrow> ('b, 'a) act) \<Rightarrow> ('b world, 'a) act" where
  "ad_call a f = bindA (adapter_get a) (\<lambda>h. ble_call (f h))"

definition adapter_initialized :: "'b env \<Rightarrow> nat \<Rightarrow> ('b world, bool) act" where
  "adapter_initialized E a = ad_call a (ad_initialized (e_ble E))"

definition adapter_identifier :: "'b env \<Rightarrow> nat \<Rightarrow> ('b world, string) act" where
  "adapter_identifier E a = bindA (deref w_adapters a) (\<lambda>ad.
     if a_ble ad \<noteq> None then ad_call a (ad_identifier (e_ble E)) else retA '''')"

definition adapter_address :: "nat \<Rightarrow> ('b world, address) act" where
  "adapter_address a = bindA (deref w_adapters a) (\<lambda>ad. retA (a_addr ad))"

definition scan_is_active :: "'b env \<Rightarrow> nat \<Rightarrow> ('b world, bool) act" where
  "scan_is_active E a = ad_call a (ad_scan_is_active (e_ble E))"

definition scan_start :: "'b env \<Rightarrow> nat \<Rightarrow> ('b world, unit) act" where
  "scan_start E a = bindA (scan_is_active E a) (\<lambda>active.
     if \<not> active then ad_call a (ad_scan_start (e_ble E)) else retA ())"

definition scan_stop :: "'b env \<Rightarrow> nat \<Rightarrow> ('b world, unit) act" where
  "scan_stop E a = bindA (scan_is_active E a) (\<lambda>active.
     if active then ad_call a (ad_scan_stop (e_ble E)) else retA ())"

definition scan_for :: "'b env \<Rightarrow> nat \<Rightarrow> int \<Rightarrow> ('b world, unit) act" where
  "scan_for E a timeout_ms = ad_call a (\<lambda>h. ad_scan_for (e_ble E) h timeout_ms)"

definition adapter_eq_address :: "adapter \<Rightarrow> address \<Rightarrow> bool" where
  "adapter_eq_address ad addr = (a_addr ad \<noteq> [] \<and> a_addr ad = addr)"

definition adapter_eq :: "adapter \<Rightarrow> adapter \<Rightarrow> bool" where
  "adapter_eq ad ap = adapter_eq_address ad (a_addr ap)"

definition scan_get_results :: "'b env \<Rightarrow> nat \<Rightarrow> ('b world, nat list) act" where
  "scan_get_results E a = bindA (ad_call a (ad_scan_get_results (e_ble E))) (\<lambda>unwrapped.
     bindA (deref w_adapters a) (\<lambda>ad. map_to_objects (peripheral_class E) (a_registry ad) unwrapped))"

definition get_paired_peripherals :: "'b env \<Rightarrow> nat \<Rightarrow> ('b world, nat list) act" where
  "get_paired_peripherals E a = bindA (ad_call a (ad_get_paired_peripherals (e_ble E))) (\<lambda>unwrapped.
     bindA (deref w_adapters a) (\<lambda>ad. map_to_objects (peripheral_class E) (a_registry ad) unwrapped))"

text \<open>\<open>map_to_ruby_objects\<close>: the Ruby objects of the proxies.\<close>

definition ruby_peripherals :: "nat list \<Rightarrow> ('b world, rb_value list) act" where
  "ruby_peripherals ps = mapA (\<lambda>p. bindA (deref w_peripherals p) (\<lambda>per. retA (p_self per))) ps"

definition scan_get_ruby_results :: "'b env \<Rightarrow> nat \<Rightarrow> ('b world, rb_value list) act" where
  "scan_get_ruby_results E a = bindA (scan_get_results E a) ruby_peripherals"

definition get_ruby_paired_peripherals :: "'b env \<Rightarrow> nat \<Rightarrow> ('b world, rb_value list) act" where
  "get_ruby_paired_peripherals E a = bindA (get_paired_peripherals E a) ruby_peripherals"

definition Adapter_bluetooth_enabled :: "'b env \<Rightarrow> ('b world, bool) act" where
  "Adapter_bluetooth_enabled E = ble_call (bluetooth_enabled (e_ble E))"

definition Adapter_get_adapters :: "'b env \<Rightarrow> ('b world, nat list) act" where
  "Adapter_get_adapters E = bindA (ble_call (get_adapters (e_ble E))) (\<lambda>unwrapped.
     bindA (getA w_adapter_registry) (\<lambda>reg. case reg of
       None \<Rightarrow> throwA UndefinedBehaviour
     | Some r \<Rightarrow> map_to_objects (adapter_class E) r unwrapped))"

definition get_ruby_adapters :: "'b env \<Rightarrow> ('b world, rb_value list) act" where
  "get_ruby_adapters E = bindA (Adapter_get_adapters E)
     (mapA (\<lambda>a. bindA (deref w_adapters a) (\<lambda>ad. retA (a_self ad))))"

definition set_adapter :: "nat \<Rightarrow> (adapter \<Rightarrow> adapter) \<Rightarrow> 'b world \<Rightarrow> 'b world" where
  "set_adapter a f = w_adapters_update (\<lambda>s. s[a := map_option f (s ! a)])"

definition on_scan_start :: "nat \<Rightarrow> rb_value \<Rightarrow> ('b world, unit) act" where
  "on_scan_start a new_cb = bindA (deref w_adapters a) (\<lambda>ad.
     case callback_set new_cb (a_on_scan_start ad) of (r, cb) \<Rightarrow>
       seqA (modifyA (set_adapter a (\<lambda>x. x\<lparr>a_on_scan_start := cb\<rparr>))) (liftA r))"

definition on_scan_stop :: "nat \<Rightarrow> rb_value \<Rightarrow> ('b world, unit) act" where
  "on_scan_stop a new_cb = bindA (deref w_adapters a) (\<lambda>ad.
     case callback_set new_cb (a_on_scan_stop ad) of (r, cb) \<Rightarrow>
       seqA (modifyA (set_adapter a (\<lambda>x. x\<lparr>a_on_scan_stop := cb\<rparr>))) (liftA r))"

definition on_scan_update :: "nat \<Rightarrow> rb_value \<Rightarrow> ('b world, unit) act" where
  "on_scan_update a new_cb = bindA (deref w_adapters a) (\<lambda>ad.
     case callback_set new_cb (a_on_scan_update ad) of (r, cb) \<Rightarrow>
       seqA (modifyA (set_adapter a (\<lambda>x. x\<lparr>a_on_scan_update := cb\<rparr>))) (liftA r))"

definition on_scan_find :: "nat \<Rightarrow> rb_value \<Rightarrow> ('b world, unit) act" where
  "on_scan_find a new_cb = bindA (deref w_adapters a) (\<lambda>ad.
     case callback_set new_cb (a_on_scan_find ad) of (r, cb) \<Rightarrow>
       seqA (modifyA (set_adapter a (\<lambda>x. x\<lparr>a_on_scan_find := cb\<rparr>))) (liftA r))"

text \<open>
  \<open>status_flags\<close>. The filter is a \<open>static\<close> lambda that captures \<open>this\<close>: the object of the first call
  serves all later ones. The result is a set; the order here is that of the initialiser.
\<close>

fun filter_flags :: "(string \<times> ('w, bool) act) list \<Rightarrow> ('w, string list) act" where
  "filter_flags [] = retA []"
| "filter_flags ((name, test) # ts) = bindA test (\<lambda>b.
     bindA (filter_flags ts) (\<lambda>names. retA (if b then name # names else names)))"

definition flag_check_this :: "nat \<Rightarrow> ('b world, nat) act" where
  "flag_check_this a = bindA (getA w_flag_check_this) (\<lambda>captured. case captured of
     Some t \<Rightarrow> retA t
   | None \<Rightarrow> seqA (modifyA (\<lambda>w. w\<lparr>w_flag_check_this := Some a\<rparr>)) (retA a))"

definition adapter_status_flags :: "'b env \<Rightarrow> nat \<Rightarrow> ('b world, string list) act" where
  "adapter_status_flags E a = bindA (flag_check_this a) (\<lambda>this.
     filter_flags [(''initialized'', adapter_initialized E this), (''scanning'', scan_is_active E this)])"

subsection \<open>Events and callbacks\<close>

datatype ble_event =
    ScanStarted nat | ScanStopped nat | ScanUpdated nat ble_handle | ScanFound nat ble_handle
  | Connected nat | Disconnected nat | Notified nat bytes | Indicated nat bytes

definition push_item :: "item \<Rightarrow> ('b world, unit) act" where
  "push_item i = modifyA (\<lambda>w. w\<lparr>w_pushed := w_pushed w @ [i]\<rparr>)"

text \<open>
  The closures run on SimpleBLE's thread: they use the proxy they captured and push; the pointers to
  the callbacks they test are never null.
\<close>

fun on_ble_event :: "ble_event \<Rightarrow> ('b world, unit) act" where
  "on_ble_event (ScanStarted a) = bindA (deref w_adapters a) (\<lambda>_. push_item (ItScanStart a))"
| "on_ble_event (ScanStopped a) = bindA (deref w_adapters a) (\<lambda>_. push_item (ItScanStop a))"
| "on_ble_event (ScanUpdated a h) = bindA (deref w_adapters a) (\<lambda>_. push_item (ItScanUpdate a h))"
| "on_ble_event (ScanFound a h) = bindA (deref w_adapters a) (\<lambda>_. push_item (ItScanFind a h))"
| "on_ble_event (Connected p) = bindA (deref w_peripherals p) (\<lambda>_. push_item (ItConnected p))"
| "on_ble_event (Disconnected p) = bindA (deref w_peripherals p) (\<lambda>_. push_item (ItDisconnected p))"
| "on_ble_event (Notified c d) = push_item (ItNotify c (ByteArray d))"
| "on_ble_event (Indicated c d) = push_item (ItIndicate c (ByteArray d))"

text \<open>The bodies of the pushed functions.\<close>

definition fire_scan :: "'b env \<Rightarrow> nat \<Rightarrow> ble_handle \<Rightarrow> (adapter \<Rightarrow> callback) \<Rightarrow> ('b world, unit) act" where
  "fire_scan E a h cb = bindA (deref w_adapters a) (\<lambda>ad.
     bindA (fetch (peripheral_class E) (a_registry ad) h) (\<lambda>wrapped.
     bindA (deref w_peripherals wrapped) (\<lambda>per.
     bindA (deref w_adapters a) (\<lambda>ad.
     seqA (fire E (cb ad) [p_self per, a_self ad]) (retA ())))))"

fun run_item :: "'b env \<Rightarrow> item \<Rightarrow> ('b world, unit) act" where
  "run_item E (ItScanStart a) = bindA (deref w_adapters a) (\<lambda>ad.
     seqA (fire E (a_on_scan_start ad) [a_self ad]) (retA ()))"
| "run_item E (ItScanStop a) = bindA (deref w_adapters a) (\<lambda>ad.
     seqA (fire E (a_on_scan_stop ad) [a_self ad]) (retA ()))"
| "run_item E (ItScanUpdate a h) = fire_scan E a h a_on_scan_update"
| "run_item E (ItScanFind a h) = fire_scan E a h a_on_scan_find"
| "run_item E (ItConnected p) = bindA (deref w_peripherals p) (\<lambda>per.
     seqA (fire E (p_on_connected per) [p_self per]) (retA ()))"
| "run_item E (ItDisconnected p) = bindA (deref w_peripherals p) (\<lambda>per.
     seqA (fire E (p_on_disconnected per) [p_self per]) (retA ()))"
| "run_item E (ItNotify c d) = fire_on_notify E c d"
| "run_item E (ItIndicate c d) = fire_on_indicate E c d"

subsection \<open>Text forms\<close>

text \<open>
  \<open>start\<close> is what \<open>basic_object_inspect_start\<close> gives for the object (its type name and address);
  \<open>super\<close> is what Ruby's \<open>to_s\<close> of the superclass answered, if it is a string.
\<close>

definition int_dec :: "int \<Rightarrow> string" where
  "int_dec i = (if i < 0 then ''-'' @ nat_dec (nat (- i)) else nat_dec (nat i))"

definition bytes_text :: "bytes \<Rightarrow> string" where
  "bytes_text bs = map (\<lambda>b. char_of (unat b)) bs"

definition quote :: string where
  "quote = [CHR 0x22]"

definition adapter_to_s :: "'b env \<Rightarrow> string option \<Rightarrow> string \<Rightarrow> nat \<Rightarrow> ('b world, string) act" where
  "adapter_to_s E super start a =
     (let prefix = (case super of
          Some s \<Rightarrow> (if s \<noteq> [] then butlast s else start) | None \<Rightarrow> start) @ '' ''
      in bindA (adapter_initialized E a) (\<lambda>init.
         if \<not> init then retA (prefix @ ''uninitialized>'')
         else bindA (adapter_address a) (\<lambda>addr.
              bindA (adapter_status_flags E a) (\<lambda>flags.
              retA (prefix @ ''@address='' @ quote @ addr @ quote @ '' '' @ join flags ''|'' @ ''>'')))))"

definition peripheral_to_s :: "'b env \<Rightarrow> string \<Rightarrow> nat \<Rightarrow> ('b world, string) act" where
  "peripheral_to_s E start p =
     bindA (peripheral_initialized E p) (\<lambda>init.
     if \<not> init then retA (start @ '' uninitialized>'')
     else bindA (peripheral_address_type p) (\<lambda>at. bindA (peripheral_address p) (\<lambda>addr.
          bindA (peripheral_identifier E p) (\<lambda>ident. bindA (peripheral_rssi E p) (\<lambda>rssi.
          bindA (peripheral_tx_power E p) (\<lambda>tx. bindA (peripheral_mtu E p) (\<lambda>mtu.
          bindA (per_call p (pe_services (e_ble E))) (\<lambda>svcs. bindA (peripheral_statuses E p) (\<lambda>st.
          retA (start @ '' @address['' @ enum_val_as_string address_type_traits at @ '']='' @ quote @ addr @ quote @ '' '' @
            ''@identifier='' @ quote @ ident @ quote @ '' '' @
            ''@rssi='' @ int_dec (sint rssi) @ '' '' @
            ''@tx_power='' @ int_dec (sint tx) @ '' '' @
            ''@mtu='' @ nat_dec (unat mtu) @ '' '' @
            ''svc_count='' @ nat_dec (length svcs) @ '' '' @
            join st ''|'' @ ''>''))))))))))"

definition service_to_s :: "string \<Rightarrow> nat \<Rightarrow> ('b world, string) act" where
  "service_to_s start s = bindA (deref w_services s) (\<lambda>svc. bindA (service_data s) (\<lambda>data.
     retA (start @ '' @uuid='' @ quote @ s_uuid svc @ quote @ '' @data='' @ quote @
       bytes_text (ba_data data) @ quote @ '' >'')))"

definition characteristic_to_s :: "string \<Rightarrow> nat \<Rightarrow> ('b world, string) act" where
  "characteristic_to_s start c = bindA (deref w_characteristics c) (\<lambda>ch. bindA (capabilities c) (\<lambda>bits.
     retA (start @ '' @uuid='' @ c_uuid ch @ '' @capabilities='' @ nbs_to_s CAPABILITY_NAMES bits @ ''>'')))"

definition descriptor_to_s :: "string \<Rightarrow> descriptor \<Rightarrow> string" where
  "descriptor_to_s start d = start @ '' '' @ d_uuid d @ ''>''"

end
