(* ===== verification/Lifecycle.thy ===== *)
theory Lifecycle imports Adapter_Ops begin

text \<open>
  \<open>DeInit\<close> of \<open>bindings/RuBLE.cpp\<close>, which runs at the end of the Ruby process, and the marking of Ruby
  objects for the garbage collector (the \<open>ruby_mark\<close> members and the specialisations in
  \<open>utils/garbage_collection.cpp\<close>), as the list of Ruby values marked.
\<close>

subsection \<open>Shutdown\<close>

definition deinit_peripheral :: "'b env \<Rightarrow> nat \<Rightarrow> ('b world, unit) act" where
  "deinit_peripheral E p =
     seqA (bindA (peripheral_is_paired E p) (\<lambda>b. if b then peripheral_unpair E p else retA ()))
       (bindA (peripheral_is_connected E p) (\<lambda>b. if b then peripheral_disconnect E p else retA ()))"

definition deinit_adapter :: "'b env \<Rightarrow> nat \<Rightarrow> ('b world, unit) act" where
  "deinit_adapter E a =
     seqA (bindA (scan_is_active E a) (\<lambda>b. if b then scan_stop E a else retA ()))
       (bindA (deref w_adapters a) (\<lambda>ad.
          reg_for_each (peripheral_class E) (a_registry ad) (deinit_peripheral E)))"

text \<open>The class attribute \<open>Peripheral.unpair_all_on_exit\<close> that Ruby can set.\<close>

definition set_unpair_all_on_exit :: "bool \<Rightarrow> ('b world, unit) act" where
  "set_unpair_all_on_exit b = modifyA (\<lambda>w. w\<lparr>w_unpair_all_on_exit := b\<rparr>)"

text \<open>The end of the queue (\<open>RubyQueue::stop_on_exit\<close>) is recorded here and modelled with the queue.\<close>

definition DeInit :: "'b env \<Rightarrow> ('b world, unit) act" where
  "DeInit E = bindA (getA w_deinit_called) (\<lambda>called.
     if called then retA ()
     else seqA (modifyA (\<lambda>w. w\<lparr>w_deinit_called := True\<rparr>))
       (seqA (bindA (getA w_adapter_registry) (\<lambda>reg. bindA (getA w_unpair_all_on_exit) (\<lambda>unpair.
               case reg of
                 Some r \<Rightarrow> if unpair then reg_for_each (adapter_class E) r (deinit_adapter E) else retA ()
               | None \<Rightarrow> retA ())))
         (modifyA (\<lambda>w. w\<lparr>w_queue_stopped := True\<rparr>))))"

subsection \<open>Garbage collection\<close>

definition registry_mark ::
  "('w, 'v) proxy_class \<Rightarrow> (nat \<Rightarrow> 'w \<Rightarrow> rb_value list) \<Rightarrow> nat \<Rightarrow> 'w \<Rightarrow> rb_value list" where
  "registry_mark C mark r w = RObject (reg_self (fac_regs (pc_get C w) ! r)) #
     concat (map (\<lambda>(k, i). mark i w) (reg_data C r w))"

definition option_mark :: "callback option \<Rightarrow> rb_value list" where
  "option_mark cb = (case cb of None \<Rightarrow> [] | Some k \<Rightarrow> callback_mark k)"

text \<open>
  A recorded value was made by the tracker itself and has no Ruby object. There is no specialisation
  of \<open>Rice::ruby_mark\<close> for descriptors, so the loop over them marks nothing.
\<close>

definition characteristic_mark :: "nat \<Rightarrow> 'b world \<Rightarrow> rb_value list" where
  "characteristic_mark c w = (case live (w_characteristics w) c of
     None \<Rightarrow> []
   | Some ch \<Rightarrow> c_self ch # tracker_mark (\<lambda>v. []) (c_tracker ch) @ option_mark (c_on_indicate ch) @
       option_mark (c_on_notify ch))"

text \<open>During a collection \<open>characteristics()\<close> is the content of the registry.\<close>

definition service_mark :: "'b env \<Rightarrow> nat \<Rightarrow> 'b world \<Rightarrow> rb_value list" where
  "service_mark E s w = (case live (w_services w) s of
     None \<Rightarrow> []
   | Some svc \<Rightarrow> s_self svc #
       concat (map (\<lambda>(u, c). characteristic_mark c w) (reg_data (characteristic_class E) (s_registry svc) w)))"

definition peripheral_mark :: "'b env \<Rightarrow> nat \<Rightarrow> 'b world \<Rightarrow> rb_value list" where
  "peripheral_mark E p w = (case live (w_peripherals w) p of
     None \<Rightarrow> []
   | Some per \<Rightarrow> p_self per # callback_mark (p_on_connected per) @ callback_mark (p_on_disconnected per) @
       registry_mark (service_class E) (service_mark E) (p_registry per) w)"

definition adapter_mark :: "'b env \<Rightarrow> nat \<Rightarrow> 'b world \<Rightarrow> rb_value list" where
  "adapter_mark E a w = (case live (w_adapters w) a of
     None \<Rightarrow> []
   | Some ad \<Rightarrow> registry_mark (peripheral_class E) (peripheral_mark E) (a_registry ad) w @
       callback_mark (a_on_scan_start ad) @ callback_mark (a_on_scan_stop ad) @
       callback_mark (a_on_scan_update ad) @ callback_mark (a_on_scan_find ad))"

definition factory_mark ::
  "('w, 'v) proxy_class \<Rightarrow> (nat \<Rightarrow> 'w \<Rightarrow> rb_value list) \<Rightarrow> 'w \<Rightarrow> rb_value list" where
  "factory_mark C mark w = concat (map (\<lambda>r. registry_mark C mark r w @ [RObject (reg_self (fac_regs (pc_get C w) ! r))])
     [0..<length (fac_regs (pc_get C w))])"

end
