(* ===== verification/Gatt_Program.thy ===== *)
theory Gatt_Program imports Lifecycle begin

text \<open>
  The program as a whole: every operation Ruby can call, every event of SimpleBLE and every queued
  callback is a step of \<open>prog_step\<close>, and the object graph is in order in every state these steps
  reach. The properties of the proxies stand on that invariant and on the registries' contract.
\<close>

subsection \<open>Fetching operations keep the object graph\<close>

lemma live_regs:
  assumes "world_ok E w"
  shows "live (w_services w) s = Some svc \<Longrightarrow> s_registry svc < length (fac_regs (w_characteristic_regs w))"
    and "live (w_peripherals w) p = Some per \<Longrightarrow> p_registry per < length (fac_regs (w_service_regs w))"
    and "live (w_adapters w) a = Some ad \<Longrightarrow> a_registry ad < length (fac_regs (w_peripheral_regs w))"
  using assms reg_ok_index [OF world_ok_regs(4) [OF assms]]
  by (fastforce simp: world_ok_def objects_ok_defs)+

lemma classes_simps [simp]:
  "pc_get (characteristic_class E) = w_characteristic_regs" "pc_get (service_class E) = w_service_regs"
  "pc_get (peripheral_class E) = w_peripheral_regs" "pc_get (adapter_class E) = w_adapter_regs"
  "pc_gc (characteristic_class E) = w_during_gc" "pc_gc (service_class E) = w_during_gc"
  "pc_gc (peripheral_class E) = w_during_gc" "pc_gc (adapter_class E) = w_during_gc"
  "pc_key (characteristic_class E) v = retA (bc_uuid v)" "pc_key (service_class E) x = retA (bs_uuid x)"
  by (simp_all add: characteristic_class_def service_class_def peripheral_class_def adapter_class_def)

lemma services_gc:
  "live (w_peripherals w) p = Some per \<Longrightarrow> w_during_gc w \<Longrightarrow>
     services E p w = (Inr (reg_data (service_class E) (p_registry per) w), w)"
  by (simp add: services_def bindA_def deref_def act_simps seqA_def)

lemma services_run:
  assumes "live (w_peripherals w) p = Some per" and "\<not> w_during_gc w"
    and "pe_services (e_ble E) (p_ble per) (w_ble w) = (Inr advertised, b)"
    and "fetch_all (service_class E) (p_registry per) advertised (w\<lparr>w_ble := b\<rparr>) = (r, w')"
  shows "services E p w = (case r of Inl e \<Rightarrow> Inl e | Inr u \<Rightarrow> Inr (reg_data (service_class E) (p_registry per) w'), w')"
  using assms by (simp add: services_def bindA_def deref_def act_simps seqA_def ble_call_def split: sum.splits)

lemma services_error:
  assumes "live (w_peripherals w) p = Some per" and "\<not> w_during_gc w"
    and "pe_services (e_ble E) (p_ble per) (w_ble w) = (Inl e, b)"
  shows "services E p w = (Inl e, w\<lparr>w_ble := b\<rparr>)"
  using assms by (simp add: services_def bindA_def deref_def act_simps seqA_def ble_call_def)

lemma world_services: "world_ok E w \<Longrightarrow> world_ok E (snd (services E p w))"
proof -
  assume ok: "world_ok E w"
  show ?thesis
  proof (cases "live (w_peripherals w) p")
    case None
    then show ?thesis using ok by (simp add: services_def bindA_def deref_def)
  next
    case (Some per)
    show ?thesis
    proof (cases "w_during_gc w")
      case True
      then show ?thesis using ok services_gc [OF Some] by simp
    next
      case False
      obtain ar b where s: "pe_services (e_ble E) (p_ble per) (w_ble w) = (ar, b)" by fastforce
      show ?thesis
      proof (cases ar)
        case (Inl e)
        then show ?thesis using ok services_error [OF Some False] s by simp
      next
        case (Inr advertised)
        obtain r w' where f: "fetch_all (service_class E) (p_registry per) advertised (w\<lparr>w_ble := b\<rparr>) = (r, w')"
          by fastforce
        have "world_ok E w'" using svc.fetch_all_keeps [OF _ _ f] ok live_regs(2) [OF ok Some] by simp
        then show ?thesis using services_run [OF Some False s [unfolded Inr] f] by simp
      qed
    qed
  qed
qed

lemma characteristics_run:
  assumes "live (w_services w) s = Some sv" and "\<not> w_during_gc w"
    and "fetch_all (characteristic_class E) (s_registry sv) (bs_characteristics (s_ble sv)) w = (r, w')"
  shows "service_characteristics E s w =
    (case r of Inl e \<Rightarrow> Inl e | Inr u \<Rightarrow> Inr (reg_data (characteristic_class E) (s_registry sv) w'), w')"
  using assms by (simp add: service_characteristics_def bindA_def deref_def act_simps seqA_def split: sum.splits)

lemma characteristics_gc:
  "live (w_services w) s = Some sv \<Longrightarrow> w_during_gc w \<Longrightarrow>
     service_characteristics E s w = (Inr (reg_data (characteristic_class E) (s_registry sv) w), w)"
  by (simp add: service_characteristics_def bindA_def deref_def act_simps seqA_def)

lemma world_characteristics: "world_ok E w \<Longrightarrow> world_ok E (snd (service_characteristics E s w))"
proof -
  assume ok: "world_ok E w"
  show ?thesis
  proof (cases "live (w_services w) s")
    case None
    then show ?thesis using ok by (simp add: service_characteristics_def bindA_def deref_def)
  next
    case (Some sv)
    show ?thesis
    proof (cases "w_during_gc w")
      case True
      then show ?thesis using ok characteristics_gc [OF Some] by simp
    next
      case False
      obtain r w' where f: "fetch_all (characteristic_class E) (s_registry sv) (bs_characteristics (s_ble sv)) w = (r, w')"
        by fastforce
      have "world_ok E w'" using chr.fetch_all_keeps [OF ok _ f] live_regs(1) [OF ok Some] by simp
      then show ?thesis using characteristics_run [OF Some False f] by simp
    qed
  qed
qed

lemma graph_fetching [inv_intros]:
  "keeps (graph_ok E) (services E p)" "keeps (graph_ok E) (service_characteristics E s)"
  by (auto intro!: keepsI simp: graph_ok_def world_services world_characteristics)

lemma graph_reg_at [inv_intros]: "keeps P (reg_at C r k)"
  by (rule keepsI) (simp add: reg_at_def)

lemma keeps_catch [inv_intros]: "keeps P m \<Longrightarrow> keeps P (catch_out_of_range m x)"
  unfolding keeps_def catch_out_of_range_def
  by (auto split: prod.splits sum.splits error.splits)

lemma graph_index [inv_intros]:
  "keeps (graph_ok E) (peripheral_index E p u)" "keeps (graph_ok E) (service_index E s u)"
  unfolding peripheral_index_def service_index_def Let_def by (intro inv_intros)+

lemma keeps_deref_then:
  assumes "\<And>x w. live (store w) i = Some x \<Longrightarrow> P w \<Longrightarrow> P (snd (f x w))"
  shows "keeps P (bindA (deref store i) f)"
proof (rule keepsI)
  fix w assume "P w"
  then show "P (snd (bindA (deref store i) f w))"
    using assms by (cases "live (store w) i") (simp_all add: bindA_def deref_def)
qed

lemma graph_map_to_objects:
  assumes "graph_ok E w" and "live (w_adapters w) a = Some ad"
  shows "graph_ok E (snd (map_to_objects (peripheral_class E) (a_registry ad) hs w))"
proof -
  obtain r w' where m: "map_to_objects (peripheral_class E) (a_registry ad) hs w = (r, w')" by fastforce
  then show ?thesis
    using per.map_to_objects_keeps [OF assms(1) _ m] live_regs(3) [OF graph_okD(1) [OF assms(1)] assms(2)] by simp
qed

lemma graph_ad_call [inv_intros]: "keeps (graph_ok E) (ad_call a f)"
  unfolding ad_call_def adapter_get_def by (intro inv_intros)

lemma graph_scan [inv_intros]:
  "keeps (graph_ok E) (scan_is_active F a)" "keeps (graph_ok E) (scan_start F a)"
  "keeps (graph_ok E) (scan_stop F a)" "keeps (graph_ok E) (scan_for F a t)"
  unfolding scan_start_def scan_stop_def scan_for_def scan_is_active_def by (intro inv_intros)+

lemma graph_scan_results [inv_intros]:
  "keeps (graph_ok E) (scan_get_results E a)" "keeps (graph_ok E) (get_paired_peripherals E a)"
  unfolding scan_get_results_def get_paired_peripherals_def
  by (intro inv_intros keeps_deref_then; erule (1) graph_map_to_objects [rotated])+

lemma graph_get_adapters [inv_intros]: "keeps (graph_ok E) (Adapter_get_adapters E)"
proof -
  have "graph_ok E (snd (map_to_objects (adapter_class E) r hs w))"
    if "graph_ok E w" "w_adapter_registry w = Some r" for r hs w
  proof -
    obtain ps w' where m: "map_to_objects (adapter_class E) r hs w = (ps, w')" by fastforce
    have "r < length (fac_regs (w_adapter_regs w))" using that by (simp add: graph_ok_def world_ok_def)
    then show ?thesis using adp.map_to_objects_keeps [OF that(1) _ m] m by simp
  qed
  then have "keeps (graph_ok E) (bindA (getA w_adapter_registry) (\<lambda>reg. case reg of
       None \<Rightarrow> throwA UndefinedBehaviour | Some r \<Rightarrow> map_to_objects (adapter_class E) r hs))" for hs
    by (auto intro!: keepsI simp: bindA_def act_simps split: option.splits)
  note each = this
  show ?thesis unfolding Adapter_get_adapters_def by (rule keeps_bindA [OF graph_ble_call each])
qed

lemma world_ok_set_adapter:
  assumes "world_ok E w" and "\<And>x. a_ble (f x) = a_ble x \<and> a_registry (f x) = a_registry x"
  shows "world_ok E (set_adapter a f w)"
proof -
  have "reg_ok (w_adapters (set_adapter a f w)) fits_adapter (w_adapter_regs w)"
    by (rule reg_ok_mono [of "w_adapters w"])
      (use assms in \<open>auto simp: world_ok_def set_adapter_def fits_adapter_def\<close>)
  moreover have "owners_ok (w_adapters (set_adapter a f w)) (w_peripheral_regs w)"
    by (rule owners_ok_mono [of "w_adapters w"]) (use assms in \<open>auto simp: world_ok_def set_adapter_def\<close>)
  ultimately show ?thesis using assms
    by (auto simp: world_ok_def objects_ok_defs set_adapter_def split: if_splits)
qed

lemma graph_set_adapter [inv_intros]:
  "(\<And>x. a_ble (f x) = a_ble x \<and> a_registry (f x) = a_registry x) \<Longrightarrow>
     keeps (graph_ok E) (modifyA (set_adapter a f))"
  by (rule keepsI) (auto simp: act_simps graph_ok_def intro: world_ok_set_adapter)

lemma graph_on_scan [inv_intros]:
  "keeps (graph_ok E) (on_scan_start a v)" "keeps (graph_ok E) (on_scan_stop a v)"
  "keeps (graph_ok E) (on_scan_update a v)" "keeps (graph_ok E) (on_scan_find a v)"
  unfolding on_scan_start_def on_scan_stop_def on_scan_update_def on_scan_find_def
  by (intro inv_intros, simp)+

lemma graph_push [inv_intros]: "keeps (graph_ok E) (push_item i)"
  unfolding push_item_def by (rule keepsI) (simp add: act_simps)

lemma graph_event [inv_intros]: "keeps (graph_ok E) (on_ble_event ev)"
  by (cases ev) (auto intro!: inv_intros)

lemma graph_fetch_peripheral:
  assumes "graph_ok E w" and "live (w_adapters w) a = Some ad"
  shows "graph_ok E (snd (fetch (peripheral_class E) (a_registry ad) h w))"
proof -
  obtain r w' where f: "fetch (peripheral_class E) (a_registry ad) h w = (r, w')" by fastforce
  then show ?thesis
    using per.fetch_keeps [OF assms(1) _ f] live_regs(3) [OF graph_okD(1) [OF assms(1)] assms(2)] by simp
qed

lemma snd_bindA: "P (snd (m w)) \<Longrightarrow> (\<And>x. keeps P (f x)) \<Longrightarrow> P (snd (bindA m f w))"
  by (auto simp: bindA_def keeps_def split: prod.splits sum.splits)

lemma graph_fire_scan [inv_intros]: "keeps (graph_ok E) (fire_scan E a h cb)"
  unfolding fire_scan_def
proof (rule keeps_deref_then)
  fix ad w assume "live (w_adapters w) a = Some ad" and "graph_ok E w"
  then have "graph_ok E (snd (fetch (peripheral_class E) (a_registry ad) h w))"
    by (intro graph_fetch_peripheral)
  then show "graph_ok E (snd (bindA (fetch (peripheral_class E) (a_registry ad) h) (\<lambda>wrapped.
      bindA (deref w_peripherals wrapped) (\<lambda>per. bindA (deref w_adapters a) (\<lambda>ad.
      seqA (fire E (cb ad) [p_self per, a_self ad]) (retA ())))) w))"
    by (rule snd_bindA) (intro inv_intros)
qed

lemma graph_run_item [inv_intros]: "keeps (graph_ok E) (run_item E i)"
  by (cases i) (auto intro!: inv_intros)

lemma graph_filter_flags [inv_intros]:
  "(\<And>n t. (n, t) \<in> set ts \<Longrightarrow> keeps (graph_ok E) t) \<Longrightarrow> keeps (graph_ok E) (filter_flags ts)"
proof (induction ts rule: filter_flags.induct)
  case (2 name test ts)
  have "keeps (graph_ok E) test" by (rule 2(2) [of name]) simp
  moreover have "keeps (graph_ok E) (filter_flags ts)"
    by (rule 2(1)) (meson 2(2) list.set_intros(2))
  ultimately show ?case unfolding filter_flags.simps by (intro inv_intros)
qed (simp add: inv_intros)

lemma graph_modify_flags [inv_intros]:
  "keeps (graph_ok E) (modifyA (\<lambda>w. w\<lparr>w_flag_check_this := t\<rparr>))"
  "keeps (graph_ok E) (modifyA (\<lambda>w. w\<lparr>w_deinit_called := d\<rparr>))"
  "keeps (graph_ok E) (modifyA (\<lambda>w. w\<lparr>w_queue_stopped := d\<rparr>))"
  by (auto intro!: keepsI simp: act_simps)

lemma graph_status_flags [inv_intros]: "keeps (graph_ok E) (adapter_status_flags F a)"
  unfolding adapter_status_flags_def flag_check_this_def adapter_initialized_def
  by (intro inv_intros) (auto simp: inv_intros)

lemma graph_for_each:
  fixes C :: "('b world, 'v) proxy_class"
  assumes "\<And>p. keeps (graph_ok E) (f p)"
  shows "keeps (graph_ok E) (reg_for_each C r f)"
  unfolding reg_for_each_def by (intro inv_intros assms)

lemma graph_deinit [inv_intros]: "keeps (graph_ok E) (DeInit E)"
  unfolding DeInit_def deinit_adapter_def deinit_peripheral_def peripheral_is_paired_def
    peripheral_unpair_def peripheral_is_connected_def peripheral_disconnect_def
  by (intro inv_intros graph_for_each)

lemma world_ok_init_registries:
  assumes "world_ok E w"
  shows "world_ok E (snd (Init_Registries E w))"
proof -
  let ?f = "w_adapter_regs w"
  have add: "world_ok E (w\<lparr>w_adapter_regs := add_registry 0 n None ?f, w_next_value := m,
      w_adapter_registry := Some (length (fac_regs ?f))\<rparr>)" for n m
  proof -
    have "\<forall>r. w_adapter_registry w = Some r \<longrightarrow> r < length (fac_regs ?f)"
      using assms by (simp add: world_ok_def)
    then show ?thesis using assms by (simp add: world_ok_def objects_ok_defs reg_ok_add)
  qed
  have found: "world_ok E (w\<lparr>w_adapter_registry := Some r\<rparr>)" if "map_of (fac_index ?f) 0 = Some r" for r
    using assms reg_ok_index [OF world_ok_regs(1) [OF assms] that] by (simp add: world_ok_def objects_ok_defs)
  show ?thesis
  proof (cases "map_of (fac_index ?f) 0")
    case None
    then have "Init_Registries E w = (Inr (), if w_adapter_registry w \<noteq> None then w
        else w\<lparr>w_adapter_regs := add_registry 0 (w_next_value w) None ?f, w_next_value := w_next_value w + 1,
          w_adapter_registry := Some (length (fac_regs ?f))\<rparr>)"
      by (cases w) (simp add: Init_Registries_def factory_registry_def adapter_class_def bindA_def
          act_simps seqA_def new_rb_value_def add_registry_def)
    then show ?thesis using assms add by simp
  next
    case (Some r)
    then have "Init_Registries E w = (Inr (), if w_adapter_registry w \<noteq> None then w
        else w\<lparr>w_adapter_registry := Some r\<rparr>)"
      by (simp add: Init_Registries_def factory_registry_def adapter_class_def bindA_def act_simps)
    then show ?thesis using assms found [OF Some] by simp
  qed
qed

lemma graph_init_registries [inv_intros]: "keeps (graph_ok E) (Init_Registries E)"
  by (auto intro!: keepsI simp: graph_ok_def world_ok_init_registries)

lemma world_ok_blank: "world_ok E (world_blank b)"
  by (simp add: world_ok_def world_blank_def factory_new_def reg_ok_def owners_ok_def objects_ok_defs live_def)

subsection \<open>Steps of the program\<close>

definition ign :: "('w, 'a) act \<Rightarrow> ('w, unit) act" where
  "ign m = seqA m (retA ())"

text \<open>What Ruby code can call.\<close>

inductive ruby_call :: "'b env \<Rightarrow> ('b world, unit) act \<Rightarrow> bool" for E :: "'b env" where
  "ruby_call E (Init_Registries E)"
| "ruby_call E (ign (Adapter_bluetooth_enabled E))"
| "ruby_call E (ign (Adapter_get_adapters E))"
| "ruby_call E (ign (scan_get_results E a))"
| "ruby_call E (ign (get_paired_peripherals E a))"
| "ruby_call E (scan_start E a)"
| "ruby_call E (scan_stop E a)"
| "ruby_call E (scan_for E a t)"
| "ruby_call E (on_scan_start a v)"
| "ruby_call E (on_scan_stop a v)"
| "ruby_call E (on_scan_update a v)"
| "ruby_call E (on_scan_find a v)"
| "ruby_call E (ign (adapter_status_flags E a))"
| "ruby_call E (per_call p (f :: ble_handle \<Rightarrow> ('b, unit) act))"
| "ruby_call E (ign (peripheral_status_flags E p))"
| "ruby_call E (peripheral_on_connect p v)"
| "ruby_call E (peripheral_on_disconnect p v)"
| "ruby_call E (ign (services E p))"
| "ruby_call E (ign (peripheral_index E p u))"
| "ruby_call E (ign (service_characteristics E s))"
| "ruby_call E (ign (service_index E s u))"
| "ruby_call E (ign (descriptors c))"
| "ruby_call E (ign (characteristic_index c u))"
| "ruby_call E (ign (has_capability c name))"
| "ruby_call E (ign (characteristic_read E c b))"
| "ruby_call E (ign (characteristic_read_descriptor E c u))"
| "ruby_call E (characteristic_write E c u d)"
| "ruby_call E (characteristic_write_request E c d)"
| "ruby_call E (characteristic_write_command E c d)"
| "ruby_call E (characteristic_unsubscribe E c)"
| "ruby_call E (set_on_notify c v)"
| "ruby_call E (set_on_indicate c v)"
| "ruby_call E (ign (characteristic_value_tracking c))"
| "ruby_call E (characteristic_set_value_tracking c b)"
| "ruby_call E (set_unpair_all_on_exit b)"
| "ruby_call E (DeInit E)"

text \<open>What any thread can do: also the events of SimpleBLE and the queued callbacks.\<close>

inductive api :: "'b env \<Rightarrow> ('b world, unit) act \<Rightarrow> bool" for E :: "'b env" where
  ruby: "ruby_call E m \<Longrightarrow> api E m"
| event: "api E (on_ble_event ev)"
| item: "api E (run_item E i)"

inductive prog_step :: "'b env \<Rightarrow> 'b world \<Rightarrow> 'b world \<Rightarrow> bool" for E :: "'b env" where
  call: "api E m \<Longrightarrow> prog_step E w (snd (m w))"
| gc: "prog_step E w (w\<lparr>w_during_gc := b\<rparr>)"
| simpleble: "prog_step E w (w\<lparr>w_ble := b'\<rparr>)"

definition prog_init :: "'b env \<Rightarrow> 'b world \<Rightarrow> bool" where
  "prog_init E w \<longleftrightarrow> quiet_callbacks (e_ble E) \<and> (\<exists>b. w = world_blank b)"

lemma graph_unpair_flag [inv_intros]: "keeps (graph_ok E) (set_unpair_all_on_exit b)"
  unfolding set_unpair_all_on_exit_def
  by (auto intro!: keepsI simp: act_simps graph_ok_def world_ok_def objects_ok_defs)

lemma graph_bluetooth_enabled [inv_intros]: "keeps (graph_ok E) (Adapter_bluetooth_enabled E)"
  unfolding Adapter_bluetooth_enabled_def by (intro inv_intros)

lemma graph_ruby_call: "ruby_call E m \<Longrightarrow> keeps (graph_ok E) m"
  by (induction rule: ruby_call.induct) (auto simp: ign_def intro!: inv_intros)

lemma graph_api: "api E m \<Longrightarrow> keeps (graph_ok E) m"
  by (induction rule: api.induct) (auto intro: graph_ruby_call inv_intros)

lemma graph_prog_step: "prog_step E w w' \<Longrightarrow> graph_ok E w \<Longrightarrow> graph_ok E w'"
proof (induction rule: prog_step.induct)
  case (call m w)
  from keepsD [OF graph_api [OF call(1)] call(2)] show ?case .
next
  case (gc w b)
  then show ?case by (simp add: graph_ok_def world_ok_def objects_ok_defs)
qed simp

lemma graph_prog_init: "prog_init E w \<Longrightarrow> graph_ok E w"
  by (auto simp: prog_init_def graph_ok_def world_ok_blank)

interpretation prog: inductive_invariant "prog_init E" "prog_step E" "graph_ok E" for E
  by unfold_locales (erule graph_prog_init, erule (1) graph_prog_step [rotated])

end
