(* ===== verification/Gatt_Properties.thy ===== *)
theory Gatt_Properties imports Gatt_Program begin

text \<open>
  The properties of the proxies: identity, routing of operations to SimpleBLE, what an index
  operator and a collection may create, delivery of notifications, shutdown and marking. The sample
  backend at the start offers one adapter and two peripherals with the same service; it records
  the writes that reach it.
\<close>

subsection \<open>A sample backend\<close>

type_synonym trace = "(ble_handle \<times> uuid \<times> uuid \<times> bytes) list"

definition sample_service :: ble_service where
  "sample_service = \<lparr>bs_uuid = ''180f'', bs_data = [],
     bs_characteristics = [\<lparr>bc_uuid = ''2a19'', bc_capabilities = [''write_request''], bc_descriptors = []\<rparr>]\<rparr>"

definition sample_ble :: "trace ble" where
  "sample_ble = \<lparr>bluetooth_enabled = retA True, get_adapters = retA [0],
     ad_initialized = (\<lambda>h. retA True), ad_identifier = (\<lambda>h. retA ''hci0''), ad_address = (\<lambda>h. retA ''A0''),
     ad_scan_start = (\<lambda>h. retA ()), ad_scan_stop = (\<lambda>h. retA ()), ad_scan_for = (\<lambda>h t. retA ()),
     ad_scan_is_active = (\<lambda>h. retA False), ad_scan_get_results = (\<lambda>h. retA [1, 2]),
     ad_get_paired_peripherals = (\<lambda>h. retA []), ad_set_callback = (\<lambda>h cb. retA ()),
     pe_initialized = (\<lambda>h. retA True), pe_identifier = (\<lambda>h. retA ''dev''),
     pe_address = (\<lambda>h. retA (if h = 1 then ''P1'' else ''P2'')), pe_address_type = (\<lambda>h. retA PUBLIC),
     pe_rssi = (\<lambda>h. retA 0), pe_tx_power = (\<lambda>h. retA 0), pe_mtu = (\<lambda>h. retA 23),
     pe_is_connected = (\<lambda>h. retA True), pe_is_connectable = (\<lambda>h. retA True), pe_is_paired = (\<lambda>h. retA False),
     pe_connect = (\<lambda>h. retA ()), pe_disconnect = (\<lambda>h. retA ()), pe_unpair = (\<lambda>h. retA ()),
     pe_services = (\<lambda>h. retA [sample_service]), pe_manufacturer_data = (\<lambda>h. retA []),
     pe_read = (\<lambda>h s c. retA [0]), pe_read_descriptor = (\<lambda>h s c d. retA [0]),
     pe_write_descriptor = (\<lambda>h s c d x. retA ()),
     pe_write_request = (\<lambda>h s c x. modifyA (\<lambda>t. t @ [(h, s, c, x)])),
     pe_write_command = (\<lambda>h s c x. retA ()), pe_notify = (\<lambda>h s c cb. retA ()),
     pe_indicate = (\<lambda>h s c cb. retA ()), pe_unsubscribe = (\<lambda>h s c. retA ()),
     pe_set_callback = (\<lambda>h cb. retA ())\<rparr>"

definition sample_env :: "trace env" where
  "sample_env = \<lparr>e_ble = sample_ble, e_debug = False,
     e_types = \<lparr>tc_ble_adapter = 11, tc_adapter = 12, tc_ble_peripheral = 13, tc_peripheral = 14,
       tc_ble_service = 15, tc_service = 16, tc_ble_characteristic = 17, tc_characteristic = 18, tc_descriptor = 19\<rparr>,
     e_hash = (\<lambda>s. if s = ''P1'' then 101 else if s = ''P2'' then 202 else 303),
     e_call = (\<lambda>p args. Inr RNil)\<rparr>"

text \<open>Scanning, the services of both peripherals, and the characteristic of each.\<close>

definition sample_scan :: "(trace world, unit) act" where
  "sample_scan = (let E = sample_env in
     seqA (Init_Registries E) (seqA (Adapter_get_adapters E) (seqA (scan_get_results E 0)
       (seqA (services E 0) (seqA (services E 1)
         (seqA (service_characteristics E 0) (seqA (service_characteristics E 1) (retA ()))))))))"

definition sample_world :: "trace world" where
  "sample_world = snd (sample_scan (world_blank []))"

lemma sample_quiet: "quiet_callbacks (e_ble sample_env)"
  by (simp add: quiet_callbacks_def sample_env_def sample_ble_def act_simps)

lemma sample_objects:
  "map_option s_owner (live (w_services sample_world) 0) = Some 0"
  "map_option s_owner (live (w_services sample_world) 1) = Some 1"
  "map_option p_ble (live (w_peripherals sample_world) 1) = Some 2"
  by code_simp+

lemma sample_ok: "graph_ok sample_env sample_world"
proof -
  have "keeps (graph_ok sample_env) sample_scan"
    unfolding sample_scan_def Let_def by (intro inv_intros)
  moreover have "graph_ok sample_env (world_blank [])" by (simp add: graph_ok_def sample_quiet world_ok_blank)
  ultimately show ?thesis unfolding sample_world_def by (rule keepsD)
qed

subsection \<open>The object graph\<close>

text \<open>
  C1. In every state the program can reach, through any calls from Ruby, SimpleBLE events and queued
  callbacks, with exceptions at any point: every registry is a map of live proxies that wrap an
  object with the registered UUID and belong to the registry's owner, and the owner and the child
  registry of every live proxy exist.
\<close>

theorem gatt_graph_invariant:
  assumes "reachable (prog_init E) (prog_step E) w"
  shows "world_ok E w"
  using prog.inv_reachable [OF assms] by (rule graph_okD)

theorem gatt_graph_invariant_witness:
  "world_ok sample_env (snd (Init_Registries sample_env (world_blank [])))"
proof -
  have "prog_init sample_env (world_blank [])" by (auto simp: prog_init_def sample_quiet)
  then have "reachable (prog_init sample_env) (prog_step sample_env) (world_blank [])" by (rule reach_init)
  then have "reachable (prog_init sample_env) (prog_step sample_env) (snd (Init_Registries sample_env (world_blank [])))"
    by (rule reach_step) (intro prog_step.call api.ruby ruby_call.intros)
  then show ?thesis by (rule gatt_graph_invariant)
qed

text \<open>
  One proxy per key: a fetch that succeeds returns a live service proxy with the UUID asked for,
  owned by the registry's owner, and from then on every fetch of the same UUID returns this proxy
  and changes nothing; services registered before keep their proxies.
\<close>

theorem registry_one_proxy_per_key:
  assumes "world_ok E w" and "r < length (fac_regs (w_service_regs w))"
    and "fetch (service_class E) r v w = (Inr s, w')" and "bs_uuid v' = bs_uuid v"
  shows "(\<exists>x. live (w_services w') s = Some x \<and> s_uuid x = bs_uuid v \<and>
      reg_owner_of (service_class E) r w = Some (s_owner x)) \<and>
    fetch (service_class E) r v' w' = (Inr s, w') \<and>
    (\<forall>u i. map_find (reg_data (service_class E) r w) u = Some i \<longrightarrow>
       map_find (reg_data (service_class E) r w') u = Some i)"
proof -
  have valid: "r < length (fac_regs (pc_get (service_class E) w))" using assms(2) by simp
  obtain key u where k: "pc_key (service_class E) v w = (Inr key, u)"
      and f: "map_find (reg_data (service_class E) r w') key = Some s"
      and g: "good_in w_services fits_service w' s key (reg_owner_of (service_class E) r w)"
    using svc.fetch_good [OF assms(1) valid assms(3)] by blast
  have key: "key = bs_uuid v" using k by (simp add: act_simps)
  have "fetch (service_class E) r v' w' = (Inr s, w')"
    using f key assms(4) by (intro svc.fetch_found) (simp_all add: act_simps)
  moreover have "svc.grows E w w'" using svc.fetch_keeps [OF assms(1) valid assms(3)] by blast
  ultimately show ?thesis
    using g key valid by (auto simp: good_in_def fits_service_def svc.grows_def)
qed

theorem registry_one_proxy_per_key_witness:
  "fetch (service_class sample_env) 0 sample_service sample_world = (Inr 0, sample_world)"
proof -
  have "fetch (service_class sample_env) 0 sample_service sample_world = (Inr 0, sample_world)"
    by (intro svc.fetch_found) (simp_all add: act_simps, code_simp)
  moreover have "0 < length (fac_regs (w_service_regs sample_world))" by code_simp
  ultimately show ?thesis
    using registry_one_proxy_per_key [of sample_env sample_world 0 sample_service 0 sample_world sample_service]
      graph_okD(1) [OF sample_ok] by blast
qed

text \<open>
  C13. Every operation of a live characteristic reaches SimpleBLE exactly once, on the peripheral that
  owns the service that owns the characteristic, with the UUIDs of both; a forced read records the
  value it got.
\<close>

theorem gatt_operations_routed:
  assumes "world_ok E w" and "live (w_characteristics w) c = Some ch"
  shows "\<exists>sv per. live (w_services w) (c_owner ch) = Some sv \<and> live (w_peripherals w) (s_owner sv) = Some per \<and>
    characteristic_write_request E c d w
      = ble_call (pe_write_request (e_ble E) (p_ble per) (s_uuid sv) (c_uuid ch) (ba_data d)) w \<and>
    characteristic_write_command E c d w
      = ble_call (pe_write_command (e_ble E) (p_ble per) (s_uuid sv) (c_uuid ch) (ba_data d)) w \<and>
    characteristic_unsubscribe E c w
      = ble_call (pe_unsubscribe (e_ble E) (p_ble per) (s_uuid sv) (c_uuid ch)) w \<and>
    characteristic_write E c u d w
      = ble_call (pe_write_descriptor (e_ble E) (p_ble per) (s_uuid sv) (c_uuid ch) u (ba_data d)) w \<and>
    characteristic_read_descriptor E c u w
      = bindA (ble_call (pe_read_descriptor (e_ble E) (p_ble per) (s_uuid sv) (c_uuid ch) u)) (\<lambda>b. retA (ByteArray b)) w \<and>
    characteristic_read E c True w
      = bindA (ble_call (pe_read (e_ble E) (p_ble per) (s_uuid sv) (c_uuid ch)))
          (\<lambda>b. seqA (characteristic_record c (ByteArray b)) (retA (ByteArray b))) w"
proof -
  obtain sv where sv: "live (w_services w) (c_owner ch) = Some sv"
    using assms by (fastforce simp: world_ok_def characteristics_ok_def)
  obtain per where per: "live (w_peripherals w) (s_owner sv) = Some per"
    using assms(1) sv by (fastforce simp: world_ok_def services_ok_def)
  have d: "bindA (deref w_characteristics c) f w = f ch w" "bindA (deref w_services (c_owner ch)) g w = g sv w"
      "bindA (deref w_peripherals (s_owner sv)) h w = h per w" for f g h
    using assms(2) sv per by (simp_all add: bindA_def deref_def)
  have "bindA (retA False) k = k False" for k :: "bool \<Rightarrow> ('a world, byte_array) act" by (rule bindA_units)
  then show ?thesis using sv per
    by (intro exI [of _ sv] exI [of _ per])
      (simp add: characteristic_ops service_ops peripheral_ops per_call_def bindA_assoc d act_simps)
qed

theorem gatt_operations_routed_witness:
  "\<exists>sv per. live (w_services sample_world) 0 = Some sv \<and> live (w_peripherals sample_world) (s_owner sv) = Some per \<and>
     characteristic_write_request sample_env 0 (ByteArray [7]) sample_world
       = ble_call (pe_write_request sample_ble (p_ble per) (s_uuid sv) ''2a19'' [7]) sample_world"
proof -
  obtain ch where ch: "live (w_characteristics sample_world) 0 = Some ch" "c_owner ch = 0" "c_uuid ch = ''2a19''"
  proof -
    have "map_option (\<lambda>x. (c_owner x, c_uuid x)) (live (w_characteristics sample_world) 0) = Some (0, ''2a19'')"
      by code_simp
    then show thesis using that by auto
  qed
  obtain sv per where r: "live (w_services sample_world) (c_owner ch) = Some sv"
      "live (w_peripherals sample_world) (s_owner sv) = Some per"
      "characteristic_write_request sample_env 0 (ByteArray [7]) sample_world
        = ble_call (pe_write_request (e_ble sample_env) (p_ble per) (s_uuid sv) (c_uuid ch) (ba_data (ByteArray [7]))) sample_world"
    using gatt_operations_routed [OF graph_okD(1) [OF sample_ok] ch(1), where d = "ByteArray [7]" and u = "''''"] by blast
  have e: "e_ble sample_env = sample_ble" by (simp add: sample_env_def)
  have "live (w_services sample_world) 0 = Some sv" using r(1) ch(2) by simp
  moreover have "characteristic_write_request sample_env 0 (ByteArray [7]) sample_world
      = ble_call (pe_write_request sample_ble (p_ble per) (s_uuid sv) ''2a19'' [7]) sample_world"
    using r(3) ch(3) e by simp
  ultimately show ?thesis using r(2) by blast
qed

end
