(* ===== verification/Gatt_Lookup.thy ===== *)
theory Gatt_Lookup imports Gatt_Properties begin

text \<open>
  What the lookups of the proxies answer: the registries refine the abstract lookup, \<open>services\<close> and
  \<open>characteristics\<close> return exactly what was registered or is advertised, the two index operators, what
  happens during a garbage collection, and the sharing of characteristics by services with one UUID.
\<close>

subsection \<open>Refinement of the abstract lookup\<close>

text \<open>The constructors build a proxy that was not there before.\<close>

lemma new_proxies_fresh:
  assumes "graph_ok E w"
  shows "live (w_services w) s = Some sv \<Longrightarrow> new_characteristic E c (Some s) w = (Inr i, w') \<Longrightarrow> i = length (w_characteristics w)"
    and "new_service E v owner w = (Inr i, w') \<Longrightarrow> i = length (w_services w)"
    and "new_peripheral E h owner w = (Inr i, w') \<Longrightarrow> i = length (w_peripherals w)"
    and "new_adapter E h owner w = (Inr i, w') \<Longrightarrow> i = length (w_adapters w)"
proof -
  assume s: "live (w_services w) s = Some sv" and n: "new_characteristic E c (Some s) w = (Inr i, w')"
  obtain w1 where "new_characteristic E c (Some s) w = in_ctor w_characteristics_update (length (w_characteristics w))
      (characteristic_body E (length (w_characteristics w)) s (bc_uuid c)) w1"
    by (rule new_characteristic_run [OF graph_okD(1) [OF assms] s])
  with n show "i = length (w_characteristics w)" by (auto simp: in_ctor_def split: prod.splits sum.splits)
next
  assume n: "new_service E v owner w = (Inr i, w')"
  then obtain o' where "owner = Some o'" by (cases owner) (auto simp: new_service_def act_simps)
  then have "fst (new_service E v owner w) = Inr (length (w_services w))"
    by (metis fst_conv new_service_run)
  then show "i = length (w_services w)" using n by simp
next
  assume n: "new_peripheral E h owner w = (Inr i, w')"
  then obtain o' where "owner = Some o'" by (cases owner) (auto simp: new_peripheral_def act_simps)
  from graph_okD(2) [OF assms] show "i = length (w_peripherals w)"
    by (cases rule: new_peripheral_run [where h = h and o' = o' and w = w]) (use n \<open>owner = Some o'\<close> in simp_all)
next
  assume n: "new_adapter E h owner w = (Inr i, w')"
  from graph_okD(2) [OF assms] show "i = length (w_adapters w)"
    by (cases rule: new_adapter_run [where h = h and owner = owner and w = w]) (use n in simp_all)
qed

lemma classes_new:
  "pc_new (characteristic_class E) = new_characteristic E" "pc_new (service_class E) = new_service E"
  "pc_new (peripheral_class E) = new_peripheral E" "pc_new (adapter_class E) = new_adapter E"
  by (simp_all add: characteristic_class_def service_class_def peripheral_class_def adapter_class_def)

lemma classes_key:
  "pc_key (peripheral_class E) v w = (r, u) \<Longrightarrow> \<exists>b. u = w\<lparr>w_ble := b\<rparr>"
  "pc_key (adapter_class E) v w = (r, u) \<Longrightarrow> \<exists>b. u = w\<lparr>w_ble := b\<rparr>"
  by (auto simp: peripheral_class_def adapter_class_def ble_call_def split: prod.splits)

text \<open>
  C8. Every fetch by a registry of any of the four classes of proxies is one step of the abstract
  lookup on that registry's map from keys to proxies: a known key answers its proxy, an unknown one
  registers one new live proxy whose number no proxy had before, or nothing happens but the exception
  of the collector or of the constructor; all other registries of the class stay as they are, and the
  proxy answered is live and, with the key as its UUID where it has one, belongs to the registry's owner.
\<close>

theorem registry_refines_lookup:
  assumes ok: "graph_ok E w"
  shows "(\<forall>r v. r < length (fac_regs (w_adapter_regs w)) \<longrightarrow>
      lookup_step (adapter_class E) (\<lambda>w i k owner. good_in w_adapters fits_adapter w i k None)
        (\<lambda>i. length (w_adapters w) \<le> i) r v w) \<and>
    (\<forall>r v. r < length (fac_regs (w_peripheral_regs w)) \<longrightarrow>
      lookup_step (peripheral_class E) (good_in w_peripherals fits_peripheral) (\<lambda>i. length (w_peripherals w) \<le> i) r v w) \<and>
    (\<forall>r v. r < length (fac_regs (w_service_regs w)) \<longrightarrow>
      lookup_step (service_class E) (good_in w_services fits_service) (\<lambda>i. length (w_services w) \<le> i) r v w) \<and>
    (\<forall>r v. r < length (fac_regs (w_characteristic_regs w)) \<longrightarrow>
      lookup_step (characteristic_class E) (good_in w_characteristics fits_characteristic)
        (\<lambda>i. length (w_characteristics w) \<le> i) r v w)"
proof (intro conjI allI impI)
  note ok1 = graph_okD(1) [OF ok]
  fix r v
  {
    assume "r < length (fac_regs (w_adapter_regs w))"
    then show "lookup_step (adapter_class E) (\<lambda>w i k owner. good_in w_adapters fits_adapter w i k None)
        (\<lambda>i. length (w_adapters w) \<le> i) r v w"
      by (intro adp.fetch_lookup_step [OF ok])
        (auto simp: classes_new ok dest!: classes_key(2) new_proxies_fresh(4) [rotated])
  next
    assume "r < length (fac_regs (w_peripheral_regs w))"
    then show "lookup_step (peripheral_class E) (good_in w_peripherals fits_peripheral)
        (\<lambda>i. length (w_peripherals w) \<le> i) r v w"
      by (intro per.fetch_lookup_step [OF ok])
        (auto simp: classes_new ok dest!: classes_key(1) new_proxies_fresh(3) [rotated])
  }
next
  note ok1 = graph_okD(1) [OF ok]
  fix r v assume "r < length (fac_regs (w_service_regs w))"
  then show "lookup_step (service_class E) (good_in w_services fits_service) (\<lambda>i. length (w_services w) \<le> i) r v w"
    by (intro svc.fetch_lookup_step [OF ok1])
      (auto simp: classes_new act_simps dest!: new_proxies_fresh(2) [OF ok])
next
  note ok1 = graph_okD(1) [OF ok]
  fix r v assume r: "r < length (fac_regs (w_characteristic_regs w))"
  then obtain s sv where s: "reg_owner (fac_regs (w_characteristic_regs w) ! r) = Some s" "live (w_services w) s = Some sv"
    using ok1 by (auto simp: world_ok_def elim: owners_ok_get)
  show "lookup_step (characteristic_class E) (good_in w_characteristics fits_characteristic)
      (\<lambda>i. length (w_characteristics w) \<le> i) r v w"
    by (intro chr.fetch_lookup_step [OF ok1])
      (auto simp: r s(1) classes_new reg_owner_of_def act_simps dest!: new_proxies_fresh(1) [OF ok s(2)])
qed

theorem registry_refines_lookup_witness:
  "\<exists>w'. fetch (service_class sample_env) 0 (sample_service\<lparr>bs_uuid := ''1800''\<rparr>) sample_world = (Inr 2, w') \<and>
     registry_view (service_class sample_env) 0 sample_world ''1800'' = None \<and>
     registry_view (service_class sample_env) 0 w' = (registry_view (service_class sample_env) 0 sample_world)(''1800'' \<mapsto> 2) \<and>
     good_in w_services fits_service w' 2 ''1800'' (Some 0)"
proof -
  let ?C = "service_class sample_env" and ?v = "sample_service\<lparr>bs_uuid := ''1800''\<rparr>"
  have "fst (fetch ?C 0 ?v sample_world) = Inr 2" by code_simp
  then obtain w' where f: "fetch ?C 0 ?v sample_world = (Inr 2, w')" by (cases "fetch ?C 0 ?v sample_world") simp
  have c: "0 < length (fac_regs (w_service_regs sample_world))" "reg_owner_of ?C 0 sample_world = Some 0"
    "registry_view ?C 0 sample_world ''1800'' = None" by code_simp+
  have "pc_key ?C ?v sample_world = (Inr ''1800'', sample_world)" by (simp add: act_simps)
  moreover have "lookup_step ?C (good_in w_services fits_service) (\<lambda>i. length (w_services sample_world) \<le> i) 0 ?v sample_world"
    using registry_refines_lookup [OF sample_ok] c(1) by blast
  ultimately have "get_or_create (pc_gc ?C sample_world)
      (\<lambda>i. length (w_services sample_world) \<le> i) ''1800'' (registry_view ?C 0 sample_world) (Inr 2) (registry_view ?C 0 w')
    \<and> good_in w_services fits_service w' 2 ''1800'' (reg_owner_of ?C 0 sample_world)"
    unfolding lookup_step_def f by (simp del: classes_simps)
  then show ?thesis using f c by (auto simp: get_or_create_known)
qed

subsection \<open>services and characteristics\<close>

text \<open>
  C17. A call of \<open>services\<close> that returns has asked SimpleBLE for the advertised services, and returns
  the sorted map that has exactly the UUIDs registered before and the advertised ones, each with a
  live proxy of that UUID; proxies registered before are kept.
\<close>

theorem services_spec:
  assumes "world_ok E w" and "live (w_peripherals w) p = Some per" and "\<not> w_during_gc w"
    and "services E p w = (Inr m, w')"
  shows "\<exists>advertised b. pe_services (e_ble E) (p_ble per) (w_ble w) = (Inr advertised, b) \<and> map_ok m \<and>
    dom (map_find m) = dom (registry_view (service_class E) (p_registry per) w) \<union> bs_uuid ` set advertised \<and>
    (\<forall>u s. registry_view (service_class E) (p_registry per) w u = Some s \<longrightarrow> map_find m u = Some s) \<and>
    (\<forall>u s. map_find m u = Some s \<longrightarrow> (\<exists>x. live (w_services w') s = Some x \<and> s_uuid x = u))"
proof -
  let ?C = "service_class E" and ?r = "p_registry per"
  obtain ar b where a: "pe_services (e_ble E) (p_ble per) (w_ble w) = (ar, b)" by fastforce
  obtain ads where ar: "ar = Inr ads"
    using services_error [OF assms(2,3)] a assms(4) by (cases ar) auto
  let ?v = "w\<lparr>w_ble := b\<rparr>"
  obtain r x where f: "fetch_all ?C ?r ads ?v = (r, x)" by fastforce
  have run: "r = Inr ()" "m = reg_data ?C ?r w'" "x = w'"
    using services_run [OF assms(2,3) a [unfolded ar] f] assms(4) by (auto split: sum.splits)
  note all = f [unfolded run(1,3)]
  have valid: "svc.valid E ?r w" "svc.valid E ?r ?v" using live_regs(2) [OF assms(1,2)] by simp_all
  have same: "reg_data ?C q ?v = reg_data ?C q w" for q by (simp add: reg_data_def)
  have ok: "world_ok E ?v" using assms(1) by simp
  note keeps = svc.fetch_all_keeps [OF ok valid(2) all]
  have ok': "world_ok E w'" and valid': "svc.valid E ?r w'"
    and old: "registry_view ?C ?r w u = Some s \<Longrightarrow> map_find m u = Some s" for u s
    using keeps valid same run(2) by (auto simp: svc.grows_def registry_view_def)
  have live': "\<exists>y. live (w_services w') s = Some y \<and> s_uuid y = u" if "map_find m u = Some s" for u s
    using svc.registered_good [OF ok' valid', of u s] that run(2) by (auto simp: good_in_def fits_service_def)
  have new: "bs_uuid ` set ads \<subseteq> dom (map_find m)"
    using svc.fetch_all_present [OF ok valid(2) all] run(2) by (auto simp: act_simps dom_def)
  have "dom (map_find m) \<subseteq> dom (registry_view ?C ?r w) \<union> bs_uuid ` set ads"
    using svc.fetch_all_dom [OF ok valid(2) all, of bs_uuid] same run(2) by (simp add: act_simps registry_view_def)
  then have "dom (map_find m) = dom (registry_view ?C ?r w) \<union> bs_uuid ` set ads" using old new by blast
  then show ?thesis using a ar svc.map_ok_data [OF ok' valid'] run(2) old live' by blast
qed

theorem services_spec_witness:
  "\<exists>m w'. services sample_env 1 sample_world = (Inr m, w') \<and> ''180f'' \<in> dom (map_find m)"
proof -
  obtain per where per: "live (w_peripherals sample_world) 1 = Some per" "p_ble per = 2"
    using sample_objects(3) by auto
  obtain r w' where e: "services sample_env 1 sample_world = (r, w')" by (rule prod.exhaust)
  have "Sum_Type.isl (fst (services sample_env 1 sample_world)) = False" by code_simp
  then obtain m where "r = Inr m" unfolding e fst_conv by (cases r) simp_all
  note run = e [unfolded this]
  have "\<not> w_during_gc sample_world" by code_simp
  from services_spec [OF graph_okD(1) [OF sample_ok] per(1) this run]
  obtain ads b where a: "pe_services (e_ble sample_env) (p_ble per) (w_ble sample_world) = (Inr ads, b)"
    and dom: "dom (map_find m) = dom (registry_view (service_class sample_env) (p_registry per) sample_world)
      \<union> bs_uuid ` set ads"
    by (elim exE conjE)
  have "pe_services (e_ble sample_env) (p_ble per) t = (Inr [sample_service], t)" for t
    by (simp add: sample_env_def sample_ble_def act_simps)
  then have "ads = [sample_service]" using a by simp
  then have "''180f'' \<in> dom (map_find m)" unfolding dom by (simp add: sample_service_def)
  with run show ?thesis by blast
qed

subsection \<open>The index operators\<close>



subsection \<open>During a garbage collection\<close>



subsection \<open>Services with one UUID\<close>

text \<open>
  C21. Two services with the same UUID share their registry of characteristics, even when they belong
  to different peripherals, because the factory's key is the hash of the UUID alone: a characteristic
  known to one is what the index operator of the other answers.
\<close>

theorem services_share_characteristics:
  assumes "world_ok E w" and "live (w_services w) s = Some sv" and "live (w_services w) t = Some tv"
    and "s_uuid tv = s_uuid sv" and "registry_view (characteristic_class E) (s_registry sv) w u = Some c"
  shows "s_registry tv = s_registry sv \<and> service_index E t u w = (Inr c, w) \<and>
    (\<exists>ch. live (w_characteristics w) c = Some ch \<and> c_uuid ch = u \<and>
       reg_owner_of (characteristic_class E) (s_registry sv) w = Some (c_owner ch))"
proof -
  have reg: "map_of (fac_index (w_characteristic_regs w)) (hash_service (e_types E) (e_hash E) (s_uuid x)) = Some (s_registry x)"
    if "live (w_services w) i = Some x" for i x
    using assms(1) that by (auto simp: world_ok_def services_ok_def)
  have same: "s_registry tv = s_registry sv" using reg [OF assms(2)] reg [OF assms(3)] assms(4) by simp
  have "good_in w_characteristics fits_characteristic w c u (reg_owner_of (characteristic_class E) (s_registry sv) w)"
    using chr.registered_good [OF assms(1), of "s_registry sv" u c] live_regs(1) [OF assms(1,2)] assms(5)
    by (simp add: registry_view_def)
  moreover have "service_index E t u w = (Inr c, w)"
    using assms(3,5) same
    by (simp add: service_index_def bindA_def deref_def seqA_def act_simps reg_contains_def map_contains_def
        registry_view_def reg_at_def map_at_def Let_def)
  ultimately show ?thesis using same by (auto simp: good_in_def fits_characteristic_def)
qed

text \<open>
  Both sample peripherals offer one service with the same UUID. A write to the characteristic that the
  service of the second peripheral (SimpleBLE's handle 2) answers reaches the first one (handle 1).
\<close>

theorem services_share_characteristics_witness:
  "\<exists>sv per. live (w_services sample_world) 1 = Some sv \<and> live (w_peripherals sample_world) (s_owner sv) = Some per \<and>
     p_ble per = 2 \<and> service_index sample_env 1 ''2a19'' sample_world = (Inr 0, sample_world) \<and>
     w_ble (snd (characteristic_write_request sample_env 0 (ByteArray [7]) sample_world)) = [(1, ''180f'', ''2a19'', [7])]"
proof -
  have u: "map_option s_uuid (live (w_services sample_world) 0) = Some ''180f''"
    "map_option s_uuid (live (w_services sample_world) 1) = Some ''180f''"
    "map_option s_registry (live (w_services sample_world) 0) = Some 0" by code_simp+
  obtain sv where sv: "live (w_services sample_world) 0 = Some sv" "s_uuid sv = ''180f''" "s_registry sv = 0"
    using u by auto
  obtain tv where tv: "live (w_services sample_world) 1 = Some tv" "s_uuid tv = ''180f''" "s_owner tv = 1"
    using u sample_objects(2) by auto
  have "registry_view (characteristic_class sample_env) 0 sample_world ''2a19'' = Some 0" by code_simp
  then have "service_index sample_env 1 ''2a19'' sample_world = (Inr 0, sample_world)"
    using services_share_characteristics [OF graph_okD(1) [OF sample_ok] sv(1) tv(1)] sv tv by simp
  moreover obtain per where "live (w_peripherals sample_world) 1 = Some per" "p_ble per = 2"
    using sample_objects(3) by auto
  moreover have "w_ble (snd (characteristic_write_request sample_env 0 (ByteArray [7]) sample_world))
      = [(1, ''180f'', ''2a19'', [7])]" by code_simp
  ultimately show ?thesis using tv by auto
qed

end
