(* ===== verification/Gatt_Delivery.thy ===== *)
theory Gatt_Delivery imports Gatt_Lookup begin

text \<open>
  Values on their way to Ruby: the delivery of notifications to the callback of a characteristic, the
  tracked value, and what a read answers afterwards.
\<close>

subsection \<open>A characteristic that is tracked\<close>

definition tracked_world :: "trace world" where
  "tracked_world = set_characteristic 0 (\<lambda>ch. ch\<lparr>c_capabilities := Some [True, True, False, True, False],
     c_tracker := \<lparr>track_values = None, tr_value = Some (ByteArray [5])\<rparr>,
     c_on_notify := Some \<lparr>cb_arg_count = 2, cb_proc = RProc True [''req'', ''req''] 9\<rparr>\<rparr>) sample_world"

lemma tracked_live: "\<exists>ch. live (w_characteristics tracked_world) 0 = Some ch \<and>
    c_capabilities ch = Some [True, True, False, True, False] \<and>
    c_tracker ch = \<lparr>track_values = None, tr_value = Some (ByteArray [5])\<rparr> \<and>
    c_on_notify ch = Some \<lparr>cb_arg_count = 2, cb_proc = RProc True [''req'', ''req''] 9\<rparr>"
proof -
  have "map_option c_uuid (live (w_characteristics sample_world) 0) = Some ''2a19''" by code_simp
  then obtain ch where "live (w_characteristics sample_world) 0 = Some ch" by auto
  then show ?thesis by (simp add: tracked_world_def set_characteristic_def)
qed

lemma tracked_notify: "nbs_get CAPABILITY_NAMES [True, True, False, True, False] ''notify'' = Inr True"
  by code_simp

subsection \<open>Notifications\<close>

lemma run_notify:
  assumes "live (w_characteristics w) c = Some ch" and "c_capabilities ch = Some bits"
    and "nbs_get CAPABILITY_NAMES bits ''notify'' = Inr cn" and "c_on_notify ch = Some k"
    and "cb_arg_count k = 2" and "rb_test (cb_proc k)" and "\<And>args. \<exists>v. e_call E (cb_proc k) args = Inr v"
  shows "\<exists>w'. run_item E (ItNotify c d) w = (Inr (), w') \<and>
    live (w_characteristics w') c = Some (ch\<lparr>c_tracker := snd (record_new_value cn d (c_tracker ch))\<rparr>) \<and>
    w_calls w' = w_calls w @ (if fst (record_new_value cn d (c_tracker ch))
      then [(cb_proc k, [RString (ba_data d), c_self ch])] else [])"
proof -
  obtain b t where r: "record_new_value cn d (c_tracker ch) = (b, t)" by fastforce
  let ?u = "set_characteristic c (\<lambda>ch. ch\<lparr>c_tracker := t\<rparr>) w"
  have u: "live (w_characteristics ?u) c = Some (ch\<lparr>c_tracker := t\<rparr>)" "w_calls ?u = w_calls w"
    using assms(1) by (simp_all add: set_characteristic_def)
  have rec: "characteristic_record c d w = (Inr b, ?u)"
    using assms(1-3) r
    by (simp add: characteristic_record_def has_capability_def capabilities_def bindA_def deref_def act_simps seqA_def)
  obtain v where v: "e_call E (cb_proc k) [RString (ba_data d), c_self ch] = Inr v" using assms(7) by blast
  have cf: "callback_fire (e_debug E) (e_call E) [RString (ba_data d), c_self ch] k = Inr v"
    using assms(5,6) v by (simp add: callback_fire_def)
  show ?thesis
  proof (cases b)
    case True
    then have "run_item E (ItNotify c d) w
        = (Inr (), ?u\<lparr>w_calls := w_calls ?u @ [(cb_proc k, [RString (ba_data d), c_self ch])]\<rparr>)"
      using rec u(1) assms(4,6) cf
      by (simp add: fire_on_notify_def bindA_def deref_def seqA_def act_simps fire_def Let_def)
    then show ?thesis using u r True by simp
  next
    case False
    then have "run_item E (ItNotify c d) w = (Inr (), ?u)"
      using rec by (simp add: fire_on_notify_def bindA_def act_simps)
    then show ?thesis using u r False by simp
  qed
qed

definition run_items :: "'b env \<Rightarrow> item list \<Rightarrow> ('b world, unit) act" where
  "run_items E = for_eachA (run_item E)"

lemma run_notifications:
  assumes "live (w_characteristics w) c = Some ch" and "c_capabilities ch = Some bits"
    and "nbs_get CAPABILITY_NAMES bits ''notify'' = Inr cn" and "c_on_notify ch = Some k"
    and "cb_arg_count k = 2" and "rb_test (cb_proc k)" and "\<And>args. \<exists>v. e_call E (cb_proc k) args = Inr v"
  shows "\<exists>w'. run_items E (map (ItNotify c) ds) w = (Inr (), w') \<and>
    live (w_characteristics w') c = Some (ch\<lparr>c_tracker := snd (record_all cn ds (c_tracker ch))\<rparr>) \<and>
    w_calls w' = w_calls w @ map (\<lambda>d. (cb_proc k, [RString (ba_data d), c_self ch]))
      (fst (record_all cn ds (c_tracker ch)))"
  using assms(1,2,4)
proof (induction ds arbitrary: w ch)
  case Nil
  then show ?case by (simp add: run_items_def act_simps)
next
  case (Cons d ds)
  let ?t = "snd (record_new_value cn d (c_tracker ch))" and ?b = "fst (record_new_value cn d (c_tracker ch))"
  obtain u where u: "run_item E (ItNotify c d) w = (Inr (), u)"
      "live (w_characteristics u) c = Some (ch\<lparr>c_tracker := ?t\<rparr>)"
      "w_calls u = w_calls w @ (if ?b then [(cb_proc k, [RString (ba_data d), c_self ch])] else [])"
    using run_notify [OF Cons.prems(1,2) assms(3) Cons.prems(3) assms(5-7)] by blast
  obtain x where x: "run_items E (map (ItNotify c) ds) u = (Inr (), x)"
      "live (w_characteristics x) c = Some (ch\<lparr>c_tracker := snd (record_all cn ds ?t)\<rparr>)"
      "w_calls x = w_calls u @ map (\<lambda>d. (cb_proc k, [RString (ba_data d), c_self ch])) (fst (record_all cn ds ?t))"
    using Cons.IH [OF u(2)] Cons.prems by auto
  have "run_items E (map (ItNotify c) (d # ds)) w = (Inr (), x)"
    using u(1) x(1) by (simp add: run_items_def seqA_def bindA_def)
  then show ?case using x u(3) by (auto simp: case_prod_beta Let_def)
qed



subsection \<open>Reading a characteristic\<close>

text \<open>Whatever its callback does, a notification that was handled has gone through the tracker.\<close>

lemma record_known:
  assumes "live (w_characteristics w) c = Some ch" and "c_capabilities ch = Some bits"
    and "nbs_get CAPABILITY_NAMES bits ''notify'' = Inr cn"
  shows "characteristic_record c d w = (Inr (fst (record_new_value cn d (c_tracker ch))),
    set_characteristic c (\<lambda>ch'. ch'\<lparr>c_tracker := snd (record_new_value cn d (c_tracker ch))\<rparr>) w)"
  using assms
  by (simp add: characteristic_record_def has_capability_def capabilities_def bindA_def deref_def act_simps seqA_def
      split: prod.splits)

lemma notify_tracks:
  assumes "live (w_characteristics w) c = Some ch" and "c_capabilities ch = Some bits"
    and "nbs_get CAPABILITY_NAMES bits ''notify'' = Inr cn" and "run_item E (ItNotify c d) w = (r, u)"
  shows "live (w_characteristics u) c = Some (ch\<lparr>c_tracker := snd (record_new_value cn d (c_tracker ch))\<rparr>)"
proof -
  obtain b t where r: "record_new_value cn d (c_tracker ch) = (b, t)" by fastforce
  let ?u = "set_characteristic c (\<lambda>ch. ch\<lparr>c_tracker := t\<rparr>) w"
  let ?P = "\<lambda>w. live (w_characteristics w) c = Some (ch\<lparr>c_tracker := t\<rparr>)"
  have "characteristic_record c d w = (Inr b, ?u)" using record_known [OF assms(1-3)] r by simp
  moreover have "keeps ?P (fire E k args)" for k args
    by (rule keepsI) (simp add: fire_def Let_def seqA_def bindA_def act_simps split: sum.splits)
  then have "keeps ?P (if \<not> b then retA () else bindA (deref w_characteristics c) (\<lambda>ch. case c_on_notify ch of
      None \<Rightarrow> retA () | Some k \<Rightarrow> seqA (fire E k [RString (ba_data d), c_self ch]) (retA ())))"
    by (intro inv_intros)
  note rest = this
  ultimately have "run_item E (ItNotify c d) w = (if \<not> b then retA () else bindA (deref w_characteristics c)
      (\<lambda>ch. case c_on_notify ch of None \<Rightarrow> retA () | Some k \<Rightarrow> seqA (fire E k [RString (ba_data d), c_self ch]) (retA ()))) ?u"
    by (simp add: fire_on_notify_def bindA_def)
  moreover have "?P ?u" using assms(1) by (simp add: set_characteristic_def)
  ultimately show ?thesis using keepsD [OF rest, of ?u] assms(4) r by simp
qed

lemma notifications_track:
  assumes "live (w_characteristics w) c = Some ch" and "c_capabilities ch = Some bits"
    and "nbs_get CAPABILITY_NAMES bits ''notify'' = Inr cn" and "run_items E (map (ItNotify c) ds) w = (Inr (), w')"
  shows "live (w_characteristics w') c = Some (ch\<lparr>c_tracker := snd (record_all cn ds (c_tracker ch))\<rparr>)"
  using assms(1,2,4)
proof (induction ds arbitrary: w ch)
  case Nil
  then show ?case by (simp add: run_items_def act_simps)
next
  case (Cons d ds)
  from Cons.prems(3) obtain u where u: "run_item E (ItNotify c d) w = (Inr (), u)"
      and rest: "run_items E (map (ItNotify c) ds) u = (Inr (), w')"
    by (auto simp: run_items_def seqA_def elim!: bindA_InrE)
  from Cons.IH [OF notify_tracks [OF Cons.prems(1,2) assms(3) u] _ rest] Cons.prems(2)
  show ?case by (simp add: case_prod_beta Let_def)
qed

text \<open>What a read does when the capabilities are known.\<close>

lemma read_known:
  assumes "live (w_characteristics w) c = Some ch" and "c_capabilities ch = Some bits"
    and "nbs_get CAPABILITY_NAMES bits ''notify'' = Inr cn"
  shows "characteristic_read E c False w =
    (case (if value_tracking cn (c_tracker ch) then last_value (c_tracker ch) else None) of
       Some v \<Rightarrow> (Inr v, w) | None \<Rightarrow> characteristic_read E c True w)"
  using assms by (simp add: characteristic_read_def characteristic_value_tracking_def has_capability_def
      capabilities_def bindA_def deref_def act_simps split: option.splits)

lemma forced_read_records:
  assumes "live (w_characteristics w) c = Some ch" and "c_capabilities ch = Some bits"
    and "nbs_get CAPABILITY_NAMES bits ''notify'' = Inr cn" and "characteristic_read E c True w = (Inr v, w')"
  shows "live (w_characteristics w') c = Some (ch\<lparr>c_tracker := snd (record_new_value cn v (c_tracker ch))\<rparr>)"
proof -
  obtain r u where s: "service_read E (c_owner ch) (c_uuid ch) w = (r, u)" by fastforce
  have "keeps (\<lambda>w. live (w_characteristics w) c = Some ch) (service_read E (c_owner ch) (c_uuid ch))"
    unfolding service_read_def peripheral_read_def per_call_def
    by (intro inv_intros) (auto intro!: keepsI simp: ble_call_def split: prod.splits)
  from keepsD [OF this assms(1)] s have u: "live (w_characteristics u) c = Some ch" by simp
  have "characteristic_read E c True w = bindA (\<lambda>_. (r, u)) (\<lambda>v. seqA (characteristic_record c v) (retA v)) w"
    using assms(1) s by (simp add: characteristic_read_def bindA_def deref_def act_simps)
  then have "w' = set_characteristic c (\<lambda>ch'. ch'\<lparr>c_tracker := snd (record_new_value cn v (c_tracker ch))\<rparr>) u"
    using assms(4) record_known [OF u assms(2,3)] by (cases r) (simp_all add: bindA_def seqA_def act_simps)
  with u show ?thesis by (simp add: set_characteristic_def)
qed

text \<open>
  C16. Once notifications of a characteristic whose value is tracked were handled, whatever its callback
  did with them, a read that is not forced answers the last payload and asks nobody: no state changes,
  SimpleBLE's included. A forced read answers what SimpleBLE's read of the characteristic answers, and
  records it: the next read that is not forced answers it. With tracking off every read is a forced one.
\<close>

theorem characteristic_read_cached:
  assumes "live (w_characteristics w) c = Some ch" and "c_capabilities ch = Some bits"
    and "nbs_get CAPABILITY_NAMES bits ''notify'' = Inr cn"
    and "run_items E (map (ItNotify c) ds) w = (Inr (), w')" and "ds \<noteq> []"
  shows "if value_tracking cn (c_tracker ch)
    then characteristic_read E c False w' = (Inr (last ds), w') \<and>
      characteristic_read E c True w' = bindA (service_read E (c_owner ch) (c_uuid ch))
        (\<lambda>v. seqA (characteristic_record c v) (retA v)) w' \<and>
      (\<forall>v u. characteristic_read E c True w' = (Inr v, u) \<longrightarrow> characteristic_read E c False u = (Inr v, u))
    else characteristic_read E c False w' = characteristic_read E c True w'"
proof (cases "value_tracking cn (c_tracker ch)")
  case True
  let ?t = "(c_tracker ch)\<lparr>tr_value := Some (last ds)\<rparr>"
  have w': "live (w_characteristics w') c = Some (ch\<lparr>c_tracker := ?t\<rparr>)"
    using notifications_track [OF assms(1-4)] assms(5) True by (simp add: record_all_tracked)
  have cap: "c_capabilities (ch\<lparr>c_tracker := ?t\<rparr>) = Some bits" using assms(2) by simp
  have "characteristic_read E c False w' = (Inr (last ds), w')"
    using read_known [OF w' cap assms(3)] True by (simp add: last_value_def)
  moreover have "characteristic_read E c True w' = bindA (service_read E (c_owner ch) (c_uuid ch))
      (\<lambda>v. seqA (characteristic_record c v) (retA v)) w'"
    using w' by (simp add: characteristic_read_def bindA_def deref_def act_simps)
  moreover have "characteristic_read E c False u = (Inr v, u)" if "characteristic_read E c True w' = (Inr v, u)" for v u
  proof -
    from forced_read_records [OF w' cap assms(3) that]
    have u: "live (w_characteristics u) c = Some (ch\<lparr>c_tracker := ?t\<lparr>tr_value := Some v\<rparr>\<rparr>)"
      using True by (simp add: record_new_value_tracked)
    from read_known [OF u _ assms(3)] assms(2) True show ?thesis by (simp add: last_value_def)
  qed
  ultimately show ?thesis using True by simp
next
  case False
  have w': "live (w_characteristics w') c = Some ch"
    using notifications_track [OF assms(1-4)] False by (simp add: record_all_untracked)
  from read_known [OF w' assms(2,3)] False show ?thesis by simp
qed

theorem characteristic_read_cached_witness:
  "\<exists>w'. run_items sample_env (map (ItNotify 0) [ByteArray [6], ByteArray [7]]) tracked_world = (Inr (), w') \<and>
     characteristic_read sample_env 0 False w' = (Inr (ByteArray [7]), w')"
proof -
  let ?ds = "[ByteArray [6], ByteArray [7]]"
  obtain ch where ch: "live (w_characteristics tracked_world) 0 = Some ch"
      "c_capabilities ch = Some [True, True, False, True, False]"
      "c_tracker ch = \<lparr>track_values = None, tr_value = Some (ByteArray [5])\<rparr>"
    using tracked_live by blast
  have "isl (fst (run_items sample_env (map (ItNotify 0) ?ds) tracked_world)) = False" by code_simp
  then obtain w' where run: "run_items sample_env (map (ItNotify 0) ?ds) tracked_world = (Inr (), w')"
    by (cases "run_items sample_env (map (ItNotify 0) ?ds) tracked_world") (auto simp: isl_def split: sum.splits, metis sum.exhaust old.unit.exhaust)
  from characteristic_read_cached [OF ch(1,2) tracked_notify run] ch(3) run show ?thesis
    by (auto simp: value_tracking_def)
qed

end
