(* ===== verification/Gatt_Shutdown.thy ===== *)
theory Gatt_Shutdown imports Gatt_Delivery begin

text \<open>
  The status flags of an adapter and the shutdown routine \<open>DeInit\<close>.
\<close>

subsection \<open>Status flags of an adapter\<close>

definition captured :: "nat option \<Rightarrow> 'b world \<Rightarrow> bool" where
  "captured t w \<longleftrightarrow> w_flag_check_this w = t"

lemma captured_ad_call [inv_intros]: "keeps (captured t) (ad_call a f)"
  unfolding ad_call_def adapter_get_def
  by (intro inv_intros) (auto intro!: keepsI simp: captured_def ble_call_def split: prod.splits)

lemma captured_filter_flags:
  "(\<And>n t. (n, t) \<in> set ts \<Longrightarrow> keeps (captured x) t) \<Longrightarrow> keeps (captured x) (filter_flags ts)"
proof (induction ts rule: filter_flags.induct)
  case (2 name test ts)
  have "keeps (captured x) test" by (rule 2(2) [of name]) simp
  moreover have "keeps (captured x) (filter_flags ts)"
    by (rule 2(1)) (meson 2(2) list.set_intros(2))
  ultimately show ?case unfolding filter_flags.simps by (intro inv_intros)
qed (simp add: inv_intros)

lemma adapter_status_flags_captured:
  "w_flag_check_this w = Some t \<Longrightarrow> adapter_status_flags E a w =
     filter_flags [(''initialized'', adapter_initialized E t), (''scanning'', scan_is_active E t)] w"
  by (simp add: adapter_status_flags_def flag_check_this_def bindA_def act_simps)

lemma adapter_status_flags_run:
  "captured (Some (case w_flag_check_this w of None \<Rightarrow> a | Some t \<Rightarrow> t)) (snd (adapter_status_flags E a w))"
proof -
  let ?t = "case w_flag_check_this w of None \<Rightarrow> a | Some t \<Rightarrow> t"
  let ?u = "w\<lparr>w_flag_check_this := Some ?t\<rparr>"
  have "flag_check_this a w = (Inr ?t, ?u)"
    by (cases w) (simp add: flag_check_this_def bindA_def act_simps seqA_def split: option.splits)
  then have run: "adapter_status_flags E a w
      = filter_flags [(''initialized'', adapter_initialized E ?t), (''scanning'', scan_is_active E ?t)] ?u"
    by (simp add: adapter_status_flags_def bindA_def)
  have "keeps (captured (Some ?t))
      (filter_flags [(''initialized'', adapter_initialized E ?t), (''scanning'', scan_is_active E ?t)])"
    by (rule captured_filter_flags) (auto simp: adapter_initialized_def scan_is_active_def intro: inv_intros)
  moreover have "captured (Some ?t) ?u" by (simp add: captured_def)
  ultimately show ?thesis unfolding run by (rule keepsD)
qed

text \<open>
  The first call of \<open>status_flags\<close> in the life of the process captures its adapter in a static
  closure: from then on the status flags of every adapter are those of that first one.
\<close>

theorem adapter_status_flags_first:
  "let first = (case w_flag_check_this w of None \<Rightarrow> a | Some t \<Rightarrow> t);
       w' = snd (adapter_status_flags E a w)
   in w_flag_check_this w' = Some first \<and>
      adapter_status_flags E b w' = adapter_status_flags E first w'"
  using adapter_status_flags_run [of a w E] by (simp add: captured_def adapter_status_flags_captured Let_def)

subsection \<open>Shutdown\<close>

definition deinit_flags :: "bool \<Rightarrow> bool \<Rightarrow> 'b world \<Rightarrow> bool" where
  "deinit_flags called stopped w \<longleftrightarrow> w_deinit_called w = called \<and> w_queue_stopped w = stopped"

lemma deinit_flags_ble [inv_intros]: "keeps (deinit_flags c s) (ble_call m)"
  by (auto intro!: keepsI simp: deinit_flags_def ble_call_def split: prod.splits)

lemma deinit_flags_calls [inv_intros]:
  "keeps (deinit_flags c s) (ad_call a f)" "keeps (deinit_flags c s) (per_call p g)"
  unfolding ad_call_def adapter_get_def per_call_def by (intro inv_intros)+

lemma deinit_flags_adapter [inv_intros]: "keeps (deinit_flags c s) (deinit_adapter E a)"
  unfolding deinit_adapter_def deinit_peripheral_def reg_for_each_def scan_stop_def scan_is_active_def
    peripheral_is_paired_def peripheral_unpair_def peripheral_is_connected_def peripheral_disconnect_def
  by (intro inv_intros)

definition deinit_all :: "'b env \<Rightarrow> ('b world, unit) act" where
  "deinit_all E = bindA (getA w_adapter_registry) (\<lambda>reg. bindA (getA w_unpair_all_on_exit) (\<lambda>unpair.
     case reg of
       Some r \<Rightarrow> if unpair then reg_for_each (adapter_class E) r (deinit_adapter E) else retA ()
     | None \<Rightarrow> retA ()))"

lemma deinit_flags_all [inv_intros]: "keeps (deinit_flags c s) (deinit_all E)"
  unfolding deinit_all_def reg_for_each_def by (intro inv_intros)

lemma DeInit_called: "w_deinit_called w \<Longrightarrow> DeInit E w = (Inr (), w)"
  by (simp add: DeInit_def bindA_def act_simps)

lemma DeInit_run:
  assumes "\<not> w_deinit_called w" and "deinit_all E (w\<lparr>w_deinit_called := True\<rparr>) = (r, v)"
  shows "DeInit E w = (r, if Sum_Type.isl r then v else v\<lparr>w_queue_stopped := True\<rparr>)"
  using assms by (simp add: DeInit_def deinit_all_def [symmetric] bindA_def act_simps seqA_def split: sum.splits)

text \<open>
  C24. The shutdown routine runs at most once: a second call does nothing, even after a first one that
  ended in an exception. The queue is told to stop if and only if the first call had no exception; one
  raised by SimpleBLE for any adapter or peripheral leaves it running.
\<close>

theorem deinit_once:
  assumes "\<not> w_deinit_called w" and "\<not> w_queue_stopped w" and "DeInit E w = (r, v)"
  shows "DeInit E v = (Inr (), v) \<and> (w_queue_stopped v \<longleftrightarrow> r = Inr ())"
proof -
  let ?u = "w\<lparr>w_deinit_called := True\<rparr>"
  obtain s x where a: "deinit_all E ?u = (s, x)" by fastforce
  have "deinit_flags True False (snd (deinit_all E ?u))"
    by (rule keepsD [OF deinit_flags_all]) (use assms(2) in \<open>simp add: deinit_flags_def\<close>)
  then have x: "w_deinit_called x" "\<not> w_queue_stopped x" using a by (simp_all add: deinit_flags_def)
  have "s = r \<and> v = (if Sum_Type.isl s then x else x\<lparr>w_queue_stopped := True\<rparr>)"
    using DeInit_run [OF assms(1) a] assms(3) by simp
  then show ?thesis using x DeInit_called [of v E] by (cases r) auto
qed

text \<open>A backend whose adapter fails when it is asked whether it scans.\<close>

definition failing_env :: "trace env" where
  "failing_env = sample_env\<lparr>e_ble := sample_ble\<lparr>ad_scan_is_active := (\<lambda>h. throwA (ForeignException ''OperationFailed''))\<rparr>\<rparr>"

theorem deinit_once_witness:
  "w_queue_stopped (snd (DeInit sample_env sample_world)) \<and>
   \<not> w_queue_stopped (snd (DeInit failing_env sample_world)) \<and>
   DeInit failing_env (snd (DeInit failing_env sample_world)) = (Inr (), snd (DeInit failing_env sample_world))"
proof -
  have w: "\<not> w_deinit_called sample_world" "\<not> w_queue_stopped sample_world" by code_simp+
  have r: "\<not> Sum_Type.isl (fst (DeInit sample_env sample_world))" "Sum_Type.isl (fst (DeInit failing_env sample_world))"
    by code_simp+
  then have "fst (DeInit sample_env sample_world) = Inr ()" by (cases "fst (DeInit sample_env sample_world)") simp_all
  moreover have "fst (DeInit failing_env sample_world) \<noteq> Inr ()" using r(2) by auto
  ultimately show ?thesis
    using deinit_once [OF w surjective_pairing [of "DeInit sample_env sample_world"]]
      deinit_once [OF w surjective_pairing [of "DeInit failing_env sample_world"]] by blast
qed

end
