(* ===== verification/Queue_Refinement.thy ===== *)
theory Queue_Refinement imports Ruby_Queue begin

text \<open>
  What the Ruby queue is, seen from outside: a stack of waiting callbacks, at most one that runs, and
  those that have run. All the flags, semaphores, locks and interleavings of \<open>RubyQueue.cpp\<close> implement
  that machine.
\<close>

record 'i lifo =
  lf_waiting :: "'i list"
  lf_current :: "'i option"
  lf_done :: "'i list"

definition lifo_init :: "'i lifo \<Rightarrow> bool" where
  "lifo_init a \<longleftrightarrow> a = \<lparr>lf_waiting = [], lf_current = None, lf_done = []\<rparr>"

inductive lifo_step :: "'i lifo \<Rightarrow> 'i lifo \<Rightarrow> bool" where
  submit: "lifo_step a (a\<lparr>lf_waiting := lf_waiting a @ [i]\<rparr>)"
| take: "lf_current a = None \<Longrightarrow> lf_waiting a = xs @ [i] \<Longrightarrow>
    lifo_step a (a\<lparr>lf_waiting := xs, lf_current := Some i\<rparr>)"
| finish: "lf_current a = Some i \<Longrightarrow> lifo_step a (a\<lparr>lf_current := None, lf_done := lf_done a @ [i]\<rparr>)"

inductive_cases lifo_stepE: "lifo_step a b"

definition running_item :: "'i loop_pc \<Rightarrow> 'i option" where
  "running_item pc = (case pc of LRun i \<Rightarrow> Some i | _ \<Rightarrow> None)"

definition queue_view :: "'i rq \<Rightarrow> 'i lifo" where
  "queue_view s = \<lparr>lf_waiting = rq_q s, lf_current = running_item (rq_pc s), lf_done = rq_executed s\<rparr>"

lemmas view_defs = queue_view_def running_item_def

lemma loop_step_view:
  assumes "loop_step debug s = Some t"
  shows "queue_view t = queue_view s \<or> lifo_step (queue_view s) (queue_view t)"
proof (cases "rq_pc s")
  case LPop
  show ?thesis
  proof (cases "rq_q s = []")
    case True
    then show ?thesis using assms LPop by (auto simp: loop_step_def view_defs)
  next
    case False
    then have "lifo_step (queue_view s) ((queue_view s)\<lparr>lf_waiting := butlast (rq_q s), lf_current := Some (last (rq_q s))\<rparr>)"
      using LPop by (intro lifo_step.take) (simp_all add: view_defs)
    then show ?thesis using assms LPop False by (auto simp: loop_step_def view_defs)
  qed
next
  case (LRun i)
  then have "lifo_step (queue_view s) ((queue_view s)\<lparr>lf_current := None, lf_done := rq_executed s @ [i]\<rparr>)"
    using lifo_step.finish [of "queue_view s" i] by (simp add: view_defs)
  then show ?thesis using assms LRun by (auto simp: loop_step_def view_defs)
qed (use assms in \<open>auto simp: loop_step_def view_defs split: if_splits\<close>)

lemma push_append_view: "lifo_step (queue_view s) (queue_view (push_append fn s))"
  using lifo_step.submit [of "queue_view s" fn] by (simp add: view_defs push_append_def)

lemma q_step_view:
  assumes "q_step debug s t" and "control_inv s"
  shows "queue_view t = queue_view s \<or> lifo_step (queue_view s) (queue_view t)"
  using assms
proof (induction rule: q_step.induct)
  case (append s fn)
  show ?case by (rule disjI2) (rule push_append_view)
next
  case (start s)
  then have "\<not> rq_starting s \<Longrightarrow> rq_pc s = LNone" by (auto simp: control_inv_def)
  then show ?case by (auto simp: start_def view_defs)
next
  case (loop s t)
  show ?case using loop(2) by (rule loop_step_view)
qed (auto simp: rq_actions view_defs)

interpretation qsim: simulation q_init "q_step debug" lifo_init lifo_step queue_view for debug
proof
  fix s :: "'a rq"
  assume "q_init s"
  then show "lifo_init (queue_view s)" by (simp add: q_init_def lifo_init_def rq_new_def view_defs)
next
  fix s t :: "'a rq"
  assume "q_reachable debug s" and step: "q_step debug s t"
  then show "queue_view t = queue_view s \<or> lifo_step (queue_view s) (queue_view t)"
    using q_step_view [OF step] by (blast dest: control_reachable)
qed

text \<open>
  C6. The queue implements the stack machine: what a reachable state shows is a reachable state of
  the machine, and every action of every thread in it is seen as one of its steps or as none.
\<close>

theorem queue_refines_lifo:
  assumes "q_reachable debug s" and "q_step debug s t"
  shows "reachable lifo_init lifo_step (queue_view s) \<and>
    (queue_view t = queue_view s \<or> lifo_step (queue_view s) (queue_view t))"
  using qsim.sim_reachable [OF assms(1)] qsim.sim_step [OF assms] by blast

theorem queue_refines_lifo_witness:
  "queue_view (push_append (5::nat) (push_enter True 5 rq_new)) \<noteq> queue_view (push_enter True (5::nat) rq_new) \<and>
   lifo_step (queue_view (push_enter True (5::nat) rq_new)) (queue_view (push_append 5 (push_enter True 5 rq_new)))"
proof
  let ?s = "push_enter True (5::nat) rq_new"
  show ne: "queue_view (push_append 5 ?s) \<noteq> queue_view ?s"
    by (simp add: push_append_def push_enter_def rq_new_def view_defs)
  have "q_step True rq_new ?s" by (rule q_step.enter) (simp add: rq_new_fields)
  then have "q_reachable True ?s" using reachable_new by (rule reach_step [rotated])
  moreover have "q_step True ?s (push_append 5 ?s)"
    by (rule q_step.append) (simp_all add: push_enter_def rq_new_fields)
  ultimately show "lifo_step (queue_view ?s) (queue_view (push_append 5 ?s))"
    using queue_refines_lifo ne by blast
qed

subsection \<open>Starvation\<close>

text \<open>One callback pushed and taken again, while an older one waits.\<close>

definition overtaken :: "'i \<Rightarrow> 'i list \<Rightarrow> 'i rq \<Rightarrow> bool" where
  "overtaken i js s \<longleftrightarrow> rq_fault s = None \<and> \<not> rq_stopping s \<and> rq_pc s = LTop \<and> rq_sem s = 1 \<and> rq_q s = [i] \<and>
     rq_pushed s = i # js \<and> rq_executed s = js"

lemma overtaken_push:
  assumes "rq_fault s = None" and "rq_pc s = LTop" and "\<not> rq_stopping s" and "rq_sem s = 0" and "rq_q s = []"
    and "rq_pushed s = []" and "rq_executed s = []"
  shows "overtaken i [] (push debug i s)"
  using assms
  by (simp add: overtaken_def push_def push_enter_def push_append_def push_release_def sem_release_def semaphore_max_def)

lemma overtaken_first: "\<exists>s. q_reachable debug s \<and> overtaken i [] s"
proof -
  let ?s = "loop_steps debug 3 (start rq_new)"
  have i: "q_reachable debug (start rq_new)" "rq_fault (start rq_new) = None"
    using reachable_start [OF reachable_new] by (simp_all add: rq_new_def start_def)
  note r = reachable_loop_steps [OF i, of 3, THEN conjunct1] reachable_loop_steps [OF i, of 3, THEN conjunct2]
  have top: "rq_pc ?s = LTop" "\<not> rq_stopping ?s" "rq_sem ?s = 0" "rq_q ?s = []" "rq_pushed ?s = []" "rq_executed ?s = []"
    by (simp_all add: numeral_eq_Suc loop_step_def start_def rq_new_def)
  show ?thesis by (rule exI, rule conjI, rule reachable_push [OF r top(2)], rule overtaken_push [OF r(2) top])
qed

lemma overtaken_next:
  assumes "q_reachable debug s" and "overtaken i js s"
  shows "\<exists>t. q_reachable debug t \<and> overtaken i (js @ [j]) t"
proof -
  let ?p = "push debug j s"
  have p: "q_reachable debug ?p" "rq_fault ?p = None" "rq_pc ?p = LTop" "\<not> rq_stopping ?p" "rq_sem ?p = Suc 1"
    "rq_q ?p = [i] @ [j]" "rq_pushed ?p = i # js @ [j]" "rq_executed ?p = js"
    using assms reachable_push [OF assms(1), of j]
    by (simp_all add: overtaken_def push_def push_enter_def push_append_def push_release_def sem_release_def semaphore_max_def)
  let ?t = "loop_steps debug (5 + 0) ?p"
  have t: "?t = ?p\<lparr>rq_sem := 1, rq_q := [i], rq_executed := js @ [j], rq_pc := LTop\<rparr>"
    unfolding loop_round [OF p(3-6)] p(8) by simp
  have "q_reachable debug ?t" using reachable_loop_steps [OF p(1,2)] by blast
  moreover have "overtaken i (js @ [j]) ?t" unfolding t using p by (simp add: overtaken_def)
  ultimately show ?thesis by blast
qed

lemma overtaken_run: "\<exists>s. q_reachable debug s \<and> overtaken i js s"
proof (induction js rule: rev_induct)
  case Nil
  show ?case by (rule overtaken_first)
next
  case (snoc j js)
  then obtain s where "q_reachable debug s" "overtaken i js s" by blast
  then show ?case by (rule overtaken_next)
qed

lemma overtaken_running: "q_reachable debug s \<Longrightarrow> overtaken i js s \<Longrightarrow> fst (running s)"
  by (drule control_reachable, drule running_exact) (simp add: overtaken_def in_loop_def)

text \<open>
  The queue is unfair: whatever callback was pushed first and whatever callbacks follow it, there is a
  run in which all the later ones have been executed, in the order they were pushed, and the first one
  still waits in a queue that runs and has no fault.
\<close>

theorem ruby_queue_starves_first:
  "\<exists>s. q_reachable debug s \<and> rq_fault s = None \<and> \<not> rq_stopping s \<and> fst (running s) \<and>
     rq_pushed s = first # later \<and> rq_executed s = later \<and> rq_q s = [first]"
proof -
  obtain s where s: "q_reachable debug s" "overtaken first later s" using overtaken_run [of debug first later] by blast
  then show ?thesis using overtaken_running [OF s] unfolding overtaken_def by blast
qed

end
