(* ===== verification/Event_Delivery.thy ===== *)
theory Event_Delivery imports Queue_Refinement Gatt_Delivery begin

text \<open>
  The program and its queue together: SimpleBLE's threads turn events into pushes, the loop's thread
  takes the callbacks and runs them on the object graph, Ruby threads call the operations. A callback
  that throws leaves the loop: the exception crosses the C frames of \<open>rb_thread_call_with_gvl\<close>, so what
  follows is undefined, and the system has no further step.
\<close>

record 'b system =
  sy_world :: "'b world"
  sy_queue :: "item rq"
  sy_offered :: "item list"
  sy_fault :: "error option"

text \<open>An event: the closure of the proxy runs and pushes; the pushes' other actions come later.\<close>

definition sys_event :: "'b env \<Rightarrow> ble_event \<Rightarrow> 'b system \<Rightarrow> 'b system" where
  "sys_event E ev s = (case on_ble_event ev (sy_world s) of (r, w') \<Rightarrow>
     let items = drop (length (w_pushed (sy_world s))) (w_pushed w')
     in s\<lparr>sy_world := w', sy_queue := fold (push_enter (e_debug E)) items (sy_queue s),
          sy_offered := sy_offered s @ items,
          sy_fault := (case r of Inl e \<Rightarrow> Some e | Inr u \<Rightarrow> None)\<rparr>)"

text \<open>One action of the loop's thread; a callback runs as one action, under the GVL.\<close>

definition sys_loop_step :: "'b env \<Rightarrow> 'b system \<Rightarrow> 'b system option" where
  "sys_loop_step E s = (case rq_pc (sy_queue s) of
     LRun i \<Rightarrow> (case run_item E i (sy_world s) of
         (Inl e, w') \<Rightarrow> Some (s\<lparr>sy_world := w', sy_fault := Some e\<rparr>)
       | (Inr u, w') \<Rightarrow> map_option (\<lambda>q. s\<lparr>sy_world := w', sy_queue := q\<rparr>) (loop_step (e_debug E) (sy_queue s)))
   | _ \<Rightarrow> map_option (\<lambda>q. s\<lparr>sy_queue := q\<rparr>) (loop_step (e_debug E) (sy_queue s)))"

fun sys_loop :: "'b env \<Rightarrow> nat \<Rightarrow> 'b system \<Rightarrow> 'b system" where
  "sys_loop E 0 s = s"
| "sys_loop E (Suc n) s =
     (if sy_fault s \<noteq> None then s
      else case sys_loop_step E s of None \<Rightarrow> s | Some s' \<Rightarrow> sys_loop E n s')"

text \<open>The other actions of the queue: those that neither offer an item nor belong to the loop.\<close>

inductive queue_action :: "item rq \<Rightarrow> item rq \<Rightarrow> bool" where
  append: "fn \<in> set (rq_entering q) \<Longrightarrow> queue_action q (push_append fn q)"
| release: "0 < rq_pending q \<Longrightarrow> queue_action q (push_release q)"
| start: "queue_action q (start q)"
| request: "queue_action q (stop_request q)"
| signal: "queue_action q (stop_signal q)"
| acquire: "queue_action q (q\<lparr>rq_latch := False\<rparr>)"
| observe: "queue_action q (snd (running q))"

inductive sys_step :: "'b env \<Rightarrow> 'b system \<Rightarrow> 'b system \<Rightarrow> bool" for E :: "'b env" where
  event: "sy_fault s = None \<Longrightarrow> rq_fault (sy_queue s) = None \<Longrightarrow> sys_step E s (sys_event E ev s)"
| queue: "sy_fault s = None \<Longrightarrow> rq_fault (sy_queue s) = None \<Longrightarrow> queue_action (sy_queue s) q \<Longrightarrow>
    sys_step E s (s\<lparr>sy_queue := q\<rparr>)"
| loop: "sy_fault s = None \<Longrightarrow> rq_fault (sy_queue s) = None \<Longrightarrow> sys_loop_step E s = Some t \<Longrightarrow> sys_step E s t"
| call: "sy_fault s = None \<Longrightarrow> ruby_call E m \<Longrightarrow> sys_step E s (s\<lparr>sy_world := snd (m (sy_world s))\<rparr>)"
| gc: "sy_fault s = None \<Longrightarrow> sys_step E s (s\<lparr>sy_world := (sy_world s)\<lparr>w_during_gc := b\<rparr>\<rparr>)"
| simpleble: "sy_fault s = None \<Longrightarrow> sys_step E s (s\<lparr>sy_world := (sy_world s)\<lparr>w_ble := b'\<rparr>\<rparr>)"

definition sys_init :: "'b env \<Rightarrow> 'b system \<Rightarrow> bool" where
  "sys_init E s \<longleftrightarrow> prog_init E (sy_world s) \<and> sy_queue s = rq_new \<and> sy_offered s = [] \<and> sy_fault s = None"

subsection \<open>The invariant of the system\<close>

lemma queue_action_step:
  "queue_action q r \<Longrightarrow> rq_fault q = None \<Longrightarrow> q_step debug q r"
  by (induction rule: queue_action.induct) (auto intro: q_step.intros)

lemma queue_action_ghosts:
  "queue_action q r \<Longrightarrow> mset (rq_refused r) + mset (rq_entering r) + mset (rq_pushed r)
     = mset (rq_refused q) + mset (rq_entering q) + mset (rq_pushed q)"
  by (induction rule: queue_action.induct) (auto simp: rq_actions)

lemma loop_step_ghosts:
  "loop_step debug q = Some r \<Longrightarrow> rq_refused r = rq_refused q \<and> rq_entering r = rq_entering q \<and> rq_pushed r = rq_pushed q"
  by (cases "rq_pc q") (auto simp: loop_step_def split: if_splits)

lemma feed_reachable:
  "q_reachable debug q \<Longrightarrow> rq_fault q = None \<Longrightarrow> q_reachable debug (fold (push_enter debug) items q)"
proof (induction items arbitrary: q)
  case (Cons i items)
  have "q_step debug q (push_enter debug i q)" using Cons.prems(2) by (rule q_step.enter)
  then have "q_reachable debug (push_enter debug i q)" using Cons.prems(1) by (rule reach_step [rotated])
  moreover have "rq_fault (push_enter debug i q) = None" using Cons.prems(2) by (simp add: push_enter_def)
  ultimately show ?case using Cons.IH by simp
qed simp

lemma feed_ghosts:
  "mset (rq_refused (fold (push_enter debug) items q)) + mset (rq_entering (fold (push_enter debug) items q))
     = mset (rq_refused q) + mset (rq_entering q) + mset items"
  "rq_pushed (fold (push_enter debug) items q) = rq_pushed q"
  by (induction items arbitrary: q) (auto simp: push_enter_def)

definition sys_inv :: "'b env \<Rightarrow> 'b system \<Rightarrow> bool" where
  "sys_inv E s \<longleftrightarrow> graph_ok E (sy_world s) \<and> q_reachable (e_debug E) (sy_queue s) \<and>
     mset (sy_offered s) = mset (rq_refused (sy_queue s)) + mset (rq_entering (sy_queue s)) + mset (rq_pushed (sy_queue s))"

lemma sys_inv_event:
  assumes "sys_inv E s" and "rq_fault (sy_queue s) = None"
  shows "sys_inv E (sys_event E ev s)"
proof -
  obtain r w where e: "on_ble_event ev (sy_world s) = (r, w)" by fastforce
  have "graph_ok E w" using keepsD [OF graph_event, of E "sy_world s" ev] assms(1) e by (simp add: sys_inv_def)
  then show ?thesis
    using assms feed_reachable [of "e_debug E" "sy_queue s"]
    by (simp add: sys_inv_def sys_event_def e Let_def feed_ghosts add.assoc)
qed

lemma sys_loop_step_cases:
  assumes "sys_loop_step E s = Some t"
  obtains (raised) i e w where "rq_pc (sy_queue s) = LRun i" and "run_item E i (sy_world s) = (Inl e, w)"
      and "t = s\<lparr>sy_world := w, sy_fault := Some e\<rparr>"
  | (ran) i w q where "rq_pc (sy_queue s) = LRun i" and "run_item E i (sy_world s) = (Inr (), w)"
      and "loop_step (e_debug E) (sy_queue s) = Some q" and "t = s\<lparr>sy_world := w, sy_queue := q\<rparr>"
  | (quiet) q where "loop_step (e_debug E) (sy_queue s) = Some q" and "t = s\<lparr>sy_queue := q\<rparr>"
  using assms by (auto simp: sys_loop_step_def split: loop_pc.splits prod.splits sum.splits)

lemma sys_inv_loop:
  assumes "sys_inv E s" and "rq_fault (sy_queue s) = None" and "sys_loop_step E s = Some t"
  shows "sys_inv E t"
proof -
  have item: "graph_ok E w" if "run_item E i (sy_world s) = (r, w)" for i r w
    using keepsD [OF graph_run_item, of E "sy_world s" i] assms(1) that by (simp add: sys_inv_def)
  have reach: "q_reachable (e_debug E) q" if "loop_step (e_debug E) (sy_queue s) = Some q" for q
    using assms(1) q_step.loop [OF assms(2) that] by (auto simp: sys_inv_def intro: reach_step)
  from assms(3) show ?thesis
  proof (cases rule: sys_loop_step_cases)
    case (raised i e w)
    then show ?thesis using assms(1) item by (simp add: sys_inv_def)
  next
    case (ran i w q)
    then show ?thesis using assms(1) item reach loop_step_ghosts [OF ran(3)] by (simp add: sys_inv_def)
  next
    case (quiet q)
    then show ?thesis using assms(1) reach loop_step_ghosts [OF quiet(1)] by (simp add: sys_inv_def)
  qed
qed

lemma sys_inv_step: "sys_step E s t \<Longrightarrow> sys_inv E s \<Longrightarrow> sys_inv E t"
proof (induction rule: sys_step.induct)
  case (event s ev)
  then show ?case by (intro sys_inv_event)
next
  case (queue s q)
  then have "q_reachable (e_debug E) q"
    using queue_action_step [of "sy_queue s" q "e_debug E"] by (auto simp: sys_inv_def intro: reach_step)
  then show ?case using queue queue_action_ghosts [of "sy_queue s" q] by (simp add: sys_inv_def)
next
  case (loop s t)
  then show ?case by (blast intro: sys_inv_loop)
next
  case (call s m)
  then show ?case using keepsD [OF graph_ruby_call] by (auto simp: sys_inv_def)
next
  case (gc s b)
  then show ?case using graph_prog_step [OF prog_step.gc] by (auto simp: sys_inv_def)
next
  case (simpleble s b')
  then show ?case by (simp add: sys_inv_def)
qed

lemma sys_inv_init: "sys_init E s \<Longrightarrow> sys_inv E s"
  using reachable_new by (auto simp: sys_init_def sys_inv_def graph_prog_init rq_new_def)

interpretation sys: inductive_invariant "sys_init E" "sys_step E" "sys_inv E" for E
  by unfold_locales (erule sys_inv_init, erule (1) sys_inv_step [rotated])

subsection \<open>A backlog\<close>

lemma sys_round:
  assumes "sy_fault s = None" and "rq_pc (sy_queue s) = LTop" and "\<not> rq_stopping (sy_queue s)"
    and "rq_sem (sy_queue s) = Suc n" and "rq_q (sy_queue s) = xs @ [x]"
    and "run_item E x (sy_world s) = (Inr (), w)"
  shows "sys_loop E (5 + m) s = sys_loop E m (s\<lparr>sy_world := w, sy_queue := (sy_queue s)\<lparr>rq_sem := n, rq_q := xs,
      rq_executed := rq_executed (sy_queue s) @ [x], rq_pc := LTop\<rparr>\<rparr>)"
  using assms by (simp add: numeral_eq_Suc loop_step_def sys_loop_step_def)

lemma sys_drain:
  assumes "sy_fault s = None" and "rq_pc (sy_queue s) = LTop" and "\<not> rq_stopping (sy_queue s)"
    and "rq_sem (sy_queue s) = length (rq_q (sy_queue s))"
    and "run_items E (rev (rq_q (sy_queue s))) (sy_world s) = (Inr (), w)"
  shows "sys_loop E (5 * length (rq_q (sy_queue s))) s = s\<lparr>sy_world := w, sy_queue := (sy_queue s)\<lparr>rq_sem := 0,
      rq_q := [], rq_executed := rq_executed (sy_queue s) @ rev (rq_q (sy_queue s))\<rparr>\<rparr>"
  using assms
proof (induction "rq_q (sy_queue s)" arbitrary: s rule: rev_induct)
  case Nil
  then show ?case by (cases s, cases "sy_queue s") (simp add: run_items_def act_simps)
next
  case (snoc x xs)
  have q: "rq_q (sy_queue s) = xs @ [x]" using snoc.hyps(2) by simp
  obtain u where u: "run_item E x (sy_world s) = (Inr (), u)" "run_items E (rev xs) u = (Inr (), w)"
    using snoc.prems(5) q by (auto simp: run_items_def seqA_def elim: bindA_InrE)
  let ?s = "s\<lparr>sy_world := u, sy_queue := (sy_queue s)\<lparr>rq_sem := length xs, rq_q := xs,
      rq_executed := rq_executed (sy_queue s) @ [x], rq_pc := LTop\<rparr>\<rparr>"
  have "sys_loop E (5 + 5 * length xs) s = sys_loop E (5 * length xs) ?s"
    using snoc.prems q u(1) by (intro sys_round) simp_all
  also have "\<dots> = ?s\<lparr>sy_world := w, sy_queue := (sy_queue ?s)\<lparr>rq_sem := 0, rq_q := [],
      rq_executed := rq_executed (sy_queue ?s) @ rev xs\<rparr>\<rparr>"
    using snoc.hyps(1) [of ?s] snoc.prems u(2) by simp
  finally show ?case using q snoc.prems(2) by (cases s, cases "sy_queue s") simp
qed

subsection \<open>Properties\<close>

text \<open>
  C2. Whatever the threads of SimpleBLE and of Ruby, the collector and the loop do, in any order: the
  object graph is well formed, and each callback an event offered is in exactly one place - refused,
  about to be pushed, waiting, running or executed once - and nothing else was ever executed.
\<close>

theorem event_callbacks_accounted:
  assumes "reachable (sys_init E) (sys_step E) s"
  shows "world_ok E (sy_world s) \<and>
    mset (sy_offered s) = mset (rq_refused (sy_queue s)) + mset (rq_entering (sy_queue s)) +
      mset (lf_waiting (queue_view (sy_queue s))) + mset (in_flight (sy_queue s)) + mset (lf_done (queue_view (sy_queue s)))"
proof -
  have inv: "sys_inv E s" using assms by (rule sys.inv_reachable)
  then have "items_inv (sy_queue s)" by (auto simp: sys_inv_def intro: itm.inv_reachable)
  then show ?thesis using inv graph_okD(1) by (auto simp: sys_inv_def items_inv_def queue_view_def)
qed

text \<open>The sample program with an event of SimpleBLE for characteristic 0.\<close>

definition sample_system :: "trace system" where
  "sample_system = \<lparr>sy_world = world_blank [], sy_queue = rq_new, sy_offered = [], sy_fault = None\<rparr>"

theorem event_callbacks_accounted_witness:
  "mset (sy_offered (sys_event sample_env (Notified 0 [7]) sample_system)) = {#ItNotify 0 (ByteArray [7])#} \<and>
   rq_entering (sy_queue (sys_event sample_env (Notified 0 [7]) sample_system)) = [ItNotify 0 (ByteArray [7])]"
proof -
  let ?t = "sys_event sample_env (Notified 0 [7]) sample_system"
  have "reachable (sys_init sample_env) (sys_step sample_env) sample_system"
    by (rule reach_init) (auto simp: sys_init_def prog_init_def sample_quiet sample_system_def)
  moreover have "sys_step sample_env sample_system ?t"
    by (rule sys_step.event) (simp_all add: sample_system_def rq_new_fields)
  ultimately have "reachable (sys_init sample_env) (sys_step sample_env) ?t" by (rule reach_step)
  note acc = event_callbacks_accounted [OF this]
  have "sy_queue ?t = push_enter False (ItNotify 0 (ByteArray [7])) rq_new"
    by (simp add: sys_event_def sample_system_def push_item_def act_simps Let_def sample_env_def)
  then show ?thesis using acc by (simp add: push_enter_def rq_new_def queue_view_def in_flight_def)
qed

text \<open>
  C15. Notifications that queue up reach Ruby in reverse: a backlog of notifications of a
  characteristic is delivered newest first, and when the values are tracked, the one left recorded as
  the last value is the oldest of them.
\<close>

theorem notifications_arrive_reversed:
  assumes "sy_fault s = None" and "rq_pc (sy_queue s) = LTop" and "\<not> rq_stopping (sy_queue s)"
    and "rq_sem (sy_queue s) = length (rq_q (sy_queue s))" and "rq_q (sy_queue s) = map (ItNotify c) ds"
    and "live (w_characteristics (sy_world s)) c = Some ch" and "c_capabilities ch = Some bits"
    and "nbs_get CAPABILITY_NAMES bits ''notify'' = Inr cn" and "c_on_notify ch = Some k"
    and "cb_arg_count k = 2" and "rb_test (cb_proc k)" and "\<And>args. \<exists>v. e_call E (cb_proc k) args = Inr v"
  shows "let t = sys_loop E (5 * length ds) s in rq_q (sy_queue t) = [] \<and>
    w_calls (sy_world t) = w_calls (sy_world s) @ map (\<lambda>d. (cb_proc k, [RString (ba_data d), c_self ch]))
      (if value_tracking cn (c_tracker ch) then changes (last_or_empty (c_tracker ch)) (rev ds) else rev ds) \<and>
    (value_tracking cn (c_tracker ch) \<and> ds \<noteq> [] \<longrightarrow>
      (\<exists>x. live (w_characteristics (sy_world t)) c = Some x \<and> last_value (c_tracker x) = Some (hd ds)))"
proof -
  obtain w where w: "run_items E (map (ItNotify c) (rev ds)) (sy_world s) = (Inr (), w)"
      "live (w_characteristics w) c = Some (ch\<lparr>c_tracker := snd (record_all cn (rev ds) (c_tracker ch))\<rparr>)"
      "w_calls w = w_calls (sy_world s) @ map (\<lambda>d. (cb_proc k, [RString (ba_data d), c_self ch]))
        (fst (record_all cn (rev ds) (c_tracker ch)))"
    using run_notifications [OF assms(6-12), of "rev ds"] by blast
  have "sys_loop E (5 * length ds) s = s\<lparr>sy_world := w, sy_queue := (sy_queue s)\<lparr>rq_sem := 0,
      rq_q := [], rq_executed := rq_executed (sy_queue s) @ rev (rq_q (sy_queue s))\<rparr>\<rparr>"
    using sys_drain [OF assms(1-4), of E w] assms(5) w(1) by (simp add: rev_map)
  then show ?thesis using w(2,3)
    by (auto simp: record_all_tracked record_all_untracked last_value_def last_rev Let_def)
qed

definition backlog_system :: "trace system" where
  "backlog_system = \<lparr>sy_world = tracked_world, sy_queue = rq_new\<lparr>rq_pc := LTop, rq_sem := 3,
     rq_q := map (ItNotify 0) [ByteArray [6], ByteArray [8], ByteArray [9]]\<rparr>, sy_offered = [], sy_fault = None\<rparr>"

theorem notifications_arrive_reversed_witness:
  "map (\<lambda>(p, args). hd args) (w_calls (sy_world (sys_loop sample_env 15 backlog_system)))
     = [RString [9], RString [8], RString [6]]"
proof -
  let ?ds = "[ByteArray [6], ByteArray [8], ByteArray [9]]"
  obtain ch where ch: "live (w_characteristics tracked_world) 0 = Some ch"
      "c_capabilities ch = Some [True, True, False, True, False]"
      "c_tracker ch = \<lparr>track_values = None, tr_value = Some (ByteArray [5])\<rparr>"
      "c_on_notify ch = Some \<lparr>cb_arg_count = 2, cb_proc = RProc True [''req'', ''req''] 9\<rparr>"
    using tracked_live by blast
  have "w_calls tracked_world = []" by code_simp
  moreover have "\<exists>v. e_call sample_env p args = Inr v" for p args by (simp add: sample_env_def)
  moreover have "live (w_characteristics (sy_world backlog_system)) 0 = Some ch"
    using ch(1) by (simp add: backlog_system_def)
  ultimately show ?thesis
    using notifications_arrive_reversed [of backlog_system 0 ?ds ch _ True _ sample_env, OF _ _ _ _ _ _ ch(2) tracked_notify ch(4)]
      ch(3)
    by (simp add: backlog_system_def rq_new_fields rb_test_def value_tracking_def last_or_empty_def Let_def)
qed

end
