(* ===== verification/Exception_Handling.thy ===== *)
theory Exception_Handling imports RuBLE_Prelude begin

text \<open>
  \<open>utils/exception_handling.hpp\<close> and \<open>.cpp\<close>: the terminate handler that prints both backtraces before
  the original one runs, and the stack traces attached to exceptions. A handler is the one of RuBLE or
  another one, by a number; what is printed is recorded. Producing a backtrace may itself throw a
  \<open>std::exception\<close>, which is the parameter's answer.
\<close>

datatype handler = RubleHandler | OtherHandler nat

record handlers =
  h_current :: "handler option"
  h_old :: "handler option"

definition handlers_new :: "handler option \<Rightarrow> handlers" where
  "handlers_new current = \<lparr>h_current = current, h_old = None\<rparr>"

definition wrap_termination_handler :: "(handlers, unit) act" where
  "wrap_termination_handler =
     bindA (getA h_old) (\<lambda>old.
       if old \<noteq> None
       then throwA (RuntimeError ''Old terminate exception already set. Would overflow.'')
       else seqA (modifyA (\<lambda>h. h\<lparr>h_old := h_current h\<rparr>))
              (modifyA (\<lambda>h. h\<lparr>h_current := Some RubleHandler\<rparr>)))"

datatype term_event =
    Printed string
  | HandedOver handler
  | Aborted

text \<open>
  The handler: what it printed and whether it returned, or an exception left it, which ends the
  program at once.
\<close>

definition on_terminate :: "unit result \<Rightarrow> unit result \<Rightarrow> handlers \<Rightarrow> term_event list \<times> unit result" where
  "on_terminate cpp_trace rb_trace h =
     (let e1 = [Printed ''C++ Backtrace: '']
      in case cpp_trace of
           Inl e \<Rightarrow> (e1, Inl Terminated)
         | Inr u \<Rightarrow>
             (let e2 = e1 @ [Printed ''Ruby Backtrace: '']
              in case rb_trace of
                   Inl e \<Rightarrow> (e2, Inl Terminated)
                 | Inr u \<Rightarrow> (case h_old h of
                     None \<Rightarrow> (e2, Inr ())
                   | Some f \<Rightarrow> (e2 @ [HandedOver f], Inr ()))))"

text \<open>\<open>std::terminate\<close> calls the current handler.\<close>

definition terminate :: "unit result \<Rightarrow> unit result \<Rightarrow> handlers \<Rightarrow> term_event list \<times> unit result" where
  "terminate cpp_trace rb_trace h = (case h_current h of
     Some RubleHandler \<Rightarrow> on_terminate cpp_trace rb_trace h
   | Some (OtherHandler n) \<Rightarrow> ([HandedOver (OtherHandler n)], Inr ())
   | None \<Rightarrow> ([Aborted], Inl Terminated))"

definition abort_with_stack :: "unit result \<Rightarrow> term_event list" where
  "abort_with_stack cpp_trace = (case cpp_trace of
     Inl e \<Rightarrow> [Printed ''Could not generate C++ stacktrace. Skipping.'', Aborted] | Inr u \<Rightarrow> [Aborted])"

text \<open>
  Boost's assertion hooks: the text on the standard error stream, with the stack trace when it can be
  produced, then \<open>std::abort\<close>, which does not call the terminate handler.
\<close>

definition assertion_failed_msg :: "string result \<Rightarrow> string \<Rightarrow> string option \<Rightarrow> string \<Rightarrow> term_event list \<times> unit result" where
  "assertion_failed_msg stacktrace expr msg function_name =
     (let text = ''Expression '' @ [CHR 0x27] @ expr @ [CHR 0x27] @ '' is false in function '' @ [CHR 0x27]
            @ function_name @ [CHR 0x27] @ '': '' @ (case msg of None \<Rightarrow> ''<...>'' | Some m \<Rightarrow> m) @ ''.''
            @ [CHR 0x0A] @ ''Backtrace:'' @ [CHR 0x0A]
      in case stacktrace of
           Inl e \<Rightarrow> ([Printed text], Inl e)
         | Inr st \<Rightarrow> ([Printed (text @ st @ [CHR 0x0A]), Aborted], Inl Terminated))"

definition assertion_failed :: "string result \<Rightarrow> string \<Rightarrow> string \<Rightarrow> term_event list \<times> unit result" where
  "assertion_failed stacktrace expr function_name = assertion_failed_msg stacktrace expr None function_name"

definition throw_exception :: "('w, unit) act" where
  "throw_exception = throwA (RuntimeError ''test error'')"

subsection \<open>Stack traces of exceptions\<close>

record 't traced_error =
  te_error :: error
  te_trace :: "'t option"

text \<open>\<open>boost::get_error_info\<close> answers a null pointer for an exception without a trace.\<close>

definition extract_stacktrace :: "'t traced_error \<Rightarrow> 't result" where
  "extract_stacktrace e = (case te_trace e of None \<Rightarrow> Inl UndefinedBehaviour | Some st \<Rightarrow> Inr st)"

definition add_backtrace :: "'t \<Rightarrow> 't traced_error \<Rightarrow> 't traced_error" where
  "add_backtrace st e = e\<lparr>te_trace := Some st\<rparr>"

text \<open>
  \<open>cpp_protect\<close> of \<open>utils/ruby.hpp\<close>, before Rice's own \<open>cpp_protect\<close>: what a function throws is caught as a
  \<open>const std::exception &\<close> and thrown again with a trace by \<open>throw_with_backtrace\<close>, which copies it with
  its static type, that is a plain \<open>std::exception\<close>.
\<close>

definition throw_with_backtrace :: "'t \<Rightarrow> error \<Rightarrow> 't traced_error" where
  "throw_with_backtrace st e = add_backtrace st \<lparr>te_error = e, te_trace = None\<rparr>"

definition sliced :: "error \<Rightarrow> error" where
  "sliced e = ForeignException ''std::exception''"

definition protect_traced :: "'t \<Rightarrow> ('w \<Rightarrow> ('t traced_error + 'a) \<times> 'w) \<Rightarrow> 'w \<Rightarrow> ('t traced_error + 'a) \<times> 'w" where
  "protect_traced st fn w = (case fn w of
     (Inl e, w') \<Rightarrow> (Inl (throw_with_backtrace st (sliced (te_error e))), w') | (Inr x, w') \<Rightarrow> (Inr x, w'))"

subsection \<open>Properties\<close>

text \<open>
  Wrapping the terminate handler works once: the second attempt throws and changes nothing. A
  wrapped program that terminates prints both backtraces and then hands over, exactly once, to the
  handler that was there before; if a backtrace cannot be produced, the old handler never runs.
\<close>

theorem terminate_wrapped:
  assumes "wrap_termination_handler (handlers_new (Some f)) = (r, h)"
  shows "r = Inr () \<and>
    wrap_termination_handler h = (Inl (RuntimeError ''Old terminate exception already set. Would overflow.''), h) \<and>
    terminate (Inr ()) (Inr ()) h =
      ([Printed ''C++ Backtrace: '', Printed ''Ruby Backtrace: '', HandedOver f], Inr ()) \<and>
    HandedOver f \<notin> set (fst (terminate (Inl e) x h)) \<and> HandedOver f \<notin> set (fst (terminate (Inr ()) (Inl e) h))"
  using assms
  by (auto simp: wrap_termination_handler_def handlers_new_def bindA_def seqA_def act_simps terminate_def
      on_terminate_def Let_def split: if_splits)

theorem terminate_wrapped_witness:
  "terminate (Inr ()) (Inr ()) (snd (wrap_termination_handler (handlers_new (Some (OtherHandler 4))))) =
     ([Printed ''C++ Backtrace: '', Printed ''Ruby Backtrace: '', HandedOver (OtherHandler 4)], Inr ())"
  using terminate_wrapped [OF surjective_pairing] by blast

text \<open>
  An exception leaves a protected function with the trace of the place it was caught at, but as a
  plain \<open>std::exception\<close>, without its type and message; the value and the state of a function that
  does not throw are unchanged. From an exception that never got a trace the extraction reads through
  a null pointer.
\<close>

theorem protect_traced_spec:
  "(case fn w of
      (Inl e, v) \<Rightarrow> \<exists>x. protect_traced st fn w = (Inl x, v) \<and>
        te_error x = ForeignException ''std::exception'' \<and> extract_stacktrace x = Inr st
    | (Inr y, v) \<Rightarrow> protect_traced st fn w = (Inr y, v)) \<and>
   (extract_stacktrace e = Inl UndefinedBehaviour \<longleftrightarrow> te_trace e = None)"
  by (auto simp: protect_traced_def throw_with_backtrace_def sliced_def extract_stacktrace_def add_backtrace_def
      split: prod.splits sum.splits option.splits)

end
