(* ===== verification/Rubyable.thy ===== *)
theory Rubyable imports Ruby_Values begin

text \<open>
  \<open>concerns/Rubyable.hpp\<close>: the Ruby object of a C++ object, allocated on first use and only by a thread
  that is in Ruby. The numbers of the Ruby objects are handed out by a counter; the notes printed on
  \<open>std::cerr\<close> are left out.
\<close>

record rubyable =
  ry_self :: rb_value
  ry_next :: nat

definition rubyable_new :: "nat \<Rightarrow> rubyable" where
  "rubyable_new n = \<lparr>ry_self = RNil, ry_next = n\<rparr>"

definition get_or_allocate_rb_object :: "bool \<Rightarrow> rubyable \<Rightarrow> rb_value \<times> rubyable" where
  "get_or_allocate_rb_object in_ruby r =
     (if ry_self r \<noteq> RNil then (ry_self r, r)
      else if in_ruby then (RObject (ry_next r), \<lparr>ry_self = RObject (ry_next r), ry_next = ry_next r + 1\<rparr>)
      else (RNil, r))"

definition rubyable_self :: "bool \<Rightarrow> rubyable \<Rightarrow> rb_value \<times> rubyable" where
  "rubyable_self in_ruby r = (if ry_self r = RNil then get_or_allocate_rb_object in_ruby r else (ry_self r, r))"

definition rubyable_mark :: "rubyable \<Rightarrow> rb_value list" where
  "rubyable_mark r = (if ry_self r \<noteq> RNil then [ry_self r] else [])"

text \<open>The answers of a sequence of calls, each on a thread that is in Ruby or not.\<close>

fun self_all :: "bool list \<Rightarrow> rubyable \<Rightarrow> rb_value list \<times> rubyable" where
  "self_all [] r = ([], r)"
| "self_all (b # bs) r = (let (v, r1) = rubyable_self b r; (vs, r2) = self_all bs r1 in (v # vs, r2))"

lemma rubyable_self_simps:
  "ry_self r \<noteq> RNil \<Longrightarrow> rubyable_self b r = (ry_self r, r)"
  "ry_self r = RNil \<Longrightarrow> rubyable_self True r = (RObject (ry_next r), \<lparr>ry_self = RObject (ry_next r), ry_next = ry_next r + 1\<rparr>)"
  "ry_self r = RNil \<Longrightarrow> rubyable_self False r = (RNil, r)"
  by (simp_all add: rubyable_self_def get_or_allocate_rb_object_def)

lemma self_all_allocated: "ry_self r \<noteq> RNil \<Longrightarrow> self_all bs r = (replicate (length bs) (ry_self r), r)"
  by (induction bs) (simp_all add: rubyable_self_simps)

lemma self_all_new:
  "ry_self r = RNil \<Longrightarrow> self_all bs r =
     (let k = length (takeWhile (\<lambda>b. \<not> b) bs)
      in (replicate k RNil @ replicate (length bs - k) (RObject (ry_next r)),
          if k = length bs then r else \<lparr>ry_self = RObject (ry_next r), ry_next = ry_next r + 1\<rparr>))"
proof (induction bs)
  case (Cons b bs)
  then show ?case by (cases b) (simp_all add: rubyable_self_simps self_all_allocated Let_def)
qed simp

text \<open>
  A Ruby object is allocated at most once, by the first call on a thread that is in Ruby; calls
  before answer nil, calls after the same object, from any thread, and this object is what is marked.
\<close>

theorem rubyable_allocates_once:
  "let k = length (takeWhile (\<lambda>b. \<not> b) bs); res = self_all bs (rubyable_new n)
   in fst res = replicate k RNil @ replicate (length bs - k) (RObject n) \<and>
      rubyable_mark (snd res) = (if k = length bs then [] else [RObject n]) \<and>
      ry_next (snd res) = (if k = length bs then n else n + 1)"
  using self_all_new [of "rubyable_new n" bs] by (simp add: rubyable_new_def rubyable_mark_def Let_def)

end
