(* ===== verification/Ruby_Interface.thy ===== *)
theory Ruby_Interface imports Ruby_Values Inspection begin

text \<open>
  The \<open>Init_*\<close> functions of \<open>bindings/*.cpp\<close> and \<open>management/Registry.cpp\<close>: the modules, classes,
  methods and constants that the extension gives to Ruby through Rice, in the order of the calls. Rice
  is third-party; what is relied on is that a class wraps one C++ type, that defining a method of a name
  again replaces it, as in Ruby, and that an attribute is read through a method. A C++ variable such as
  \<open>rb_cAdapter\<close> is known by its name; using one that was not assigned yet is an error.
\<close>

datatype rb_var =
    Rb_mRuBLE | Rb_mRuBLEUnderlying | Rb_mUtils | Rb_cBluetoothAddressType
  | Rb_cByteArray | Rb_cDescriptor | Rb_cCharacteristic | Rb_cCharacteristicCapabilityType
  | Rb_cService | Rb_cPeripheral | Rb_cAdapter | Rb_cAdapterRegistry
  | Rb_cPeripheralRegistry | Rb_cServiceRegistry | Rb_cCharacteristicRegistry

datatype cpp_class =
    C_ByteArray | C_Descriptor | C_Characteristic | C_Service | C_Peripheral
  | C_Adapter | C_AdapterRegistry | C_PeripheralRegistry | C_ServiceRegistry | C_CharacteristicRegistry
  | C_shared_ptr cpp_class | C_other string

datatype cpp_fn =
    Member cpp_class string
  | Static cpp_class string
  | Attribute cpp_class string
  | Free string

datatype init_cmd =
    Define_module rb_var string
  | Define_module_under rb_var rb_var string
  | Define_class_under "rb_var option" cpp_class rb_var string
  | Define_described_enum rb_var rb_var string "string list"
  | Define_method rb_var string cpp_fn
  | Define_singleton_function rb_var string cpp_fn
  | Iv_set rb_var string
  | Set_end_proc cpp_fn

text \<open>
  The modules and classes held by variables with their Ruby paths and the C++ class they wrap, if they
  do; the other classes; the constants; and the methods, the newest definition first.
\<close>

record rice =
  rc_vars :: "(rb_var \<times> string \<times> cpp_class option) list"
  rc_classes :: "(string \<times> cpp_class) list"
  rc_constants :: "(string \<times> string) list"
  rc_methods :: "((rb_var \<times> string) \<times> cpp_fn) list"
  rc_singletons :: "((rb_var \<times> string) \<times> cpp_fn) list"
  rc_ivars :: "(rb_var \<times> string) list"
  rc_end_procs :: "cpp_fn list"

definition rice_new :: rice where
  "rice_new = \<lparr>rc_vars = [], rc_classes = [], rc_constants = [], rc_methods = [], rc_singletons = [],
     rc_ivars = [], rc_end_procs = []\<rparr>"

definition path_of :: "rice \<Rightarrow> rb_var \<Rightarrow> string result" where
  "path_of s v = (case map_of (rc_vars s) v of None \<Rightarrow> Inl UndefinedBehaviour | Some (path, cls) \<Rightarrow> Inr path)"

definition under :: "string \<Rightarrow> string \<Rightarrow> string" where
  "under path name = path @ ''::'' @ name"

fun run_cmd :: "init_cmd \<Rightarrow> rice \<Rightarrow> rice result" where
  "run_cmd (Define_module v name) s = Inr (s\<lparr>rc_vars := (v, name, None) # rc_vars s\<rparr>)"
| "run_cmd (Define_module_under v parent name) s = bindR (path_of s parent) (\<lambda>p.
     Inr (s\<lparr>rc_vars := (v, under p name, None) # rc_vars s\<rparr>))"
| "run_cmd (Define_class_under (Some v) cpp parent name) s = bindR (path_of s parent) (\<lambda>p.
     Inr (s\<lparr>rc_vars := (v, under p name, Some cpp) # rc_vars s\<rparr>))"
| "run_cmd (Define_class_under None cpp parent name) s = bindR (path_of s parent) (\<lambda>p.
     Inr (s\<lparr>rc_classes := (under p name, cpp) # rc_classes s\<rparr>))"
| "run_cmd (Define_described_enum v parent name consts) s = bindR (path_of s parent) (\<lambda>p.
     Inr (s\<lparr>rc_vars := (v, under p name, None) # rc_vars s,
            rc_constants := rc_constants s @ map (\<lambda>c. (under p name, c)) consts\<rparr>))"
| "run_cmd (Define_method v name fn) s = bindR (path_of s v) (\<lambda>p.
     Inr (s\<lparr>rc_methods := ((v, name), fn) # rc_methods s\<rparr>))"
| "run_cmd (Define_singleton_function v name fn) s = bindR (path_of s v) (\<lambda>p.
     Inr (s\<lparr>rc_singletons := ((v, name), fn) # rc_singletons s\<rparr>))"
| "run_cmd (Iv_set v name) s = bindR (path_of s v) (\<lambda>p. Inr (s\<lparr>rc_ivars := (v, name) # rc_ivars s\<rparr>))"
| "run_cmd (Set_end_proc fn) s = Inr (s\<lparr>rc_end_procs := fn # rc_end_procs s\<rparr>)"

definition run_init :: "init_cmd list \<Rightarrow> rice \<Rightarrow> rice result" where
  "run_init cmds s = foldR run_cmd cmds s"

text \<open>What calling a method of an object of a class runs.\<close>

definition method_of :: "rice \<Rightarrow> rb_var \<Rightarrow> string \<Rightarrow> cpp_fn option" where
  "method_of s v name = map_of (rc_methods s) (v, name)"

subsection \<open>Enumerations\<close>

datatype capability = READ | WRITE_REQUEST | WRITE_COMMAND | NOTIFY | INDICATE

definition capability_traits :: "capability described" where
  "capability_traits = [(READ, ''READ''), (WRITE_REQUEST, ''WRITE_REQUEST''),
     (WRITE_COMMAND, ''WRITE_COMMAND''), (NOTIFY, ''NOTIFY''), (INDICATE, ''INDICATE'')]"

subsection \<open>The Init functions\<close>

definition Init_ByteArray :: "init_cmd list" where
  "Init_ByteArray = [
     Define_class_under (Some Rb_cByteArray) C_ByteArray Rb_mRuBLE ''ByteArray'',
     Define_singleton_function Rb_cByteArray ''new'' (Static C_ByteArray ''from_ruby''),
     Define_method Rb_cByteArray ''get'' (Member C_ByteArray ''to_string''),
     Define_method Rb_cByteArray ''to_s'' (Member C_ByteArray ''to_s''),
     Define_method Rb_cByteArray ''inspect'' (Member C_ByteArray ''inspect''),
     Define_method Rb_cByteArray ''data'' (Member C_ByteArray ''data''),
     Define_method Rb_cByteArray ''to_i'' (Member C_ByteArray ''to_i<>''),
     Define_method Rb_cByteArray ''%'' (Member C_ByteArray ''operator%<>''),
     Define_method Rb_cByteArray ''&'' (Member C_ByteArray ''operator&<>''),
     Define_method Rb_cByteArray ''|'' (Member C_ByteArray ''operator|<>''),
     Define_method Rb_cByteArray ''~'' (Member C_ByteArray ''operator~''),
     Define_method Rb_cByteArray ''!'' (Member C_ByteArray ''operator!''),
     Define_method Rb_cByteArray ''<=>'' (Member C_ByteArray ''operator<=><>'')]"

definition Init_Descriptor :: "init_cmd list" where
  "Init_Descriptor = [
     Define_class_under (Some Rb_cDescriptor) C_Descriptor Rb_mRuBLE ''Descriptor'',
     Define_method Rb_cDescriptor ''uuid'' (Member C_Descriptor ''uuid''),
     Define_method Rb_cDescriptor ''inspect'' (Member C_Descriptor ''inspect''),
     Define_method Rb_cDescriptor ''read'' (Member C_Descriptor ''read''),
     Define_method Rb_cDescriptor ''write'' (Member C_Descriptor ''write'')]"

definition Init_Characteristic :: "init_cmd list" where
  "Init_Characteristic = [
     Define_class_under (Some Rb_cCharacteristic) C_Characteristic Rb_mRuBLE ''Characteristic'',
     Define_described_enum Rb_cCharacteristicCapabilityType Rb_cCharacteristic ''CapabilityType'' (map fst (define_described_enum capability_traits)),
     Define_method Rb_cCharacteristic ''uuid'' (Member C_Characteristic ''uuid''),
     Define_method Rb_cCharacteristic ''capabilities'' (Member C_Characteristic ''capability_names''),
     Define_method Rb_cCharacteristic ''can_read?'' (Member C_Characteristic ''can_read''),
     Define_method Rb_cCharacteristic ''can_write_request?'' (Member C_Characteristic ''can_write_request''),
     Define_method Rb_cCharacteristic ''can_write_command?'' (Member C_Characteristic ''can_write_command''),
     Define_method Rb_cCharacteristic ''can_notify?'' (Member C_Characteristic ''can_notify''),
     Define_method Rb_cCharacteristic ''can_indicate?'' (Member C_Characteristic ''can_indicate''),
     Define_method Rb_cCharacteristic ''read'' (Member C_Characteristic ''read''),
     Define_method Rb_cCharacteristic ''write'' (Member C_Characteristic ''write''),
     Define_method Rb_cCharacteristic ''write_request'' (Member C_Characteristic ''write_request''),
     Define_method Rb_cCharacteristic ''write_command'' (Member C_Characteristic ''write_command''),
     Define_method Rb_cCharacteristic ''set_on_notify'' (Member C_Characteristic ''set_on_notify''),
     Define_method Rb_cCharacteristic ''set_on_indicate'' (Member C_Characteristic ''set_on_indicate''),
     Define_method Rb_cCharacteristic ''to_s'' (Member C_Characteristic ''to_s''),
     Define_method Rb_cCharacteristic ''inspect'' (Member C_Characteristic ''inspect''),
     Define_method Rb_cCharacteristic ''value_tracking'' (Member C_Characteristic ''value_tracking''),
     Define_method Rb_cCharacteristic ''value_tracking?'' (Member C_Characteristic ''value_tracking''),
     Define_method Rb_cCharacteristic ''value_tracking='' (Member C_Characteristic ''set_value_tracking''),
     Define_method Rb_cCharacteristic ''last_value'' (Member C_Characteristic ''last_value''),
     Define_class_under None (C_shared_ptr C_Characteristic) Rb_mRuBLE ''CharacteristicPtr'']"

definition Init_Service :: "init_cmd list" where
  "Init_Service = [
     Define_class_under (Some Rb_cService) C_Service Rb_mRuBLE ''Service'',
     Define_method Rb_cService ''uuid'' (Member C_Service ''uuid''),
     Define_method Rb_cService ''data'' (Member C_Service ''data''),
     Define_method Rb_cService ''characteristics'' (Member C_Service ''characteristics''),
     Define_method Rb_cService ''inspect'' (Member C_Service ''to_s''),
     Define_class_under None (C_shared_ptr C_Service) Rb_mRuBLE ''ServicePtr'']"

definition Init_Peripheral :: "init_cmd list" where
  "Init_Peripheral = [
     Define_class_under None (C_other ''SimpleBLE::Peripheral'') Rb_mRuBLEUnderlying ''Peripheral'',
     Define_class_under (Some Rb_cPeripheral) C_Peripheral Rb_mRuBLE ''Peripheral'',
     Define_method Rb_cPeripheral ''inspect'' (Member C_Peripheral ''to_s''),
     Define_method Rb_cPeripheral ''initialized?'' (Member C_Peripheral ''initialized''),
     Define_method Rb_cPeripheral ''identifier'' (Member C_Peripheral ''identifier''),
     Define_method Rb_cPeripheral ''address'' (Member C_Peripheral ''address''),
     Define_method Rb_cPeripheral ''address_type'' (Member C_Peripheral ''address_type''),
     Define_method Rb_cPeripheral ''rssi'' (Member C_Peripheral ''rssi''),
     Define_method Rb_cPeripheral ''tx_power'' (Member C_Peripheral ''tx_power''),
     Define_method Rb_cPeripheral ''mtu'' (Member C_Peripheral ''mtu''),
     Define_method Rb_cPeripheral ''connect'' (Member C_Peripheral ''connect''),
     Define_method Rb_cPeripheral ''disconnect'' (Member C_Peripheral ''disconnect''),
     Define_method Rb_cPeripheral ''connected?'' (Member C_Peripheral ''is_connected''),
     Define_method Rb_cPeripheral ''connectable?'' (Member C_Peripheral ''is_connectable''),
     Define_method Rb_cPeripheral ''paired?'' (Member C_Peripheral ''is_paired''),
     Define_method Rb_cPeripheral ''unpair'' (Member C_Peripheral ''unpair''),
     Define_method Rb_cPeripheral ''manufacturer_data'' (Member C_Peripheral ''manufacturer_data''),
     Define_method Rb_cPeripheral ''on_connect'' (Member C_Peripheral ''on_connect''),
     Define_method Rb_cPeripheral ''on_disconnect'' (Member C_Peripheral ''on_disconnect''),
     Define_singleton_function Rb_cPeripheral ''unpair_all_on_exit'' (Attribute C_Peripheral ''unpair_all_on_exit''),
     Define_singleton_function Rb_cPeripheral ''unpair_all_on_exit='' (Attribute C_Peripheral ''unpair_all_on_exit''),
     Define_class_under None (C_shared_ptr C_Peripheral) Rb_mRuBLE ''PeripheralPtr'']"

definition Init_Adapter :: "init_cmd list" where
  "Init_Adapter = [
     Define_class_under None (C_other ''SimpleBLE::Adapter'') Rb_mRuBLEUnderlying ''SimpleBLEAdapter'',
     Define_class_under (Some Rb_cAdapter) C_Adapter Rb_mRuBLE ''Adapter'',
     Define_singleton_function Rb_cAdapter ''bluetooth_enabled?'' (Static C_Adapter ''bluetooth_enabled''),
     Define_singleton_function Rb_cAdapter ''get_adapters'' (Static C_Adapter ''get_ruby_adapters''),
     Define_method Rb_cAdapter ''initialized?'' (Member C_Adapter ''initialized''),
     Define_method Rb_cAdapter ''identifier'' (Member C_Adapter ''identifier''),
     Define_method Rb_cAdapter ''address'' (Member C_Adapter ''address''),
     Define_method Rb_cAdapter ''scan_start'' (Member C_Adapter ''scan_start''),
     Define_method Rb_cAdapter ''scan_stop'' (Member C_Adapter ''scan_stop''),
     Define_method Rb_cAdapter ''scan_for'' (Member C_Adapter ''scan_for''),
     Define_method Rb_cAdapter ''scanning?'' (Member C_Adapter ''scan_is_active''),
     Define_method Rb_cAdapter ''scan_get_results'' (Member C_Adapter ''scan_get_ruby_results''),
     Define_method Rb_cAdapter ''get_paired_peripherals'' (Member C_Adapter ''get_ruby_paired_peripherals''),
     Define_method Rb_cAdapter ''on_scan_start'' (Member C_Adapter ''on_scan_start''),
     Define_method Rb_cAdapter ''on_scan_stop'' (Member C_Adapter ''on_scan_stop''),
     Define_method Rb_cAdapter ''on_scan_update'' (Member C_Adapter ''on_scan_update''),
     Define_method Rb_cAdapter ''on_scan_find'' (Member C_Adapter ''on_scan_find'')]"

definition Init_Registries_interface :: "init_cmd list" where
  "Init_Registries_interface = [
     Define_class_under (Some Rb_cAdapterRegistry) C_AdapterRegistry Rb_mRuBLE ''AdapterRegistry'',
     Define_method Rb_cAdapterRegistry ''size'' (Member C_AdapterRegistry ''size''),
     Define_method Rb_cAdapterRegistry ''to_s'' (Member C_AdapterRegistry ''to_s''),
     Define_class_under None (C_other ''AdapterRegistry::Collection'') Rb_cAdapterRegistry ''Map'',
     Define_singleton_function Rb_cAdapterRegistry ''registry'' (Free ''adapterRegistry''),
     Iv_set Rb_cAdapterRegistry ''@registry'',
     Define_class_under (Some Rb_cPeripheralRegistry) C_PeripheralRegistry Rb_mRuBLE ''PeripheralRegistry'',
     Define_method Rb_cPeripheralRegistry ''to_s'' (Member C_PeripheralRegistry ''to_s''),
     Define_method Rb_cPeripheralRegistry ''size'' (Member C_PeripheralRegistry ''size''),
     Define_method Rb_cAdapter ''peripheral_registry'' (Attribute C_Adapter ''_peripheral_registry''),
     Define_class_under (Some Rb_cServiceRegistry) C_ServiceRegistry Rb_mRuBLE ''ServiceRegistry'',
     Define_method Rb_cServiceRegistry ''to_s'' (Member C_ServiceRegistry ''to_s''),
     Define_method Rb_cServiceRegistry ''size'' (Member C_ServiceRegistry ''size''),
     Define_class_under None (C_other ''Peripheral::ServiceMap'') Rb_cPeripheral ''ServiceMap'',
     Define_method Rb_cPeripheral ''services'' (Member C_Peripheral ''services''),
     Define_method Rb_cPeripheral ''[]'' (Member C_Peripheral ''operator[]''),
     Define_method Rb_cPeripheral ''service_registry'' (Attribute C_Peripheral ''_service_registry''),
     Define_class_under (Some Rb_cCharacteristicRegistry) C_CharacteristicRegistry Rb_mRuBLE ''CharacteristicRegistry'',
     Define_method Rb_cCharacteristicRegistry ''to_s'' (Member C_ServiceRegistry ''to_s''),
     Define_method Rb_cCharacteristicRegistry ''size'' (Member C_ServiceRegistry ''size''),
     Define_class_under None (C_other ''CharacteristicRegistry::Collection'') Rb_cService ''CharacteristicMap'',
     Define_method Rb_cService ''characteristics'' (Member C_Service ''characteristics''),
     Define_method Rb_cService ''[]'' (Member C_Service ''operator[]''),
     Define_method Rb_cService ''characteristic_registry'' (Attribute C_Service ''_characteristic_registry''),
     Define_class_under None (C_other ''Characteristic::DescriptorMap'') Rb_cCharacteristic ''DescriptorMap'',
     Define_method Rb_cCharacteristic ''descriptors'' (Member C_Characteristic ''descriptors''),
     Define_method Rb_cCharacteristic ''[]'' (Member C_Characteristic ''operator[]''),
     Define_method Rb_cCharacteristic ''descriptors'' (Attribute C_Characteristic ''_descriptors'')]"

definition Init_BluetoothAddressType :: "init_cmd list" where
  "Init_BluetoothAddressType = [
     Define_described_enum Rb_cBluetoothAddressType Rb_mRuBLE ''BluetoothAddressType''
       (map fst (define_described_enum address_type_traits))]"

definition Init_Utils :: "bool \<Rightarrow> init_cmd list" where
  "Init_Utils debug = Define_module_under Rb_mUtils Rb_mRuBLE ''Utils'' #
     (if debug then [Define_singleton_function Rb_mUtils ''throw_cxx_exception'' (Free ''throw_exception'')] else [])"

definition Init_DeInit :: "init_cmd list" where
  "Init_DeInit = [
     Define_singleton_function Rb_mRuBLE ''shutdown'' (Free ''DeInit''),
     Set_end_proc (Free ''DeInit'')]"

text \<open>The part of \<open>Init_RuBLE\<close> that speaks to Ruby; \<open>Init_modules\<close> is what comes before \<open>Init_Registries\<close>.\<close>

definition Init_modules :: "bool \<Rightarrow> init_cmd list" where
  "Init_modules debug =
     [Define_module Rb_mRuBLE ''RuBLE''] @
     (if debug then [Define_singleton_function Rb_mRuBLE ''c_debug'' (Free ''c_debug'')] else []) @
     [Define_module_under Rb_mRuBLEUnderlying Rb_mRuBLE ''Underlying''] @
     Init_Utils debug @ Init_BluetoothAddressType @ Init_ByteArray @ Init_Descriptor @ Init_Characteristic @
     Init_Service @ Init_Peripheral @ Init_Adapter"

definition Init_interface :: "bool \<Rightarrow> init_cmd list" where
  "Init_interface debug = Init_modules debug @ Init_Registries_interface @ Init_DeInit"

subsection \<open>Typing\<close>

text \<open>
  A method is well typed when the function it runs is a member, or the attribute read is one, of the C++
  class that its Ruby class wraps. The check goes through a script once, with the types of the
  variables assigned so far; it answers the ill-typed methods, or nothing for a script that uses a
  variable too early or assigns one twice.
\<close>

fun fn_class :: "cpp_fn \<Rightarrow> cpp_class option" where
  "fn_class (Member cls f) = Some cls"
| "fn_class (Attribute cls f) = Some cls"
| "fn_class (Static cls f) = None"
| "fn_class (Free f) = None"

type_synonym tyenv = "(rb_var \<times> cpp_class option) list"

definition method_typed :: "tyenv \<Rightarrow> ((rb_var \<times> string) \<times> cpp_fn) \<Rightarrow> bool" where
  "method_typed G m = (case m of ((v, name), fn) \<Rightarrow>
     fn_class fn \<noteq> None \<and> map_of G v = Some (fn_class fn))"

fun check_cmd :: "init_cmd \<Rightarrow> tyenv \<Rightarrow> (((rb_var \<times> string) \<times> cpp_fn) list \<times> tyenv) option" where
  "check_cmd (Define_module v name) G = (if map_of G v = None then Some ([], (v, None) # G) else None)"
| "check_cmd (Define_module_under v parent name) G =
     (if map_of G parent \<noteq> None \<and> map_of G v = None then Some ([], (v, None) # G) else None)"
| "check_cmd (Define_class_under (Some v) cpp parent name) G =
     (if map_of G parent \<noteq> None \<and> map_of G v = None then Some ([], (v, Some cpp) # G) else None)"
| "check_cmd (Define_class_under None cpp parent name) G = (if map_of G parent \<noteq> None then Some ([], G) else None)"
| "check_cmd (Define_described_enum v parent name consts) G =
     (if map_of G parent \<noteq> None \<and> map_of G v = None then Some ([], (v, None) # G) else None)"
| "check_cmd (Define_method v name fn) G = (if map_of G v \<noteq> None
     then Some (if method_typed G ((v, name), fn) then [] else [((v, name), fn)], G) else None)"
| "check_cmd (Define_singleton_function v name fn) G = (if map_of G v \<noteq> None then Some ([], G) else None)"
| "check_cmd (Iv_set v name) G = (if map_of G v \<noteq> None then Some ([], G) else None)"
| "check_cmd (Set_end_proc fn) G = Some ([], G)"

fun check :: "init_cmd list \<Rightarrow> tyenv \<Rightarrow> (((rb_var \<times> string) \<times> cpp_fn) list \<times> tyenv) option" where
  "check [] G = Some ([], G)"
| "check (c # cs) G = (case check_cmd c G of None \<Rightarrow> None
     | Some (bad, G') \<Rightarrow> (case check cs G' of None \<Rightarrow> None | Some (bad', G'') \<Rightarrow> Some (bad @ bad', G'')))"

definition types_of :: "rice \<Rightarrow> tyenv" where
  "types_of s = map (\<lambda>(v, path, cls). (v, cls)) (rc_vars s)"

definition ill_typed :: "rice \<Rightarrow> ((rb_var \<times> string) \<times> cpp_fn) list" where
  "ill_typed s = filter (\<lambda>m. \<not> method_typed (types_of s) m) (rc_methods s)"

lemma types_of_find: "map_of (types_of s) v = map_option snd (map_of (rc_vars s) v)"
proof -
  have "map_of (map (\<lambda>(v, path, cls). (v, cls)) xs) v = map_option snd (map_of xs v)"
    for xs :: "(rb_var \<times> string \<times> cpp_class option) list" and v by (induction xs) auto
  then show ?thesis by (simp add: types_of_def)
qed

lemma path_of_bound: "map_of (types_of s) v \<noteq> None \<Longrightarrow> \<exists>p. path_of s v = Inr p"
  by (auto simp: types_of_find path_of_def)

text \<open>A new variable does not change the type of a method of an old one.\<close>

definition methods_bound :: "rice \<Rightarrow> bool" where
  "methods_bound s \<longleftrightarrow> (\<forall>((v, name), fn) \<in> set (rc_methods s). map_of (types_of s) v \<noteq> None)"

lemma method_typed_extend:
  "map_of G w = None \<Longrightarrow> map_of G v \<noteq> None \<Longrightarrow> method_typed ((w, x) # G) ((v, n), fn) = method_typed G ((v, n), fn)"
  by (auto simp: method_typed_def)

lemma ill_typed_extend:
  assumes "methods_bound s" and "map_of (types_of s) w = None"
    and "rc_methods t = rc_methods s" and "types_of t = (w, x) # types_of s"
  shows "ill_typed t = ill_typed s \<and> methods_bound t"
  using assms by (auto simp: ill_typed_def methods_bound_def method_typed_extend intro!: filter_cong)

lemma check_cmd_sound:
  assumes "check_cmd c (types_of s) = Some (bad, G)" and "methods_bound s"
  shows "\<exists>t. run_cmd c s = Inr t \<and> types_of t = G \<and> ill_typed t = rev bad @ ill_typed s \<and> methods_bound t"
proof -
  have bound: "\<exists>p. path_of s v = Inr p" if "map_of (types_of s) v \<noteq> None" for v
    using that by (rule path_of_bound)
  have new: "types_of u = (w, x) # types_of s \<and> ill_typed u = ill_typed s \<and> methods_bound u"
    if "map_of (types_of s) w = None" "rc_methods u = rc_methods s" "rc_vars u = (w, p, x) # rc_vars s" for u w p x
  proof -
    have "types_of u = (w, x) # types_of s" using that(3) by (simp add: types_of_def)
    then show ?thesis using ill_typed_extend [OF assms(2) that(1,2)] by blast
  qed
  have same: "types_of u = types_of s \<and> ill_typed u = ill_typed s \<and> methods_bound u"
    if "rc_methods u = rc_methods s" "rc_vars u = rc_vars s" for u
    using that assms(2) by (simp add: types_of_def ill_typed_def methods_bound_def)
  show ?thesis
  proof (cases c)
    case (Define_module v name)
    let ?t = "s\<lparr>rc_vars := (v, name, None) # rc_vars s\<rparr>"
    have c: "map_of (types_of s) v = None" "bad = []" "G = (v, None) # types_of s"
      using assms(1) Define_module by (auto split: if_splits)
    show ?thesis using new [of v ?t name None] c Define_module by simp
  next
    case (Define_module_under v parent name)
    have c: "map_of (types_of s) parent \<noteq> None" "map_of (types_of s) v = None" "bad = []" "G = (v, None) # types_of s"
      using assms(1) Define_module_under by (auto split: if_splits)
    obtain p where p: "path_of s parent = Inr p" using bound [OF c(1)] by auto
    let ?t = "s\<lparr>rc_vars := (v, under p name, None) # rc_vars s\<rparr>"
    show ?thesis using new [of v ?t "under p name" None] c p Define_module_under by simp
  next
    case (Define_class_under w cpp parent name)
    have c: "map_of (types_of s) parent \<noteq> None" "bad = []"
      using assms(1) Define_class_under by (cases w, auto split: if_splits)+
    obtain p where p: "path_of s parent = Inr p" using bound [OF c(1)] by auto
    show ?thesis
    proof (cases w)
      case None
      let ?t = "s\<lparr>rc_classes := (under p name, cpp) # rc_classes s\<rparr>"
      have "G = types_of s" using assms(1) Define_class_under None by (auto split: if_splits)
      then show ?thesis using same [of ?t] c p Define_class_under None by simp
    next
      case (Some v)
      let ?t = "s\<lparr>rc_vars := (v, under p name, Some cpp) # rc_vars s\<rparr>"
      have d: "map_of (types_of s) v = None" "G = (v, Some cpp) # types_of s"
        using assms(1) Define_class_under Some by (auto split: if_splits)
      show ?thesis using new [of v ?t "under p name" "Some cpp"] c d p Define_class_under Some by simp
    qed
  next
    case (Define_described_enum v parent name items)
    have c: "map_of (types_of s) parent \<noteq> None" "map_of (types_of s) v = None" "bad = []" "G = (v, None) # types_of s"
      using assms(1) Define_described_enum by (auto split: if_splits)
    obtain p where p: "path_of s parent = Inr p" using bound [OF c(1)] by auto
    let ?t = "s\<lparr>rc_vars := (v, under p name, None) # rc_vars s,
                rc_constants := rc_constants s @ map (\<lambda>c. (under p name, c)) items\<rparr>"
    show ?thesis using new [of v ?t "under p name" None] c p Define_described_enum by simp
  next
    case (Define_method v name fn)
    have c: "map_of (types_of s) v \<noteq> None" "G = types_of s"
      "bad = (if method_typed (types_of s) ((v, name), fn) then [] else [((v, name), fn)])"
      using assms(1) Define_method by (auto split: if_splits)
    obtain p where p: "path_of s v = Inr p" using bound [OF c(1)] by auto
    let ?t = "s\<lparr>rc_methods := ((v, name), fn) # rc_methods s\<rparr>"
    have t: "types_of ?t = types_of s" by (simp add: types_of_def)
    have "methods_bound ?t" using assms(2) c(1) by (simp add: methods_bound_def t)
    moreover have "ill_typed ?t = rev bad @ ill_typed s" by (simp add: ill_typed_def t c(3))
    ultimately show ?thesis using Define_method p t c(2) by simp
  next
    case (Define_singleton_function v name fn)
    have c: "map_of (types_of s) v \<noteq> None" "bad = []" "G = types_of s"
      using assms(1) Define_singleton_function by (auto split: if_splits)
    obtain p where p: "path_of s v = Inr p" using bound [OF c(1)] by auto
    show ?thesis using same [of "s\<lparr>rc_singletons := ((v, name), fn) # rc_singletons s\<rparr>"] c p
        Define_singleton_function by simp
  next
    case (Iv_set v name)
    have c: "map_of (types_of s) v \<noteq> None" "bad = []" "G = types_of s"
      using assms(1) Iv_set by (auto split: if_splits)
    obtain p where p: "path_of s v = Inr p" using bound [OF c(1)] by auto
    show ?thesis using same [of "s\<lparr>rc_ivars := (v, name) # rc_ivars s\<rparr>"] c p Iv_set by simp
  next
    case (Set_end_proc fn)
    show ?thesis using same [of "s\<lparr>rc_end_procs := fn # rc_end_procs s\<rparr>"] assms(1) Set_end_proc by simp
  qed
qed

lemma check_sound:
  "check cmds (types_of s) = Some (bad, G) \<Longrightarrow> methods_bound s \<Longrightarrow>
     \<exists>t. run_init cmds s = Inr t \<and> types_of t = G \<and> ill_typed t = rev bad @ ill_typed s"
proof (induction cmds arbitrary: s bad)
  case Nil
  then show ?case by (simp add: run_init_def)
next
  case (Cons c cs)
  obtain b1 G1 where c: "check_cmd c (types_of s) = Some (b1, G1)"
    using Cons.prems(1) by (auto split: option.splits)
  obtain t where t: "run_cmd c s = Inr t" "types_of t = G1" "ill_typed t = rev b1 @ ill_typed s" "methods_bound t"
    using check_cmd_sound [OF c Cons.prems(2)] by blast
  obtain b2 where b2: "check cs (types_of t) = Some (b2, G)" "bad = b1 @ b2"
    using Cons.prems(1) c t(2) by (auto split: option.splits)
  obtain u where "run_init cs t = Inr u" "types_of u = G" "ill_typed u = rev b2 @ ill_typed t"
    using Cons.IH [OF b2(1) t(4)] by blast
  then show ?case using t b2(2) by (simp add: run_init_def)
qed

lemma check_append:
  "check (xs @ ys) G = (case check xs G of None \<Rightarrow> None
     | Some (bad, G') \<Rightarrow> (case check ys G' of None \<Rightarrow> None | Some (bad', G'') \<Rightarrow> Some (bad @ bad', G'')))"
  by (induction xs arbitrary: G) (auto split: option.splits)

text \<open>The methods that a script defines, the newest first, in front of those defined before it.\<close>

fun defined_methods :: "init_cmd list \<Rightarrow> ((rb_var \<times> string) \<times> cpp_fn) list \<Rightarrow> ((rb_var \<times> string) \<times> cpp_fn) list" where
  "defined_methods [] ms = ms"
| "defined_methods (Define_method v name fn # cs) ms = defined_methods cs (((v, name), fn) # ms)"
| "defined_methods (c # cs) ms = defined_methods cs ms"

lemma run_methods: "run_init cmds s = Inr t \<Longrightarrow> rc_methods t = defined_methods cmds (rc_methods s)"
proof (induction cmds arbitrary: s)
  case (Cons c cs)
  obtain u where u: "run_cmd c s = Inr u" "run_init cs u = Inr t"
    using Cons.prems by (auto simp: run_init_def bindR_Inr_iff)
  have "defined_methods (c # cs) (rc_methods s) = defined_methods cs (rc_methods u)"
    using u(1) by (cases "(c, s)" rule: run_cmd.cases) (auto simp: bindR_Inr_iff)
  then show ?case using Cons.IH [OF u(2)] by simp
qed (simp add: run_init_def)

lemma defined_methods_append: "defined_methods (xs @ ys) ms = defined_methods ys (defined_methods xs ms)"
  by (induction xs ms rule: defined_methods.induct) simp_all

subsection \<open>Properties\<close>

lemmas init_scripts = Init_interface_def Init_modules_def Init_Utils_def Init_BluetoothAddressType_def Init_ByteArray_def
  Init_Descriptor_def Init_Characteristic_def Init_Service_def Init_Peripheral_def Init_Adapter_def
  Init_Registries_interface_def Init_DeInit_def

lemma check_interface:
  "\<exists>G. check (Init_interface debug) [] = Some
     ([((Rb_cCharacteristicRegistry, ''to_s''), Member C_ServiceRegistry ''to_s''),
       ((Rb_cCharacteristicRegistry, ''size''), Member C_ServiceRegistry ''size'')], G)"
  by (cases debug) (simp_all add: init_scripts method_typed_def)

lemma run_interface:
  "\<exists>t. run_init (Init_interface debug) rice_new = Inr t \<and>
     ill_typed t = [((Rb_cCharacteristicRegistry, ''size''), Member C_ServiceRegistry ''size''),
       ((Rb_cCharacteristicRegistry, ''to_s''), Member C_ServiceRegistry ''to_s'')]"
proof -
  have new: "types_of rice_new = []" "methods_bound rice_new" "ill_typed rice_new = []"
    by (simp_all add: types_of_def rice_new_def methods_bound_def ill_typed_def)
  obtain G where "check (Init_interface debug) (types_of rice_new) = Some
     ([((Rb_cCharacteristicRegistry, ''to_s''), Member C_ServiceRegistry ''to_s''),
       ((Rb_cCharacteristicRegistry, ''size''), Member C_ServiceRegistry ''size'')], G)"
    using check_interface [of debug] new(1) by auto
  from check_sound [OF this new(2)] new(3) show ?thesis by auto
qed

text \<open>
  C38. The start-up defines its interface without using any module or class before it exists, and
  every method of it runs a member, or reads an attribute, of the C++ class that its Ruby class wraps,
  with two exceptions: \<open>size\<close> and \<open>to_s\<close> of \<open>CharacteristicRegistry\<close> are bound to members of
  \<open>ServiceRegistry\<close>.
\<close>

theorem interface_well_typed:
  "\<exists>t. run_init (Init_interface debug) rice_new = Inr t \<and>
     ill_typed t = [((Rb_cCharacteristicRegistry, ''size''), Member C_ServiceRegistry ''size''),
       ((Rb_cCharacteristicRegistry, ''to_s''), Member C_ServiceRegistry ''to_s'')]"
  using run_interface [of debug] .

text \<open>
  The start-up binds \<open>descriptors\<close> of a characteristic twice, and the second binding, to the cache
  \<open>_descriptors\<close>, replaces the member function that reads the descriptors on demand.
\<close>

theorem interface_descriptors_replaced:
  assumes "run_init (Init_interface debug) rice_new = Inr t"
  shows "((Rb_cCharacteristic, ''descriptors''), Member C_Characteristic ''descriptors'') \<in> set (rc_methods t) \<and>
    method_of t Rb_cCharacteristic ''descriptors'' = Some (Attribute C_Characteristic ''_descriptors'')"
  unfolding method_of_def run_methods [OF assms] Init_interface_def defined_methods_append
  by (simp add: Init_Registries_interface_def Init_DeInit_def del: append.simps)

theorem interface_descriptors_replaced_witness:
  "map_option (\<lambda>s. method_of s Rb_cCharacteristic ''descriptors'')
     (case run_init (Init_interface False) rice_new of Inl e \<Rightarrow> None | Inr s \<Rightarrow> Some s)
   = Some (Some (Attribute C_Characteristic ''_descriptors''))"
proof -
  obtain t where t: "run_init (Init_interface False) rice_new = Inr t" using run_interface [of False] by blast
  then show ?thesis using interface_descriptors_replaced [OF t] by simp
qed

end
