(* ===== verification/Startup.thy ===== *)
theory Startup imports Ruby_Interface Exception_Handling Ruby_Context Event_Delivery begin

text \<open>
  \<open>Init_RuBLE\<close> of \<open>bindings/RuBLE.cpp\<close>, the entry point that Ruby calls when it loads the extension: the
  guard of the main thread, the terminate handler, the interface given to Ruby, the registry of
  adapters and the start of the queue, composed of the models of these parts. Guard 0 is the static
  \<open>main_thread_in_ruby\<close> and guard 1 the temporary one that is moved into it.
\<close>

record 'b extension =
  x_context :: context_state
  x_handlers :: handlers
  x_instances_enabled :: bool
  x_rice :: rice
  x_world :: "'b world"
  x_queue :: "item rq option"

text \<open>The state when the library was loaded: the static guard is there, the rest is not.\<close>

definition extension_new :: "handler \<Rightarrow> 'b \<Rightarrow> 'b extension" where
  "extension_new f b = \<lparr>x_context = guard_default 0 context_init, x_handlers = handlers_new (Some f),
     x_instances_enabled = False, x_rice = rice_new, x_world = world_blank b, x_queue = None\<rparr>"

definition Init_main_guard :: "('b extension, unit) act" where
  "Init_main_guard = seqA (modifyA (\<lambda>x. x\<lparr>x_context :=
       guard_destroy 1 (guard_move_assign 0 1 (assert_in_ruby_guard 1 (x_context x)))\<rparr>))
     (bindA (getA (\<lambda>x. guards (x_context x) 0)) (\<lambda>g. if g = Some True then retA () else throwA AssertionFailure))"

definition Init_ExceptionHandling :: "('b extension, unit) act" where
  "Init_ExceptionHandling x = (case wrap_termination_handler (x_handlers x) of
     (r, h) \<Rightarrow> (r, x\<lparr>x_handlers := h\<rparr>))"

definition Init_script :: "init_cmd list \<Rightarrow> ('b extension, unit) act" where
  "Init_script cmds x = (case run_init cmds (x_rice x) of
     Inl e \<Rightarrow> (Inl e, x) | Inr t \<Rightarrow> (Inr (), x\<lparr>x_rice := t\<rparr>))"

definition Init_world :: "('b world, unit) act \<Rightarrow> ('b extension, unit) act" where
  "Init_world m x = (case m (x_world x) of (r, w) \<Rightarrow> (r, x\<lparr>x_world := w\<rparr>))"

text \<open>\<open>RubyQueue::instance\<close>.\<close>

definition queue_instance :: "item rq option \<Rightarrow> item rq" where
  "queue_instance q = (case q of None \<Rightarrow> rq_new | Some q \<Rightarrow> q)"

text \<open>Everything before the queue is started.\<close>

definition Init_before_start :: "'b env \<Rightarrow> ('b extension, unit) act" where
  "Init_before_start E =
     seqA Init_main_guard
    (seqA Init_ExceptionHandling
    (seqA (modifyA (\<lambda>x. x\<lparr>x_instances_enabled := True\<rparr>))
    (seqA (modifyA (\<lambda>x. x\<lparr>x_queue := Some (queue_instance (x_queue x))\<rparr>))
    (seqA (Init_script (Init_modules (e_debug E)))
    (seqA (Init_script Init_Registries_interface)
    (seqA (Init_world (Init_Registries E))
          (Init_script Init_DeInit)))))))"

text \<open>
  \<open>sched k q\<close> is what the loop's thread made of the queue by round \<open>k\<close> of the wait; \<open>None\<close> is not
  returning.
\<close>

definition Init_RuBLE ::
  "'b env \<Rightarrow> (nat \<Rightarrow> item rq \<Rightarrow> item rq) \<Rightarrow> int \<Rightarrow> (nat \<Rightarrow> int) \<Rightarrow> 'b extension \<Rightarrow> (unit result \<times> 'b extension) option" where
  "Init_RuBLE E sched now clock x = (case Init_before_start E x of
     (Inl e, y) \<Rightarrow> Some (Inl e, y)
   | (Inr u, y) \<Rightarrow> map_option (\<lambda>(r, q). (r, y\<lparr>x_queue := Some q\<rparr>))
       (ensure_started sched now clock (start (queue_instance (x_queue y)))))"

subsection \<open>Lemmas\<close>

lemma Init_Registries_blank:
  "\<exists>w. Init_Registries E (world_blank b) = (Inr (), w) \<and> w_adapter_registry w = Some 0"
  by (simp add: Init_Registries_def factory_registry_def adapter_class_def world_blank_def factory_new_def
      new_rb_value_def bindA_def seqA_def act_simps)

lemma main_guard_first:
  "Init_main_guard x = (Inr (), x\<lparr>x_context := \<lparr>use_count = 2, guards = [0 \<mapsto> True]\<rparr>\<rparr>)"
  if "x_context x = guard_default 0 context_init"
  using that by (simp add: Init_main_guard_def guard_default_def context_init_def assert_in_ruby_guard_def
      guard_move_assign_def guard_destroy_def Let_def seqA_def bindA_def act_simps fun_eq_iff)

lemma main_guard_again:
  "Init_main_guard x = (Inr (), x\<lparr>x_context := \<lparr>use_count = 3, guards = [0 \<mapsto> True]\<rparr>\<rparr>)"
  if "x_context x = \<lparr>use_count = 2, guards = [0 \<mapsto> True]\<rparr>"
  using that by (simp add: Init_main_guard_def assert_in_ruby_guard_def
      guard_move_assign_def guard_destroy_def Let_def seqA_def bindA_def act_simps fun_eq_iff)

text \<open>The part before the queue starts cannot fail the first time.\<close>

lemma before_start_first:
  obtains t w where "Init_before_start E (extension_new f b) = (Inr (),
      \<lparr>x_context = \<lparr>use_count = 2, guards = [0 \<mapsto> True]\<rparr>,
       x_handlers = \<lparr>h_current = Some RubleHandler, h_old = Some f\<rparr>, x_instances_enabled = True,
       x_rice = t, x_world = w, x_queue = Some rq_new\<rparr>)"
    and "run_init (Init_interface (e_debug E)) rice_new = Inr t"
    and "Init_Registries E (world_blank b) = (Inr (), w)" and "w_adapter_registry w = Some 0"
proof -
  obtain t where t: "run_init (Init_interface (e_debug E)) rice_new = Inr t"
    using run_interface [of "e_debug E"] by blast
  then obtain t1 t2 where r: "run_init (Init_modules (e_debug E)) rice_new = Inr t1"
      "run_init Init_Registries_interface t1 = Inr t2" "run_init Init_DeInit t2 = Inr t"
    by (auto simp: Init_interface_def run_init_def foldR_append bindR_Inr_iff)
  obtain w where w: "Init_Registries E (world_blank b) = (Inr (), w)" "w_adapter_registry w = Some 0"
    using Init_Registries_blank [of E b] by blast
  have "Init_before_start E (extension_new f b) = (Inr (),
      \<lparr>x_context = \<lparr>use_count = 2, guards = [0 \<mapsto> True]\<rparr>,
       x_handlers = \<lparr>h_current = Some RubleHandler, h_old = Some f\<rparr>, x_instances_enabled = True,
       x_rice = t, x_world = w, x_queue = Some rq_new\<rparr>)"
    using r w(1)
    by (simp add: Init_before_start_def seqA_apply main_guard_first extension_new_def Init_ExceptionHandling_def
        wrap_termination_handler_def handlers_new_def bindA_def seqA_def act_simps Init_script_def Init_world_def
        queue_instance_def)
  then show ?thesis using that t w by blast
qed

lemma before_start_again:
  assumes "x_context x = \<lparr>use_count = 2, guards = [0 \<mapsto> True]\<rparr>" and "h_old (x_handlers x) = Some f"
  shows "Init_before_start E x = (Inl (RuntimeError ''Old terminate exception already set. Would overflow.''),
    x\<lparr>x_context := \<lparr>use_count = 3, guards = [0 \<mapsto> True]\<rparr>\<rparr>)"
  using assms(2)
  by (simp add: Init_before_start_def seqA_apply main_guard_again [OF assms(1)] Init_ExceptionHandling_def
      wrap_termination_handler_def bindA_def seqA_def act_simps)

lemma load_again:
  assumes "x_context x = \<lparr>use_count = 2, guards = [0 \<mapsto> True]\<rparr>" and "h_old (x_handlers x) = Some f"
  shows "Init_RuBLE E sched now clock x =
    Some (Inl (RuntimeError ''Old terminate exception already set. Would overflow.''),
      x\<lparr>x_context := \<lparr>use_count = 3, guards = [0 \<mapsto> True]\<rparr>\<rparr>)"
  by (simp add: Init_RuBLE_def before_start_again [OF assms])

subsection \<open>Properties\<close>

text \<open>
  C23. Loading the extension into a fresh process returns after at most 61 sleeps. It succeeds exactly when
  the queue's thread answers by the last poll; then the interface is defined, the registry of
  adapters exists, the old terminate handler is kept and the queue runs on with its startup latch
  taken; otherwise the queue is killed and the load throws. Either way the main thread counts as in
  Ruby, twice for its single guard. A second load throws before it touches the interface, the
  registry or the queue, and leaves the thread counted once more.
\<close>

theorem Init_RuBLE_outcome:
  assumes "now \<le> clock 0" and "\<And>k. clock k + sleep_ms \<le> clock (Suc k)"
  shows "\<exists>k \<le> 61. \<exists>r x. Init_RuBLE E sched now clock (extension_new f b) = Some (r, x) \<and>
    (r = Inr () \<longleftrightarrow> rq_latch (sched k (start rq_new))) \<and>
    x_queue x = Some (if r = Inr () then (sched k (start rq_new))\<lparr>rq_latch := False\<rparr> else kill (sched k (start rq_new))) \<and>
    run_init (Init_interface (e_debug E)) rice_new = Inr (x_rice x) \<and>
    Init_Registries E (world_blank b) = (Inr (), x_world x) \<and> w_adapter_registry (x_world x) = Some 0 \<and>
    h_current (x_handlers x) = Some RubleHandler \<and> h_old (x_handlers x) = Some f \<and>
    engaged (x_context x) = {0} \<and> use_count (x_context x) = 2 \<and>
    (\<exists>y. Init_RuBLE E sched' now' clock' x =
        Some (Inl (RuntimeError ''Old terminate exception already set. Would overflow.''), y) \<and>
      use_count (x_context y) = 3 \<and> x_queue y = x_queue x \<and> x_rice y = x_rice x \<and> x_world y = x_world x)"
proof -
  obtain t w where 1: "Init_before_start E (extension_new f b) = (Inr (),
      \<lparr>x_context = \<lparr>use_count = 2, guards = [0 \<mapsto> True]\<rparr>,
       x_handlers = \<lparr>h_current = Some RubleHandler, h_old = Some f\<rparr>, x_instances_enabled = True,
       x_rice = t, x_world = w, x_queue = Some rq_new\<rparr>)" (is "_ = (_, ?x)")
    and t: "run_init (Init_interface (e_debug E)) rice_new = Inr t"
    and w: "Init_Registries E (world_blank b) = (Inr (), w)" "w_adapter_registry w = Some 0"
    by (rule before_start_first)
  obtain k where k: "k \<le> 61" "ensure_started sched now clock (start rq_new) =
      Some (if rq_latch (sched k (start rq_new)) then (Inr (), (sched k (start rq_new))\<lparr>rq_latch := False\<rparr>)
        else (Inl (RuntimeError ''RuBLE queue failed to start. Aborting.''), kill (sched k (start rq_new))))"
    using ensure_started_returns [of now clock sched "start rq_new", OF assms] by blast
  let ?ok = "rq_latch (sched k (start rq_new))"
  let ?y = "?x\<lparr>x_queue := Some (if ?ok then (sched k (start rq_new))\<lparr>rq_latch := False\<rparr> else kill (sched k (start rq_new)))\<rparr>"
  let ?r = "if ?ok then Inr () else Inl (RuntimeError ''RuBLE queue failed to start. Aborting.'')"
  have first: "Init_RuBLE E sched now clock (extension_new f b) = Some (?r, ?y)"
    by (simp add: Init_RuBLE_def 1 queue_instance_def k(2))
  show ?thesis
    by (rule exI [of _ k], rule conjI [OF k(1)], rule exI [of _ ?r], rule exI [of _ ?y])
      (simp add: first load_again t w engaged_def)
qed

theorem Init_RuBLE_outcome_witness:
  "\<exists>x. Init_RuBLE sample_env (\<lambda>k. loop_steps True 3) 0 (\<lambda>k. 250 * int k) (extension_new (OtherHandler 1) []) = Some (Inr (), x)"
proof -
  have "(0::int) \<le> 250 * int 0" and "\<And>k. 250 * int k + sleep_ms \<le> 250 * int (Suc k)"
    by (simp_all add: sleep_ms_def)
  from Init_RuBLE_outcome [OF this, where E = sample_env and sched = "\<lambda>k. loop_steps True 3" and f = "OtherHandler 1" and b = "[]"]
  show ?thesis by (fastforce simp: rq_examples)
qed

end
