(* ===== verification/Garbage_Collection.thy ===== *)
theory Garbage_Collection imports Gatt_Shutdown Rubyable begin

text \<open>
  \<open>utils/garbage_collection.cpp\<close>: which C++ classes have a specialisation of \<open>Rice::ruby_mark\<close>, the function
  Rice calls for each wrapped object when Ruby marks it, and which objects refer to which. Rice's
  own version, which an object of any other class gets, marks nothing.
\<close>

datatype managed =
    M_ByteArray rubyable
  | M_Callback callback
  | M_Adapter nat | M_AdapterRegistry nat | M_AdapterRegistryFactory
  | M_Peripheral nat | M_PeripheralRegistry nat | M_PeripheralRegistryFactory
  | M_Service nat | M_ServiceRegistry nat | M_ServiceRegistryFactory
  | M_Characteristic nat | M_CharacteristicRegistry nat | M_CharacteristicRegistryFactory
  | M_Descriptor descriptor

fun ruby_mark :: "'b env \<Rightarrow> managed \<Rightarrow> 'b world \<Rightarrow> rb_value list" where
  "ruby_mark E M_AdapterRegistryFactory w = factory_mark (adapter_class E) (adapter_mark E) w"
| "ruby_mark E (M_ByteArray b) w = rubyable_mark b"
| "ruby_mark E M_PeripheralRegistryFactory w = factory_mark (peripheral_class E) (peripheral_mark E) w"
| "ruby_mark E M_ServiceRegistryFactory w = factory_mark (service_class E) (service_mark E) w"
| "ruby_mark E M_CharacteristicRegistryFactory w = factory_mark (characteristic_class E) characteristic_mark w"
| "ruby_mark E (M_AdapterRegistry r) w = registry_mark (adapter_class E) (adapter_mark E) r w"
| "ruby_mark E (M_PeripheralRegistry r) w = registry_mark (peripheral_class E) (peripheral_mark E) r w"
| "ruby_mark E (M_ServiceRegistry r) w = registry_mark (service_class E) (service_mark E) r w"
| "ruby_mark E (M_CharacteristicRegistry r) w = registry_mark (characteristic_class E) characteristic_mark r w"
| "ruby_mark E (M_Service s) w = service_mark E s w"
| "ruby_mark E (M_Adapter a) w = adapter_mark E a w"
| "ruby_mark E (M_Characteristic c) w = characteristic_mark c w"
| "ruby_mark E (M_Peripheral p) w = peripheral_mark E p w"
| "ruby_mark E (M_Callback k) w = callback_mark k"
| "ruby_mark E (M_Descriptor d) w = []"

text \<open>The Ruby object that stands for a C++ object, when there is one of its own.\<close>

fun self_of :: "'b env \<Rightarrow> managed \<Rightarrow> 'b world \<Rightarrow> rb_value option" where
  "self_of E (M_Adapter a) w = map_option a_self (live (w_adapters w) a)"
| "self_of E (M_Peripheral p) w = map_option p_self (live (w_peripherals w) p)"
| "self_of E (M_Service s) w = map_option s_self (live (w_services w) s)"
| "self_of E (M_Characteristic c) w = map_option c_self (live (w_characteristics w) c)"
| "self_of E (M_AdapterRegistry r) w = Some (RObject (reg_self (fac_regs (w_adapter_regs w) ! r)))"
| "self_of E (M_PeripheralRegistry r) w = Some (RObject (reg_self (fac_regs (w_peripheral_regs w) ! r)))"
| "self_of E (M_ServiceRegistry r) w = Some (RObject (reg_self (fac_regs (w_service_regs w) ! r)))"
| "self_of E (M_CharacteristicRegistry r) w = Some (RObject (reg_self (fac_regs (w_characteristic_regs w) ! r)))"
| "self_of E (M_Descriptor d) w = Some (d_self d)"
| "self_of E _ w = None"

text \<open>The members through which a C++ object keeps another one.\<close>

inductive refers :: "'b env \<Rightarrow> 'b world \<Rightarrow> managed \<Rightarrow> managed \<Rightarrow> bool" for E :: "'b env" and w :: "'b world" where
  adapter_factory: "r < length (fac_regs (w_adapter_regs w)) \<Longrightarrow> refers E w M_AdapterRegistryFactory (M_AdapterRegistry r)"
| peripheral_factory: "r < length (fac_regs (w_peripheral_regs w)) \<Longrightarrow>
    refers E w M_PeripheralRegistryFactory (M_PeripheralRegistry r)"
| service_factory: "r < length (fac_regs (w_service_regs w)) \<Longrightarrow> refers E w M_ServiceRegistryFactory (M_ServiceRegistry r)"
| characteristic_factory: "r < length (fac_regs (w_characteristic_regs w)) \<Longrightarrow>
    refers E w M_CharacteristicRegistryFactory (M_CharacteristicRegistry r)"
| adapters: "registry_view (adapter_class E) r w k = Some a \<Longrightarrow> refers E w (M_AdapterRegistry r) (M_Adapter a)"
| peripherals: "registry_view (peripheral_class E) r w k = Some p \<Longrightarrow> refers E w (M_PeripheralRegistry r) (M_Peripheral p)"
| services: "registry_view (service_class E) r w k = Some s \<Longrightarrow> refers E w (M_ServiceRegistry r) (M_Service s)"
| characteristics: "registry_view (characteristic_class E) r w k = Some c \<Longrightarrow>
    refers E w (M_CharacteristicRegistry r) (M_Characteristic c)"
| adapter_registry: "live (w_adapters w) a = Some ad \<Longrightarrow> refers E w (M_Adapter a) (M_PeripheralRegistry (a_registry ad))"
| adapter_callback: "live (w_adapters w) a = Some ad \<Longrightarrow>
    k \<in> {a_on_scan_start ad, a_on_scan_stop ad, a_on_scan_update ad, a_on_scan_find ad} \<Longrightarrow>
    refers E w (M_Adapter a) (M_Callback k)"
| peripheral_registry: "live (w_peripherals w) p = Some per \<Longrightarrow>
    refers E w (M_Peripheral p) (M_ServiceRegistry (p_registry per))"
| peripheral_callback: "live (w_peripherals w) p = Some per \<Longrightarrow>
    k \<in> {p_on_connected per, p_on_disconnected per} \<Longrightarrow> refers E w (M_Peripheral p) (M_Callback k)"
| service_registry: "live (w_services w) s = Some sv \<Longrightarrow>
    refers E w (M_Service s) (M_CharacteristicRegistry (s_registry sv))"
| characteristic_callback: "live (w_characteristics w) c = Some ch \<Longrightarrow>
    Some k \<in> {c_on_notify ch, c_on_indicate ch} \<Longrightarrow> refers E w (M_Characteristic c) (M_Callback k)"
| characteristic_descriptor: "live (w_characteristics w) c = Some ch \<Longrightarrow> c_descriptors ch = Some ds \<Longrightarrow>
    (u, d) \<in> set ds \<Longrightarrow> refers E w (M_Characteristic c) (M_Descriptor d)"

subsection \<open>Lemmas\<close>

lemma in_registry_mark:
  "registry_view C r w k = Some i \<Longrightarrow> set (mark i w) \<subseteq> set (tl (registry_mark C mark r w))"
  unfolding registry_view_def map_find_def registry_mark_def by (auto dest!: map_of_SomeD)

lemma in_factory_mark:
  "r < length (fac_regs (pc_get C w)) \<Longrightarrow> set (registry_mark C mark r w) \<subseteq> set (factory_mark C mark w)"
  by (auto simp: factory_mark_def intro!: bexI [of _ r])

lemma set_tl_subset: "set (tl xs) \<subseteq> set xs"
  by (cases xs) auto

text \<open>
  Marking a service marks what the registry of its characteristics holds, but not the registry itself;
  \<open>core_mark\<close> leaves it out everywhere.
\<close>

definition core_mark :: "'b env \<Rightarrow> managed \<Rightarrow> 'b world \<Rightarrow> rb_value list" where
  "core_mark E m w = (case m of M_CharacteristicRegistry r \<Rightarrow> tl (ruby_mark E m w) | _ \<Rightarrow> ruby_mark E m w)"

lemma core_mark_subset: "set (core_mark E m w) \<subseteq> set (ruby_mark E m w)"
  using set_tl_subset [of "ruby_mark E m w"] by (cases m) (simp_all add: core_mark_def del: ruby_mark.simps)

lemma refers_core_mark: "refers E w X Y \<Longrightarrow> set (core_mark E Y w) \<subseteq> set (core_mark E X w)"
proof (induction rule: refers.induct)
  case (adapter_factory r)
  then show ?case using in_factory_mark [of r "adapter_class E" w "adapter_mark E"] by (simp add: core_mark_def adapter_class_def)
next
  case (peripheral_factory r)
  then show ?case using in_factory_mark [of r "peripheral_class E" w "peripheral_mark E"]
    by (simp add: core_mark_def peripheral_class_def)
next
  case (service_factory r)
  then show ?case using in_factory_mark [of r "service_class E" w "service_mark E"] by (simp add: core_mark_def service_class_def)
next
  case (characteristic_factory r)
  have "set (tl (registry_mark (characteristic_class E) characteristic_mark r w))
      \<subseteq> set (factory_mark (characteristic_class E) characteristic_mark w)"
    using in_factory_mark [of r "characteristic_class E" w characteristic_mark] characteristic_factory
      set_tl_subset [of "registry_mark (characteristic_class E) characteristic_mark r w"]
    by (simp add: characteristic_class_def subset_trans)
  then show ?case by (simp add: core_mark_def)
next
  case (adapters r k a)
  then show ?case using in_registry_mark [OF adapters, of "adapter_mark E"] set_tl_subset by (fastforce simp: core_mark_def)
next
  case (peripherals r k p)
  then show ?case using in_registry_mark [OF peripherals, of "peripheral_mark E"] set_tl_subset by (fastforce simp: core_mark_def)
next
  case (services r k s)
  then show ?case using in_registry_mark [OF services, of "service_mark E"] set_tl_subset by (fastforce simp: core_mark_def)
next
  case (characteristics r k c)
  then show ?case using in_registry_mark [OF characteristics, of characteristic_mark] by (simp add: core_mark_def)
next
  case (service_registry s sv)
  then show ?case by (auto simp: core_mark_def service_mark_def registry_mark_def)
qed (auto simp: core_mark_def adapter_mark_def peripheral_mark_def characteristic_mark_def option_mark_def
      split: option.splits)

lemma reaches_core_mark: "(refers E w)\<^sup>*\<^sup>* X Y \<Longrightarrow> set (core_mark E Y w) \<subseteq> set (core_mark E X w)"
  by (induction rule: rtranclp_induct) (use refers_core_mark in blast)+

text \<open>The objects whose own Ruby object is not marked with them.\<close>

fun self_unmarked :: "managed \<Rightarrow> bool" where
  "self_unmarked (M_Adapter a) = True"
| "self_unmarked (M_CharacteristicRegistry r) = True"
| "self_unmarked (M_Descriptor d) = True"
| "self_unmarked _ = False"

lemma self_core_mark: "self_of E Y w = Some v \<Longrightarrow> \<not> self_unmarked Y \<Longrightarrow> v \<in> set (core_mark E Y w)"
  by (cases Y) (auto simp: core_mark_def peripheral_mark_def service_mark_def characteristic_mark_def registry_mark_def
      adapter_class_def peripheral_class_def service_class_def)

subsection \<open>Properties\<close>

text \<open>
  C25. Marking any object of the program marks the callbacks and the Ruby object of every object it
  refers to, directly or through others, except for the Ruby objects of adapters, of registries of
  characteristics and of descriptors.
\<close>

theorem gc_marks_reachable:
  assumes "(refers E w)\<^sup>*\<^sup>* X Y" and "self_of E Y w = Some v \<and> \<not> self_unmarked Y \<or> (\<exists>k. Y = M_Callback k \<and> v \<in> set (callback_mark k))"
  shows "v \<in> set (ruby_mark E X w)"
proof -
  have "v \<in> set (core_mark E Y w)"
    using assms(2) self_core_mark [of E Y w v] by (auto simp: core_mark_def)
  then show ?thesis using reaches_core_mark [OF assms(1)] core_mark_subset by blast
qed

theorem gc_marks_reachable_witness:
  "\<exists>ch. live (w_characteristics sample_world) 0 = Some ch \<and> c_self ch \<in> set (ruby_mark sample_env M_AdapterRegistryFactory sample_world)"
proof -
  let ?w = sample_world and ?E = sample_env
  have o: "map_option a_registry (live (w_adapters ?w) 0) = Some 0"
    "map_option p_registry (live (w_peripherals ?w) 0) = Some 0"
    "map_option s_registry (live (w_services ?w) 0) = Some 0"
    "map_option c_uuid (live (w_characteristics ?w) 0) = Some ''2a19''"
    "0 < length (fac_regs (w_adapter_regs ?w))" by code_simp+
  have v: "registry_view (adapter_class ?E) 0 ?w ''A0'' = Some 0" "registry_view (peripheral_class ?E) 0 ?w ''P1'' = Some 0"
    "registry_view (service_class ?E) 0 ?w ''180f'' = Some 0"
    "registry_view (characteristic_class ?E) 0 ?w ''2a19'' = Some 0" by code_simp+
  obtain ad where ad: "live (w_adapters ?w) 0 = Some ad" "a_registry ad = 0" using o(1) by auto
  obtain per where per: "live (w_peripherals ?w) 0 = Some per" "p_registry per = 0" using o(2) by auto
  obtain sv where sv: "live (w_services ?w) 0 = Some sv" "s_registry sv = 0" using o(3) by auto
  obtain ch where ch: "live (w_characteristics ?w) 0 = Some ch" using o(4) by auto
  have "(refers ?E ?w)\<^sup>*\<^sup>* M_AdapterRegistryFactory (M_Characteristic 0)"
    using refers.adapter_factory [OF o(5), of ?E] refers.adapters [OF v(1)] refers.adapter_registry [OF ad(1), of ?E]
      refers.peripherals [OF v(2)] refers.peripheral_registry [OF per(1), of ?E] refers.services [OF v(3)]
      refers.service_registry [OF sv(1), of ?E] refers.characteristics [OF v(4)]
    unfolding ad(2) per(2) sv(2) by (meson rtranclp.rtrancl_into_rtrancl rtranclp.rtrancl_refl)
  from gc_marks_reachable [OF this, of "c_self ch"] ch show ?thesis by simp
qed

text \<open>The program with other Ruby objects for the adapters and other descriptors.\<close>

definition redress :: "(adapter \<Rightarrow> rb_value) \<Rightarrow> (characteristic \<Rightarrow> (uuid, descriptor) std_map option) \<Rightarrow> 'b world \<Rightarrow> 'b world" where
  "redress f g w = w\<lparr>w_adapters := map (map_option (\<lambda>ad. ad\<lparr>a_self := f ad\<rparr>)) (w_adapters w),
     w_characteristics := map (map_option (\<lambda>ch. ch\<lparr>c_descriptors := g ch\<rparr>)) (w_characteristics w)\<rparr>"

lemma live_map: "live (map (map_option h) xs) i = map_option h (live xs i)"
  by (simp add: live_def)

lemma redress_data:
  "w_adapter_regs (redress f g w) = w_adapter_regs w"
  "w_peripheral_regs (redress f g w) = w_peripheral_regs w"
  "w_service_regs (redress f g w) = w_service_regs w"
  "w_characteristic_regs (redress f g w) = w_characteristic_regs w"
  by (simp_all add: redress_def)

lemmas classes = adapter_class_def peripheral_class_def service_class_def characteristic_class_def

lemma redress_marks:
  "characteristic_mark c (redress f g w) = characteristic_mark c w"
  "service_mark E s (redress f g w) = service_mark E s w"
  "peripheral_mark E p (redress f g w) = peripheral_mark E p w"
  "adapter_mark E a (redress f g w) = adapter_mark E a w"
proof -
  show c: "characteristic_mark c (redress f g w) = characteristic_mark c w" for c
    by (simp add: characteristic_mark_def redress_def live_map split: option.splits)
  have live: "live (w_services (redress f g w)) i = live (w_services w) i"
    "live (w_peripherals (redress f g w)) i = live (w_peripherals w) i"
    "live (w_adapters (redress f g w)) i = map_option (\<lambda>ad. ad\<lparr>a_self := f ad\<rparr>) (live (w_adapters w) i)" for i
    by (simp_all add: redress_def live_map)
  show s: "service_mark E s (redress f g w) = service_mark E s w" for s
    by (simp add: service_mark_def live redress_data reg_data_def classes c split: option.splits)
  show p: "peripheral_mark E p (redress f g w) = peripheral_mark E p w" for p
    by (simp add: peripheral_mark_def live registry_mark_def redress_data reg_data_def classes s split: option.splits)
  show "adapter_mark E a (redress f g w) = adapter_mark E a w"
    by (simp add: adapter_mark_def live registry_mark_def redress_data reg_data_def classes p split: option.splits)
qed

text \<open>
  What is marked, from wherever a collection starts, depends neither on the Ruby objects of the
  adapters nor on the descriptors that the characteristics keep: these Ruby objects are never marked
  by the program that holds them.
\<close>

theorem gc_marks_blind:
  "ruby_mark E m (redress f g w) = ruby_mark E m w"
  by (cases m) (simp_all add: factory_mark_def registry_mark_def redress_data reg_data_def classes redress_marks)

end
