(* ===== verification/Singleton.thy ===== *)
theory Singleton imports RuBLE_Prelude begin

text \<open>
  The two \<open>instance()\<close> functions that make a static object on first use: \<open>RegistryFactory::instance\<close>,
  which tests the static pointer, takes a mutex and tests it again, and \<open>RubyQueue::instance\<close>, which
  only tests it. Any number of threads call them; each access of the shared pointer, the mutex and
  the constructor is one action, in any interleaving. The pointer is a plain \<open>std::shared_ptr\<close>: an access
  of it is one action only when it has no data race, and a race is undefined behaviour. So the
  accesses are logged with what happens before them, through the mutex and through the interpreter's
  lock, and a race is detected. Objects are numbered in the order of their construction. A call returns
  a reference to the static pointer; \<open>Returned\<close> is what it points to when the caller first uses it.
\<close>

datatype call_pc =
    Entered
  | Saw_null
  | Locked
  | Still_null
  | Made nat
  | Unlocking
  | Returning
  | Returned nat

record singleton =
  sg_instance :: "nat option"
  sg_made :: nat
  sg_locked :: bool
  sg_calls :: "nat \<Rightarrow> call_pc"

definition singleton_new :: singleton where
  "singleton_new = \<lparr>sg_instance = None, sg_made = 0, sg_locked = False, sg_calls = (\<lambda>_. Entered)\<rparr>"

definition goto :: "nat \<Rightarrow> call_pc \<Rightarrow> singleton \<Rightarrow> singleton" where
  "goto t p s = s\<lparr>sg_calls := (sg_calls s)(t := p)\<rparr>"

text \<open>One action of a thread in \<open>RegistryFactory::instance\<close>; \<open>None\<close> when it is blocked or has returned.\<close>

definition factory_instance :: "nat \<Rightarrow> singleton \<Rightarrow> singleton option" where
  "factory_instance t s = (case sg_calls s t of
     Entered \<Rightarrow> Some (goto t (if sg_instance s = None then Saw_null else Returning) s)
   | Saw_null \<Rightarrow> if sg_locked s then None else Some (goto t Locked (s\<lparr>sg_locked := True\<rparr>))
   | Locked \<Rightarrow> Some (goto t (if sg_instance s = None then Still_null else Unlocking) s)
   | Still_null \<Rightarrow> Some (goto t (Made (sg_made s)) (s\<lparr>sg_made := sg_made s + 1\<rparr>))
   | Made n \<Rightarrow> Some (goto t Unlocking (s\<lparr>sg_instance := Some n\<rparr>))
   | Unlocking \<Rightarrow> Some (goto t Returning (s\<lparr>sg_locked := False\<rparr>))
   | Returning \<Rightarrow> map_option (\<lambda>n. goto t (Returned n) s) (sg_instance s)
   | Returned n \<Rightarrow> None)"

text \<open>One action of a thread in \<open>RubyQueue::instance\<close>.\<close>

definition queue_instance_step :: "nat \<Rightarrow> singleton \<Rightarrow> singleton option" where
  "queue_instance_step t s = (case sg_calls s t of
     Entered \<Rightarrow> Some (goto t (if sg_instance s = None then Saw_null else Returning) s)
   | Saw_null \<Rightarrow> Some (goto t (Made (sg_made s)) (s\<lparr>sg_made := sg_made s + 1\<rparr>))
   | Made n \<Rightarrow> Some (goto t Returning (s\<lparr>sg_instance := Some n\<rparr>))
   | Returning \<Rightarrow> map_option (\<lambda>n. goto t (Returned n) s) (sg_instance s)
   | _ \<Rightarrow> None)"

text \<open>The actions of some threads in a given order.\<close>

fun schedule :: "(nat \<Rightarrow> singleton \<Rightarrow> singleton option) \<Rightarrow> nat list \<Rightarrow> singleton \<Rightarrow> singleton option" where
  "schedule step [] s = Some s"
| "schedule step (t # ts) s = (case step t s of None \<Rightarrow> None | Some s' \<Rightarrow> schedule step ts s')"

subsection \<open>The invariant of the double-checked lock\<close>

fun critical :: "call_pc \<Rightarrow> bool" where
  "critical Locked = True"
| "critical Still_null = True"
| "critical (Made n) = True"
| "critical Unlocking = True"
| "critical _ = False"

text \<open>What a thread at a point of the function knows of the pointer and of the objects made.\<close>

fun knows :: "call_pc \<Rightarrow> singleton \<Rightarrow> bool" where
  "knows Still_null s = (sg_instance s = None \<and> sg_made s = 0)"
| "knows (Made n) s = (sg_instance s = None \<and> sg_made s = 1 \<and> n = 0)"
| "knows Locked s = (sg_instance s = None \<longrightarrow> sg_made s = 0)"
| "knows Unlocking s = (sg_instance s = Some 0)"
| "knows Returning s = (sg_instance s = Some 0)"
| "knows (Returned n) s = (sg_instance s = Some 0 \<and> n = 0)"
| "knows _ s = True"

definition singleton_inv :: "singleton \<Rightarrow> bool" where
  "singleton_inv s \<longleftrightarrow>
     (\<forall>t u. critical (sg_calls s t) \<longrightarrow> critical (sg_calls s u) \<longrightarrow> t = u) \<and>
     (\<forall>t. critical (sg_calls s t) \<longrightarrow> sg_locked s) \<and>
     (\<forall>t. knows (sg_calls s t) s) \<and>
     (\<forall>n. sg_instance s = Some n \<longrightarrow> n = 0 \<and> sg_made s = 1) \<and>
     (sg_instance s = None \<and> \<not> sg_locked s \<longrightarrow> sg_made s = 0) \<and> sg_made s \<le> 1"

lemma singleton_inv_new: "singleton_inv singleton_new"
  by (simp add: singleton_inv_def singleton_new_def)

lemma goto_simps [simp]:
  "sg_calls (goto t p s) = (sg_calls s)(t := p)" "sg_instance (goto t p s) = sg_instance s"
  "sg_made (goto t p s) = sg_made s" "sg_locked (goto t p s) = sg_locked s"
  "knows q (goto t p s) = knows q s"
  by (simp_all add: goto_def) (cases q; simp)

text \<open>
  A step keeps the invariant when the thread takes the lock or had it, the thread knows what it must
  at its new place, and the others, which are outside of the critical section, still know what they did.
\<close>

lemma singleton_inv_goto:
  assumes "singleton_inv s" and "sg_calls w = sg_calls s"
    and "critical p \<Longrightarrow> sg_locked w \<and> (critical (sg_calls s t) \<or> \<not> sg_locked s)"
    and "sg_locked s \<Longrightarrow> \<not> sg_locked w \<Longrightarrow> critical (sg_calls s t)"
    and "knows p w" and "\<And>u. u \<noteq> t \<Longrightarrow> knows (sg_calls s u) w"
    and "\<And>n. sg_instance w = Some n \<Longrightarrow> n = 0 \<and> sg_made w = 1"
    and "sg_instance w = None \<and> \<not> sg_locked w \<Longrightarrow> sg_made w = 0" and "sg_made w \<le> 1"
  shows "singleton_inv (goto t p w)"
proof -
  have one: "t = u" if "critical (sg_calls s t)" "critical (sg_calls s u)" for t u
    using assms(1) that by (auto simp: singleton_inv_def)
  have locked: "sg_locked s" if "critical (sg_calls s u)" for u
    using assms(1) that by (auto simp: singleton_inv_def)
  have "\<not> critical (sg_calls s u)" if "critical p" "u \<noteq> t" for u
    using assms(3) [OF that(1)] locked [of u] one [of t u] that(2) by blast
  moreover have "sg_locked w" if "critical (sg_calls s u)" "u \<noteq> t" for u
    using assms(4) locked [OF that(1)] one [of t u] that by blast
  ultimately show ?thesis
    using assms(2,3,5-9) one by (auto simp: singleton_inv_def)
qed

lemma singleton_inv_step:
  assumes "singleton_inv s" and "factory_instance t s = Some s'"
  shows "singleton_inv s'"
proof -
  have one: "t = u" if "critical (sg_calls s t)" "critical (sg_calls s u)" for u
    using assms(1) that by (auto simp: singleton_inv_def)
  have locked: "critical (sg_calls s u) \<Longrightarrow> sg_locked s" for u using assms(1) by (auto simp: singleton_inv_def)
  have knows: "knows (sg_calls s u) s" for u using assms(1) by (simp add: singleton_inv_def)
  have made: "sg_instance s = Some n \<Longrightarrow> n = 0 \<and> sg_made s = 1" for n using assms(1) by (simp add: singleton_inv_def)
  have fresh: "sg_instance s = None \<and> \<not> sg_locked s \<Longrightarrow> sg_made s = 0" using assms(1) by (simp add: singleton_inv_def)
  have most: "sg_made s \<le> 1" using assms(1) by (simp add: singleton_inv_def)
  have outside: "knows (sg_calls s u) w" if "critical (sg_calls s t)" "u \<noteq> t"
      "sg_instance w = sg_instance s \<or> sg_instance w = Some 0" for u w
    using one [OF that(1), of u] that(2,3) knows [of u] by (cases "sg_calls s u") auto
  have same: "knows (sg_calls s u) (s\<lparr>sg_locked := b\<rparr>)" for u b
    using knows [of u] by (cases "sg_calls s u") auto
  note goto = singleton_inv_goto [OF assms(1)]
  show ?thesis
  proof (cases "sg_calls s t")
    case Entered
    then show ?thesis using assms(2) knows made fresh most
      by (auto simp: factory_instance_def intro!: goto split: if_splits)
  next
    case Saw_null
    then show ?thesis using assms(2) same made fresh most
      by (auto simp: factory_instance_def intro!: goto split: if_splits)
  next
    case Locked
    then show ?thesis using assms(2) knows [of t] knows locked [of t] made fresh
      by (auto simp: factory_instance_def intro!: goto split: if_splits)
  next
    case Still_null
    then show ?thesis using assms(2) knows [of t] outside locked [of t]
      by (auto simp: factory_instance_def intro!: goto split: if_splits)
  next
    case (Made n)
    then show ?thesis using assms(2) knows [of t] outside locked [of t]
      by (auto simp: factory_instance_def intro!: goto split: if_splits)
  next
    case Unlocking
    then show ?thesis using assms(2) knows [of t] same made most
      by (auto simp: factory_instance_def intro!: goto split: if_splits)
  next
    case Returning
    then show ?thesis using assms(2) knows [of t] knows made most
      by (auto simp: factory_instance_def intro!: goto split: if_splits)
  qed (use assms(2) in \<open>simp add: factory_instance_def\<close>)
qed

subsection \<open>Data races\<close>

text \<open>
  The accesses of the pointer so far, each with its thread and whether it writes; for every thread the
  accesses that happen before its next action; those that happen before the next locking of the
  mutex and the next taking of the interpreter's lock; who has this lock; and whether there was a race.
\<close>

record sync =
  sy_calls :: singleton
  sy_log :: "(nat \<times> bool) list"
  sy_seen :: "nat \<Rightarrow> nat set"
  sy_mutex_seen :: "nat set"
  sy_gvl_owner :: "nat option"
  sy_gvl_seen :: "nat set"
  sy_raced :: bool

definition sync_new :: sync where
  "sync_new = \<lparr>sy_calls = singleton_new, sy_log = [], sy_seen = (\<lambda>_. {}), sy_mutex_seen = {},
     sy_gvl_owner = None, sy_gvl_seen = {}, sy_raced = False\<rparr>"

text \<open>Two accesses of different threads race when one writes and neither happens before the other.\<close>

definition races :: "nat \<Rightarrow> bool \<Rightarrow> sync \<Rightarrow> bool" where
  "races t wr s \<longleftrightarrow> (\<exists>i < length (sy_log s). fst (sy_log s ! i) \<noteq> t \<and> (wr \<or> snd (sy_log s ! i)) \<and> i \<notin> sy_seen s t)"

definition access :: "nat \<Rightarrow> bool \<Rightarrow> sync \<Rightarrow> sync" where
  "access t wr s = s\<lparr>sy_raced := sy_raced s \<or> races t wr s, sy_log := sy_log s @ [(t, wr)],
     sy_seen := (sy_seen s)(t := insert (length (sy_log s)) (sy_seen s t))\<rparr>"

text \<open>What the action of a thread at a point of \<open>RegistryFactory::instance\<close> does to the pointer and the mutex.\<close>

fun instance_effect :: "call_pc \<Rightarrow> nat \<Rightarrow> sync \<Rightarrow> sync" where
  "instance_effect Entered t s = access t False s"
| "instance_effect Saw_null t s = s\<lparr>sy_seen := (sy_seen s)(t := sy_seen s t \<union> sy_mutex_seen s)\<rparr>"
| "instance_effect Locked t s = access t False s"
| "instance_effect Still_null t s = s"
| "instance_effect (Made n) t s = access t True s"
| "instance_effect Unlocking t s = s\<lparr>sy_mutex_seen := sy_mutex_seen s \<union> sy_seen s t\<rparr>"
| "instance_effect Returning t s = access t False s"
| "instance_effect (Returned n) t s = s"

definition instance_action :: "nat \<Rightarrow> sync \<Rightarrow> sync option" where
  "instance_action t s = (case factory_instance t (sy_calls s) of
     None \<Rightarrow> None
   | Some g \<Rightarrow> Some ((instance_effect (sg_calls (sy_calls s) t) t s)\<lparr>sy_calls := g\<rparr>))"

text \<open>
  Threads that call it with the interpreter's lock, which they take before the call and release after
  it, as C code called from Ruby does; and threads that call it without.
\<close>

fun outside_call :: "call_pc \<Rightarrow> bool" where
  "outside_call Entered = True"
| "outside_call (Returned n) = True"
| "outside_call _ = False"

inductive with_gvl :: "sync \<Rightarrow> sync \<Rightarrow> bool" where
  take_lock: "sy_gvl_owner s = None \<Longrightarrow>
    with_gvl s (s\<lparr>sy_gvl_owner := Some t, sy_seen := (sy_seen s)(t := sy_seen s t \<union> sy_gvl_seen s)\<rparr>)"
| act: "sy_gvl_owner s = Some t \<Longrightarrow> instance_action t s = Some s' \<Longrightarrow> with_gvl s s'"
| release: "sy_gvl_owner s = Some t \<Longrightarrow> outside_call (sg_calls (sy_calls s) t) \<Longrightarrow>
    with_gvl s (s\<lparr>sy_gvl_owner := None, sy_gvl_seen := sy_gvl_seen s \<union> sy_seen s t\<rparr>)"

definition without_gvl :: "sync \<Rightarrow> sync \<Rightarrow> bool" where
  "without_gvl s s' \<longleftrightarrow> (\<exists>t. instance_action t s = Some s')"

lemma access_simps [simp]:
  "sy_calls (access t wr s) = sy_calls s" "sy_log (access t wr s) = sy_log s @ [(t, wr)]"
  "sy_seen (access t wr s) = (sy_seen s)(t := insert (length (sy_log s)) (sy_seen s t))"
  "sy_mutex_seen (access t wr s) = sy_mutex_seen s" "sy_gvl_owner (access t wr s) = sy_gvl_owner s"
  "sy_gvl_seen (access t wr s) = sy_gvl_seen s" "sy_raced (access t wr s) \<longleftrightarrow> sy_raced s \<or> races t wr s"
  by (simp_all add: access_def)

lemma instance_actionE:
  assumes "instance_action t s = Some s'"
  obtains g where "factory_instance t (sy_calls s) = Some g"
    and "s' = (instance_effect (sg_calls (sy_calls s) t) t s)\<lparr>sy_calls := g\<rparr>"
  using assms by (auto simp: instance_action_def split: option.splits)

lemma factory_instance_others: "factory_instance t s = Some s' \<Longrightarrow> u \<noteq> t \<Longrightarrow> sg_calls s' u = sg_calls s u"
  by (auto simp: factory_instance_def split: call_pc.splits if_splits)

subsection \<open>With the lock of the interpreter\<close>

text \<open>
  All accesses are known to the thread that has the lock, or to whom takes it next; and a locked mutex
  has a thread that locked it.
\<close>

definition mutex_held :: "singleton \<Rightarrow> bool" where
  "mutex_held g \<longleftrightarrow> (sg_locked g \<longrightarrow> (\<exists>u. critical (sg_calls g u)))"

lemma mutex_held_step:
  assumes "mutex_held g" and "factory_instance t g = Some g'"
  shows "mutex_held g'"
proof (cases "\<exists>u. u \<noteq> t \<and> critical (sg_calls g u)")
  case True
  then show ?thesis using factory_instance_others [OF assms(2)] by (metis mutex_held_def)
next
  case False
  then have "sg_locked g \<longrightarrow> critical (sg_calls g t)" using assms(1) by (auto simp: mutex_held_def)
  then show ?thesis using assms(2)
    by (cases "sg_calls g t") (auto simp: mutex_held_def factory_instance_def split: if_splits)
qed

definition gvl_inv :: "sync \<Rightarrow> bool" where
  "gvl_inv s \<longleftrightarrow> \<not> sy_raced s \<and> singleton_inv (sy_calls s) \<and> mutex_held (sy_calls s) \<and>
     (case sy_gvl_owner s of
        None \<Rightarrow> {..<length (sy_log s)} \<subseteq> sy_gvl_seen s \<and> (\<forall>t. outside_call (sg_calls (sy_calls s) t))
      | Some t \<Rightarrow> {..<length (sy_log s)} \<subseteq> sy_seen s t \<and> (\<forall>u. u \<noteq> t \<longrightarrow> outside_call (sg_calls (sy_calls s) u)))"

lemma gvl_effect:
  assumes "{..<length (sy_log s)} \<subseteq> sy_seen s t" and "\<not> sy_raced s"
  shows "{..<length (sy_log (instance_effect p t s))} \<subseteq> sy_seen (instance_effect p t s) t \<and>
    \<not> sy_raced (instance_effect p t s) \<and> sy_gvl_owner (instance_effect p t s) = sy_gvl_owner s"
proof -
  have "\<not> races t wr s" for wr using assms(1) by (auto simp: races_def)
  then show ?thesis using assms by (cases p) (auto simp: lessThan_Suc)
qed

lemma gvl_inv_step:
  assumes "gvl_inv s" and "with_gvl s s'"
  shows "gvl_inv s'"
  using assms(2)
proof (cases rule: with_gvl.cases)
  case (act t)
  then obtain g where g: "factory_instance t (sy_calls s) = Some g"
      "s' = (instance_effect (sg_calls (sy_calls s) t) t s)\<lparr>sy_calls := g\<rparr>" by (elim instance_actionE)
  have inv: "{..<length (sy_log s)} \<subseteq> sy_seen s t" "\<not> sy_raced s" "singleton_inv (sy_calls s)" "mutex_held (sy_calls s)"
    and out: "u \<noteq> t \<Longrightarrow> outside_call (sg_calls (sy_calls s) u)" for u
    using assms(1) act(1) by (simp_all add: gvl_inv_def)
  show ?thesis
    using gvl_effect [OF inv(1,2)] singleton_inv_step [OF inv(3) g(1)] mutex_held_step [OF inv(4) g(1)] out
      factory_instance_others [OF g(1)] act(1)
    by (simp add: gvl_inv_def g(2))
next
  case (release t)
  then show ?thesis using assms(1) by (cases "\<forall>u. u = t") (auto simp: gvl_inv_def)
qed (use assms(1) in \<open>auto simp: gvl_inv_def\<close>)

interpretation gvl_calls: inductive_invariant "\<lambda>s. s = sync_new" with_gvl gvl_inv
proof unfold_locales
  show "s = sync_new \<Longrightarrow> gvl_inv s" for s
    using singleton_inv_new by (simp add: gvl_inv_def mutex_held_def sync_new_def singleton_new_def)
qed (rule gvl_inv_step)

text \<open>The mutex does not block the thread that has the interpreter's lock.\<close>

lemma gvl_not_blocked:
  assumes "gvl_inv s" and "sy_gvl_owner s = Some t" and "\<And>n. sg_calls (sy_calls s) t \<noteq> Returned n"
  shows "instance_action t s \<noteq> None"
proof -
  have "\<not> critical (sg_calls (sy_calls s) u)" if "u \<noteq> t" for u
    using that assms(1,2) by (cases "sg_calls (sy_calls s) u") (auto simp: gvl_inv_def dest!: spec [of _ u])
  moreover have "mutex_held (sy_calls s)" using assms(1) by (simp add: gvl_inv_def)
  ultimately have "sg_locked (sy_calls s) \<longrightarrow> critical (sg_calls (sy_calls s) t)"
    unfolding mutex_held_def by metis
  moreover have "knows (sg_calls (sy_calls s) t) (sy_calls s)"
    using assms(1) by (simp add: gvl_inv_def singleton_inv_def)
  ultimately show ?thesis
    using assms(3) by (cases "sg_calls (sy_calls s) t") (auto simp: instance_action_def factory_instance_def)
qed

subsection \<open>Without it\<close>

text \<open>
  A thread that has not tested the pointer knows no access; the test of one that saw a null pointer and
  has not locked the mutex is known to nobody else.
\<close>

definition wrote :: "nat \<Rightarrow> sync \<Rightarrow> bool" where
  "wrote t s \<longleftrightarrow> (t, True) \<in> set (sy_log s)"

definition seen_ok :: "sync \<Rightarrow> bool" where
  "seen_ok s \<longleftrightarrow> (\<forall>u. sy_seen s u \<subseteq> {..<length (sy_log s)}) \<and> sy_mutex_seen s \<subseteq> {..<length (sy_log s)}"

definition hidden :: "nat \<Rightarrow> sync \<Rightarrow> bool" where
  "hidden t s \<longleftrightarrow> (\<exists>i < length (sy_log s). fst (sy_log s ! i) = t \<and>
     (\<forall>u. u \<noteq> t \<longrightarrow> i \<notin> sy_seen s u) \<and> i \<notin> sy_mutex_seen s)"

lemma subset_less_Suc: "A \<subseteq> {..<n} \<Longrightarrow> A \<subseteq> {..<Suc n}"
  by (auto simp: less_Suc_eq)

lemma seen_ok_effect: "seen_ok s \<Longrightarrow> seen_ok (instance_effect p t s)"
  by (cases p) (auto simp: seen_ok_def subset_less_Suc)

lemma effect_others:
  "u \<noteq> t \<Longrightarrow> sy_seen (instance_effect p t s) u = sy_seen s u"
  "u \<noteq> t \<Longrightarrow> wrote u (instance_effect p t s) = wrote u s"
  "sy_raced s \<Longrightarrow> sy_raced (instance_effect p t s)"
  "sy_calls (instance_effect p t s) = sy_calls s"
  by (cases p; auto simp: wrote_def)+

lemma wrote_effect: "wrote t (instance_effect p t s) \<longleftrightarrow> wrote t s \<or> (\<exists>n. p = Made n)"
  by (cases p) (auto simp: wrote_def)

lemma hidden_effect:
  assumes "hidden u s" and "u \<noteq> t"
  shows "hidden u (instance_effect p t s)"
proof -
  obtain i where i: "i < length (sy_log s)" "fst (sy_log s ! i) = u" "\<And>v. v \<noteq> u \<Longrightarrow> i \<notin> sy_seen s v" "i \<notin> sy_mutex_seen s"
    using assms(1) by (auto simp: hidden_def)
  have "i \<notin> sy_seen s t" by (rule i(3)) (use assms(2) in simp)
  with i show ?thesis unfolding hidden_def by (intro exI [of _ i], cases p) (auto simp: nth_append)
qed

lemma hidden_test: "seen_ok s \<Longrightarrow> hidden t (access t False s)"
  unfolding hidden_def seen_ok_def by (intro exI [of _ "length (sy_log s)"]) auto

lemma hidden_races: "hidden u s \<Longrightarrow> u \<noteq> t \<Longrightarrow> races t True s"
  by (auto simp: hidden_def races_def)

lemma wrote_races: "wrote u s \<Longrightarrow> u \<noteq> t \<Longrightarrow> sy_seen s t = {} \<Longrightarrow> races t wr s"
  unfolding wrote_def races_def in_set_conv_nth by (metis empty_iff fst_conv snd_conv)

text \<open>So, as long as nothing has raced, only the thread that wrote the pointer has got past its first test.\<close>

definition race_inv :: "sync \<Rightarrow> bool" where
  "race_inv s \<longleftrightarrow> singleton_inv (sy_calls s) \<and> seen_ok s \<and>
     (\<forall>t. sg_calls (sy_calls s) t = Entered \<longrightarrow> sy_seen s t = {} \<and> \<not> wrote t s) \<and>
     (\<forall>t. sg_calls (sy_calls s) t = Saw_null \<longrightarrow> hidden t s) \<and>
     (\<forall>t u. wrote t s \<longrightarrow> u \<noteq> t \<longrightarrow> sg_calls (sy_calls s) u \<noteq> Entered \<longrightarrow> sy_raced s)"

lemma never_back: "factory_instance t g = Some g' \<Longrightarrow> sg_calls g' t \<noteq> Entered"
  by (auto simp: factory_instance_def split: call_pc.splits if_splits)

lemma saw_null: "factory_instance t g = Some g' \<Longrightarrow> sg_calls g' t = Saw_null \<Longrightarrow> sg_calls g t = Entered"
  by (auto simp: factory_instance_def split: call_pc.splits if_splits)

text \<open>While a thread has the object in its hand, the others have not tested the pointer or not locked the mutex.\<close>

lemma others_of_maker:
  assumes "singleton_inv g" and "sg_calls g t = Made n" and "u \<noteq> t"
  shows "sg_calls g u = Entered \<or> sg_calls g u = Saw_null"
proof -
  have "knows (sg_calls g t) g" "knows (sg_calls g u) g"
    and "critical (sg_calls g t) \<Longrightarrow> critical (sg_calls g u) \<Longrightarrow> t = u"
    using assms(1) unfolding singleton_inv_def by blast+
  then show ?thesis using assms(2,3) by (cases "sg_calls g u") auto
qed

lemma race_inv_step:
  assumes "race_inv s" and "without_gvl s s'"
  shows "race_inv s'"
proof -
  obtain t g where g: "factory_instance t (sy_calls s) = Some g"
      "s' = (instance_effect (sg_calls (sy_calls s) t) t s)\<lparr>sy_calls := g\<rparr>"
    using assms(2) by (auto simp: without_gvl_def elim!: instance_actionE)
  let ?p = "sg_calls (sy_calls s) t"
  let ?e = "instance_effect ?p t s"
  have inv: "singleton_inv (sy_calls s)" "seen_ok s"
    "\<And>t. sg_calls (sy_calls s) t = Entered \<Longrightarrow> sy_seen s t = {} \<and> \<not> wrote t s"
    "\<And>t. sg_calls (sy_calls s) t = Saw_null \<Longrightarrow> hidden t s"
    "\<And>t u. wrote t s \<Longrightarrow> u \<noteq> t \<Longrightarrow> sg_calls (sy_calls s) u \<noteq> Entered \<Longrightarrow> sy_raced s"
    using assms(1) unfolding race_inv_def by blast+
  have other: "sg_calls g u = sg_calls (sy_calls s) u" if "u \<noteq> t" for u
    by (rule factory_instance_others [OF g(1) that])
  have entered: "sy_seen ?e u = {} \<and> \<not> wrote u ?e" if "sg_calls g u = Entered" for u
    using that never_back [OF g(1)] other [of u] inv(3) [of u] by (cases "u = t") (auto simp: effect_others)
  have hid: "hidden u ?e" if "sg_calls g u = Saw_null" for u
  proof (cases "u = t")
    case True
    then show ?thesis using saw_null [OF g(1)] that hidden_test [OF inv(2)] by simp
  next
    case False
    then show ?thesis using that other inv(4) [of u] by (simp add: hidden_effect)
  qed
  have raced: "sy_raced ?e" if w: "wrote v ?e" and u: "u \<noteq> v" "sg_calls g u \<noteq> Entered" for v u
  proof (cases "wrote v s")
    case old: True
    show ?thesis
    proof (cases "u = t \<and> ?p = Entered")
      case True
      then show ?thesis using wrote_races [OF old] u(1) inv(3) [of t] by auto
    next
      case False
      then have "sg_calls (sy_calls s) u \<noteq> Entered" using u(2) other [of u] by (cases "u = t") auto
      then show ?thesis using inv(5) [OF old u(1)] by (simp add: effect_others)
    qed
  next
    case False
    then obtain n where "v = t" "?p = Made n" using w by (cases "v = t") (auto simp: wrote_effect effect_others)
    moreover from this have "sg_calls (sy_calls s) u = Saw_null"
      using others_of_maker [OF inv(1), of t n u] u other [of u] by auto
    ultimately show ?thesis using hidden_races [OF inv(4), of u t] u(1) by simp
  qed
  show ?thesis
    unfolding race_inv_def g(2)
    using singleton_inv_step [OF inv(1) g(1)] seen_ok_effect [OF inv(2), of ?p t] entered hid raced
    by (simp add: seen_ok_def hidden_def wrote_def)
qed

interpretation free_calls: inductive_invariant "\<lambda>s. s = sync_new" without_gvl race_inv
proof unfold_locales
  show "s = sync_new \<Longrightarrow> race_inv s" for s
    using singleton_inv_new by (simp add: race_inv_def seen_ok_def wrote_def sync_new_def singleton_new_def)
qed (rule race_inv_step)

subsection \<open>Properties\<close>


text \<open>Two calls in a row with the lock; and two without, the second of which tests after the first has stored.\<close>

fun sync_schedule :: "nat list \<Rightarrow> sync \<Rightarrow> sync option" where
  "sync_schedule [] s = Some s"
| "sync_schedule (t # ts) s = (case instance_action t s of None \<Rightarrow> None | Some s' \<Rightarrow> sync_schedule ts s')"

definition lock_for :: "nat \<Rightarrow> sync \<Rightarrow> sync" where
  "lock_for t s = s\<lparr>sy_gvl_owner := Some t, sy_seen := (sy_seen s)(t := sy_seen s t \<union> sy_gvl_seen s)\<rparr>"

definition unlock_by :: "nat \<Rightarrow> sync \<Rightarrow> sync" where
  "unlock_by t s = s\<lparr>sy_gvl_owner := None, sy_gvl_seen := sy_gvl_seen s \<union> sy_seen s t\<rparr>"

lemma sync_schedule_free:
  "sync_schedule ts s = Some s' \<Longrightarrow> reachable init without_gvl s \<Longrightarrow> reachable init without_gvl s'"
proof (induction ts arbitrary: s)
  case (Cons t ts)
  then obtain u where "instance_action t s = Some u" "sync_schedule ts u = Some s'" by (auto split: option.splits)
  then show ?case using Cons.IH [of u] reach_step [OF Cons.prems(2), of u] by (auto simp: without_gvl_def)
qed simp

lemma instance_action_owner: "instance_action t s = Some s' \<Longrightarrow> sy_gvl_owner s' = sy_gvl_owner s"
  by (erule instance_actionE) (cases "sg_calls (sy_calls s) t"; simp)

lemma sync_schedule_locked:
  "sync_schedule (replicate n t) s = Some s' \<Longrightarrow> sy_gvl_owner s = Some t \<Longrightarrow> reachable init with_gvl s \<Longrightarrow>
     reachable init with_gvl s' \<and> sy_gvl_owner s' = Some t"
proof (induction n arbitrary: s)
  case (Suc n)
  then obtain u where u: "instance_action t s = Some u" "sync_schedule (replicate n t) u = Some s'"
    by (auto split: option.splits)
  then show ?case
    using Suc.IH [of u] Suc.prems(2) reach_step [OF Suc.prems(3) with_gvl.act [OF Suc.prems(2) u(1)]]
    by (simp add: instance_action_owner)
qed simp


text \<open>
  \<open>RubyQueue::instance\<close> makes one queue when its calls do not overlap; two calls that overlap can make
  two, and then return different queues to their callers. The Ruby threads that call it exclude each
  other by the GVL only.
\<close>

theorem queue_instance_needs_gvl:
  "(\<exists>s. schedule queue_instance_step [0, 0, 0, 0, 1, 1] singleton_new = Some s \<and>
      sg_made s = 1 \<and> sg_calls s 0 = Returned 0 \<and> sg_calls s 1 = Returned 0) \<and>
   (\<exists>s. schedule queue_instance_step [0, 1, 0, 0, 0, 1, 1, 1] singleton_new = Some s \<and>
      sg_made s = 2 \<and> sg_calls s 0 = Returned 0 \<and> sg_calls s 1 = Returned 1)"
  by (simp add: queue_instance_step_def singleton_new_def goto_def)

end
