(* ===== verification/Accessors.thy ===== *)
theory Accessors imports Gatt_Properties begin

text \<open>
  The small members of the wrapped classes: their Ruby objects, UUIDs and owners, their \<open>inspect\<close>, the
  comparison of descriptors, the text form of a registry, the wrappers of \<open>utils/hexadecimal.hpp\<close>, the
  conversions to Ruby values, and the small overloads of the text and callback headers.
  Going up from owner to owner never leaves the live objects.
\<close>

subsection \<open>Ruby objects, UUIDs and owners\<close>

definition adapter_self :: "nat \<Rightarrow> ('b world, rb_value) act" where
  "adapter_self a = bindA (deref w_adapters a) (\<lambda>x. retA (a_self x))"

definition peripheral_self :: "nat \<Rightarrow> ('b world, rb_value) act" where
  "peripheral_self p = bindA (deref w_peripherals p) (\<lambda>x. retA (p_self x))"

definition service_self :: "nat \<Rightarrow> ('b world, rb_value) act" where
  "service_self s = bindA (deref w_services s) (\<lambda>x. retA (s_self x))"

definition characteristic_self :: "nat \<Rightarrow> ('b world, rb_value) act" where
  "characteristic_self c = bindA (deref w_characteristics c) (\<lambda>x. retA (c_self x))"

definition descriptor_self :: "descriptor \<Rightarrow> rb_value" where
  "descriptor_self d = d_self d"

definition service_get :: "nat \<Rightarrow> ('b world, ble_service) act" where
  "service_get s = bindA (deref w_services s) (\<lambda>x. retA (s_ble x))"

definition characteristic_get :: "nat \<Rightarrow> ('b world, ble_characteristic) act" where
  "characteristic_get c = bindA (deref w_characteristics c) (\<lambda>x. retA (c_ble x))"

definition service_uuid :: "nat \<Rightarrow> ('b world, uuid) act" where
  "service_uuid s = bindA (deref w_services s) (\<lambda>x. retA (s_uuid x))"

definition characteristic_uuid :: "nat \<Rightarrow> ('b world, uuid) act" where
  "characteristic_uuid c = bindA (deref w_characteristics c) (\<lambda>x. retA (c_uuid x))"

definition descriptor_uuid :: "descriptor \<Rightarrow> uuid" where
  "descriptor_uuid d = d_uuid d"

definition peripheral_owner :: "nat \<Rightarrow> ('b world, nat) act" where
  "peripheral_owner p = bindA (deref w_peripherals p) (\<lambda>x. retA (p_owner x))"

definition service_peripheral :: "nat \<Rightarrow> ('b world, nat) act" where
  "service_peripheral s = bindA (deref w_services s) (\<lambda>x. retA (s_owner x))"

definition characteristic_service :: "nat \<Rightarrow> ('b world, nat) act" where
  "characteristic_service c = bindA (deref w_characteristics c) (\<lambda>x. retA (c_owner x))"

definition descriptor_characteristic :: "descriptor \<Rightarrow> nat" where
  "descriptor_characteristic d = d_owner d"

subsection \<open>Descriptors\<close>

definition new_descriptor :: "uuid \<Rightarrow> nat \<Rightarrow> ('b world, descriptor) act" where
  "new_descriptor u owner = bindA new_rb_value (\<lambda>self. retA \<lparr>d_uuid = u, d_owner = owner, d_self = RObject self\<rparr>)"

definition descriptor_cmp :: "descriptor \<Rightarrow> descriptor \<Rightarrow> strong_ordering" where
  "descriptor_cmp d other =
     (if descriptor_uuid d < descriptor_uuid other then Ord_less
      else if descriptor_uuid d = descriptor_uuid other then Ord_equal else Ord_greater)"

lemma make_map_step:
  "make_map (u # us) owner result = bindA (new_descriptor u owner) (\<lambda>d. make_map us owner (map_emplace (descriptor_uuid d) d result))"
  by (simp add: new_descriptor_def descriptor_uuid_def bindA_def retA_def fun_eq_iff split: prod.splits sum.splits)

text \<open>UUIDs are ordered as strings; descriptors with one UUID are equal in this order.\<close>

definition uuid_cmp :: "uuid \<Rightarrow> uuid \<Rightarrow> strong_ordering" where
  "uuid_cmp u v = (if u < v then Ord_less else if u = v then Ord_equal else Ord_greater)"

interpretation uuid3: three_way uuid_cmp
  by unfold_locales (auto simp: uuid_cmp_def split: if_splits)

lemma descriptor_cmp_uuid: "descriptor_cmp d e = uuid_cmp (d_uuid d) (d_uuid e)"
  by (simp add: descriptor_cmp_def uuid_cmp_def descriptor_uuid_def)

subsection \<open>Text\<close>

definition characteristic_inspect :: "string \<Rightarrow> nat \<Rightarrow> ('b world, string) act" where
  "characteristic_inspect start c = characteristic_to_s start c"

definition descriptor_inspect :: "string \<Rightarrow> descriptor \<Rightarrow> string" where
  "descriptor_inspect start d = descriptor_to_s start d"

text \<open>\<open>type_name\<close> is the readable name of the type of the registry; an owned one names its owner.\<close>

definition registry_to_s ::
  "('w, 'v) proxy_class \<Rightarrow> string \<Rightarrow> (nat \<Rightarrow> ('w, string) act) \<Rightarrow> nat \<Rightarrow> ('w, string) act" where
  "registry_to_s C type_name owner_to_s r = bindA (getA (reg_owner_of C r)) (\<lambda>owner.
     let os = ''Registry for '' @ pc_name C @ '' ('' @ type_name @ ''): '' in
     case owner of None \<Rightarrow> retA os
     | Some i \<Rightarrow> bindA (owner_to_s i) (\<lambda>s. retA (os @ '' owned by '' @ s)))"

text \<open>The version for a class with neither an address nor a UUID.\<close>

definition key_from_value :: "('w, string) act" where
  "key_from_value = throwA (InvalidArgument ''key_from_value not implemented without .address() returning a BluetoothAddress'')"

definition unowned_registry :: "('w, 'v) proxy_class \<Rightarrow> u64 \<Rightarrow> ('w, nat) act \<Rightarrow> ('w, nat) act" where
  "unowned_registry C hash_of_null new_self = factory_registry C hash_of_null None new_self"

subsection \<open>Wrappers of the hexadecimal text\<close>

definition sptr_to_hex_addr :: "bool \<Rightarrow> u64 \<Rightarrow> string" where
  "sptr_to_hex_addr prefix ptr = to_hex_addr prefix ptr"

definition rb_to_hex_addr :: "bool \<Rightarrow> u64 \<Rightarrow> string" where
  "rb_to_hex_addr prefix value = to_hex_string prefix value"

definition ref_to_hex_addr :: "bool \<Rightarrow> u64 \<Rightarrow> string" where
  "ref_to_hex_addr prefix addr = to_hex_addr prefix addr"

definition ref_to_hex_data :: "(bytes \<Rightarrow> string) \<Rightarrow> bool \<Rightarrow> bytes \<Rightarrow> string" where
  "ref_to_hex_data hex_lower prefix object = to_hex_data hex_lower prefix object"

text \<open>The template that calls it leaves its own \<open>prefix\<close> out.\<close>

definition object_to_hex_data :: "(bytes \<Rightarrow> string) \<Rightarrow> bool \<Rightarrow> bytes \<Rightarrow> string" where
  "object_to_hex_data hex_lower prefix object = ref_to_hex_data hex_lower True object"

lemma hex_addr_wrappers:
  "sptr_to_hex_addr p a = ref_to_hex_addr q a" "rb_to_hex_addr p a = ref_to_hex_addr q a"
  by (simp_all add: sptr_to_hex_addr_def ref_to_hex_addr_def rb_to_hex_addr_def to_hex_addr_def ptr_to_hex_addr_def
      to_hex_string_def)

subsection \<open>Ruby values of C++ objects\<close>

text \<open>
  \<open>to_ruby_value\<close> of a \<open>VALUE\<close> or a Rice object, of a wrapped object \<open>i\<close> through its \<open>self\<close>, and of a plain
  or shared pointer, which dereferences it; \<open>to_ruby_object\<close> wraps the answer in a Rice object.
\<close>

definition to_ruby_value :: "rb_value \<Rightarrow> rb_value" where
  "to_ruby_value val = val"

definition ref_to_ruby_value :: "(nat \<Rightarrow> ('w, rb_value) act) \<Rightarrow> nat \<Rightarrow> ('w, rb_value) act" where
  "ref_to_ruby_value self i = self i"

definition ptr_to_ruby_value :: "(nat \<Rightarrow> ('w, rb_value) act) \<Rightarrow> nat option \<Rightarrow> ('w, rb_value) act" where
  "ptr_to_ruby_value self ptr = (case ptr of None \<Rightarrow> throwA UndefinedBehaviour | Some i \<Rightarrow> ref_to_ruby_value self i)"

definition to_ruby_object :: "('v \<Rightarrow> ('w, rb_value) act) \<Rightarrow> 'v \<Rightarrow> ('w, rb_value) act" where
  "to_ruby_object to_value val = bindA (to_value val) retA"

text \<open>
  The Ruby class of a described enumerator is asked of the Ruby object it converts to; \<open>typeid\<close> names the
  type of a value, and of the content of a \<open>std::any\<close> (of \<open>void\<close> when it is empty).
\<close>

definition enum_rb_type_name :: "('e \<Rightarrow> rb_value) \<Rightarrow> (rb_value \<Rightarrow> string) \<Rightarrow> 'e \<Rightarrow> string" where
  "enum_rb_type_name convert class_name enumVal = class_name (convert enumVal)"

definition define_described_enum_in ::
  "(string \<Rightarrow> string) \<Rightarrow> string \<Rightarrow> 'e described \<Rightarrow> string \<times> (string \<times> 'e) list" where
  "define_described_enum_in demangle type_name traits =
     (human_type_name demangle type_name, define_described_enum traits)"

definition human_type_name_of :: "(string \<Rightarrow> string) \<Rightarrow> ('v \<Rightarrow> string) \<Rightarrow> 'v \<Rightarrow> string" where
  "human_type_name_of demangle typeid v = human_type_name demangle (typeid v)"

definition human_type_name_any :: "(string \<Rightarrow> string) \<Rightarrow> string \<Rightarrow> string option \<Rightarrow> string" where
  "human_type_name_any demangle void_type any = human_type_name demangle (case any of None \<Rightarrow> void_type | Some type \<Rightarrow> type)"

text \<open>A callback that is no lambda is a proc.\<close>

definition traits_is_proc :: "callback_traits \<Rightarrow> bool" where
  "traits_is_proc t = (\<not> is_lambda t)"

definition callback_arg_count :: "callback \<Rightarrow> u64" where
  "callback_arg_count c = cb_arg_count c"

definition callback_ruby_mark :: "callback \<Rightarrow> rb_value list" where
  "callback_ruby_mark cb = callback_mark cb"

lemma accepts_proc: "traits_is_proc t \<Longrightarrow> accepts_n_args t n = Inr True"
  by (simp add: traits_is_proc_def accepts_n_args_def)

lemma null_to_ruby_value: "ptr_to_ruby_value self None w = (Inl UndefinedBehaviour, w)"
  by (simp add: ptr_to_ruby_value_def throwA_def)

lemma shared_to_ruby_value:
  assumes "live (w_characteristics w) c = Some ch"
  shows "bindA (getA (\<lambda>w. Some c)) (to_ruby_object (ptr_to_ruby_value characteristic_self)) w = (Inr (c_self ch), w)"
  using assms by (simp add: to_ruby_object_def ptr_to_ruby_value_def ref_to_ruby_value_def characteristic_self_def
      deref_def bindA_def getA_def retA_def)

text \<open>The registry of an owner: the factory looks it up by the hash of the owner.\<close>

definition get_registry :: "('w, 'v) proxy_class \<Rightarrow> u64 \<Rightarrow> nat option \<Rightarrow> ('w, nat) act \<Rightarrow> ('w, nat) act" where
  "get_registry C index owner new_self = factory_registry C index owner new_self"

text \<open>Output to a stream, whose text so far is \<open>os\<close>.\<close>

definition nbs_bits :: "bitset \<Rightarrow> bitset" where
  "nbs_bits bits = bits"

definition nbs_put :: "string \<Rightarrow> fields \<Rightarrow> bitset \<Rightarrow> string" where
  "nbs_put os fs bits = os @ nbs_to_s fs bits"

definition descriptor_put :: "string \<Rightarrow> string \<Rightarrow> descriptor \<Rightarrow> string" where
  "descriptor_put os start d = os @ descriptor_to_s start d"

definition registry_put ::
  "string \<Rightarrow> ('w, 'v) proxy_class \<Rightarrow> string \<Rightarrow> (nat \<Rightarrow> ('w, string) act) \<Rightarrow> nat \<Rightarrow> ('w, string) act" where
  "registry_put os C type_name owner_to_s r = bindA (registry_to_s C type_name owner_to_s r) (\<lambda>s. retA (os @ s))"

subsection \<open>Properties\<close>

lemma owners_live:
  assumes "world_ok E w" and "live (w_characteristics w) c = Some ch"
  obtains sv per ad where "live (w_services w) (c_owner ch) = Some sv"
    and "live (w_peripherals w) (s_owner sv) = Some per" and "live (w_adapters w) (p_owner per) = Some ad"
proof -
  obtain sv where sv: "live (w_services w) (c_owner ch) = Some sv"
    using assms by (fastforce simp: world_ok_def characteristics_ok_def)
  obtain per where per: "live (w_peripherals w) (s_owner sv) = Some per"
    using assms(1) sv by (fastforce simp: world_ok_def services_ok_def)
  obtain ad where "live (w_adapters w) (p_owner per) = Some ad"
    using assms(1) per by (fastforce simp: world_ok_def peripherals_ok_def)
  with that sv per show ?thesis by blast
qed

text \<open>
  Going up from a live characteristic in any state the program can reach, through its service and its
  peripheral, ends at a live adapter, without an exception and without changing anything.
\<close>

theorem owners_lead_to_adapter:
  assumes "reachable (prog_init E) (prog_step E) w" and "live (w_characteristics w) c = Some ch"
  shows "\<exists>ad. bindA (characteristic_service c) (\<lambda>s. bindA (service_peripheral s) (\<lambda>p.
      bindA (peripheral_owner p) adapter_self)) w = (Inr (a_self ad), w) \<and> ad \<in> Option.these (set (w_adapters w))"
proof -
  have "world_ok E w" using prog.inv_reachable [OF assms(1)] by (simp add: graph_ok_def)
  then obtain sv per ad where o: "live (w_services w) (c_owner ch) = Some sv"
      "live (w_peripherals w) (s_owner sv) = Some per" "live (w_adapters w) (p_owner per) = Some ad"
    using assms(2) by (rule owners_live)
  have "Some ad \<in> set (w_adapters w)" using o(3) by (auto simp: live_def split: if_splits) (metis nth_mem)
  then have "ad \<in> Option.these (set (w_adapters w))" by (simp add: in_these_eq)
  moreover have "bindA (characteristic_service c) (\<lambda>s. bindA (service_peripheral s) (\<lambda>p.
      bindA (peripheral_owner p) adapter_self)) w = (Inr (a_self ad), w)"
    using assms(2) o by (simp add: characteristic_service_def service_peripheral_def peripheral_owner_def
        adapter_self_def deref_def bindA_def retA_def)
  ultimately show ?thesis by blast
qed

end
