(* ===== verification/Registry_Threads.thy ===== *)
theory Registry_Threads imports Std_Map begin

text \<open>
  \<open>Registry::fetch\<close> called by any number of threads: each access of the mutex, of the map and of the
  constructor is one action, in any interleaving, and Ruby may collect garbage in between.
  It implements a machine that gets or creates the proxy of a key in a single step. Below,
  \<open>RegistryFactory::registry\<close>, which takes no mutex: threads may make several registries for one
  index, but all of them leave with the same one (the accesses of its map are taken as atomic; in C++
  they are a data race unless the GVL excludes them).
\<close>

subsection \<open>fetch, action by action\<close>

text \<open>
  What a registry needs of the class of its proxies: the key of a value, the message for a creation
  during a collection, and whether the constructor throws, which may depend on how many proxies there
  were before. A proxy is known by its number; \<open>ft_objects\<close> are those whose construction succeeded.
\<close>

record 'v proxies =
  px_key :: "'v \<Rightarrow> string result"
  px_gc_error :: "string \<Rightarrow> error"
  px_new :: "'v \<Rightarrow> nat \<Rightarrow> error option"

datatype 'v fetch_pc =
    Idle
  | Waiting 'v
  | Inside 'v
  | Keyed 'v string
  | Missing 'v string
  | Creating 'v string
  | Created 'v string nat
  | Stored 'v string
  | Leaving 'v "nat result"
  | Answered 'v "nat result"

record 'v fetches =
  ft_map :: "(string, nat) std_map"
  ft_made :: nat
  ft_objects :: "nat list"
  ft_lock :: "nat option"
  ft_gc :: bool
  ft_pc :: "nat \<Rightarrow> 'v fetch_pc"

definition fetches_new :: "'v fetches" where
  "fetches_new = \<lparr>ft_map = [], ft_made = 0, ft_objects = [], ft_lock = None, ft_gc = False, ft_pc = (\<lambda>_. Idle)\<rparr>"

definition go :: "nat \<Rightarrow> 'v fetch_pc \<Rightarrow> 'v fetches \<Rightarrow> 'v fetches" where
  "go t p s = s\<lparr>ft_pc := (ft_pc s)(t := p)\<rparr>"

text \<open>The next action of thread \<open>t\<close>; \<open>None\<close> when it waits for the mutex, or is in no call.\<close>

definition fetch_action :: "'v proxies \<Rightarrow> nat \<Rightarrow> 'v fetches \<Rightarrow> 'v fetches option" where
  "fetch_action C t s = (case ft_pc s t of
     Waiting v \<Rightarrow> if ft_lock s = None then Some (go t (Inside v) (s\<lparr>ft_lock := Some t\<rparr>)) else None
   | Inside v \<Rightarrow> Some (go t (case px_key C v of Inl e \<Rightarrow> Leaving v (Inl e) | Inr k \<Rightarrow> Keyed v k) s)
   | Keyed v k \<Rightarrow> Some (go t (case map_find (ft_map s) k of Some p \<Rightarrow> Leaving v (Inr p) | None \<Rightarrow> Missing v k) s)
   | Missing v k \<Rightarrow> Some (go t (if ft_gc s then Leaving v (Inl (px_gc_error C k)) else Creating v k) s)
   | Creating v k \<Rightarrow> Some (case px_new C v (ft_made s) of
         Some e \<Rightarrow> go t (Leaving v (Inl e)) (s\<lparr>ft_made := ft_made s + 1\<rparr>)
       | None \<Rightarrow> go t (Created v k (ft_made s)) (s\<lparr>ft_made := ft_made s + 1, ft_objects := ft_objects s @ [ft_made s]\<rparr>))
   | Created v k p \<Rightarrow> Some (go t (Stored v k) (s\<lparr>ft_map := map_emplace k p (ft_map s)\<rparr>))
   | Stored v k \<Rightarrow> Some (go t (Leaving v (map_at (ft_map s) k)) s)
   | Leaving v r \<Rightarrow> Some (go t (Answered v r) (s\<lparr>ft_lock := None\<rparr>))
   | Idle \<Rightarrow> None
   | Answered v r \<Rightarrow> None)"

fun resting :: "'v fetch_pc \<Rightarrow> bool" where
  "resting Idle = True"
| "resting (Answered v r) = True"
| "resting _ = False"

inductive fetch_step :: "'v proxies \<Rightarrow> 'v fetches \<Rightarrow> 'v fetches \<Rightarrow> bool" for C :: "'v proxies" where
  call: "resting (ft_pc s t) \<Longrightarrow> fetch_step C s (go t (Waiting v) s)"
| act: "fetch_action C t s = Some s' \<Longrightarrow> fetch_step C s s'"
| gc: "fetch_step C s (s\<lparr>ft_gc := b\<rparr>)"

definition fetch_init :: "'v fetches \<Rightarrow> bool" where
  "fetch_init s \<longleftrightarrow> s = fetches_new"

subsection \<open>The machine it implements\<close>

text \<open>
  A call is pending until one step answers it: with the proxy of its key, with a new one that this
  step registers, or with an exception that registers nothing.
\<close>

datatype 'v call = No_call | Pending 'v | Done 'v "nat result"

record 'v lookup =
  lk_map :: "string \<Rightarrow> nat option"
  lk_call :: "nat \<Rightarrow> 'v call"

definition answer :: "nat \<Rightarrow> 'v \<Rightarrow> nat result \<Rightarrow> 'v lookup \<Rightarrow> 'v lookup" where
  "answer t v r a = a\<lparr>lk_call := (lk_call a)(t := Done v r)\<rparr>"

inductive lookup_step :: "'v proxies \<Rightarrow> 'v lookup \<Rightarrow> 'v lookup \<Rightarrow> bool" for C :: "'v proxies" where
  request: "(\<And>u. lk_call a t \<noteq> Pending u) \<Longrightarrow> lookup_step C a (a\<lparr>lk_call := (lk_call a)(t := Pending v)\<rparr>)"
| found: "lk_call a t = Pending v \<Longrightarrow> px_key C v = Inr k \<Longrightarrow> lk_map a k = Some p \<Longrightarrow>
    lookup_step C a (answer t v (Inr p) a)"
| create: "lk_call a t = Pending v \<Longrightarrow> px_key C v = Inr k \<Longrightarrow> lk_map a k = None \<Longrightarrow> p \<notin> ran (lk_map a) \<Longrightarrow>
    px_new C v p = None \<Longrightarrow> lookup_step C a (answer t v (Inr p) (a\<lparr>lk_map := (lk_map a)(k \<mapsto> p)\<rparr>))"
| no_key: "lk_call a t = Pending v \<Longrightarrow> px_key C v = Inl e \<Longrightarrow> lookup_step C a (answer t v (Inl e) a)"
| refuse: "lk_call a t = Pending v \<Longrightarrow> px_key C v = Inr k \<Longrightarrow> lk_map a k = None \<Longrightarrow>
    e = px_gc_error C k \<or> px_new C v n = Some e \<Longrightarrow> lookup_step C a (answer t v (Inl e) a)"

definition lookup_init :: "'v lookup \<Rightarrow> bool" where
  "lookup_init a \<longleftrightarrow> a = \<lparr>lk_map = Map.empty, lk_call = (\<lambda>_. No_call)\<rparr>"

text \<open>
  The step that answers a call is the one that finds out the answer or, for a new proxy, puts it into
  the map: from then on the call is seen as done.
\<close>

definition seen :: "(string, nat) std_map \<Rightarrow> 'v fetch_pc \<Rightarrow> 'v call" where
  "seen m pc = (case pc of
     Idle \<Rightarrow> No_call
   | Stored v k \<Rightarrow> Done v (map_at m k)
   | Leaving v r \<Rightarrow> Done v r
   | Answered v r \<Rightarrow> Done v r
   | Waiting v \<Rightarrow> Pending v | Inside v \<Rightarrow> Pending v | Keyed v k \<Rightarrow> Pending v | Missing v k \<Rightarrow> Pending v
   | Creating v k \<Rightarrow> Pending v | Created v k p \<Rightarrow> Pending v)"

definition view :: "'v fetches \<Rightarrow> 'v lookup" where
  "view s = \<lparr>lk_map = map_find (ft_map s), lk_call = (\<lambda>t. seen (ft_map s) (ft_pc s t))\<rparr>"

subsection \<open>The invariant of the mutex\<close>

fun in_section :: "'v fetch_pc \<Rightarrow> bool" where
  "in_section Idle = False"
| "in_section (Waiting v) = False"
| "in_section (Answered v r) = False"
| "in_section _ = True"

text \<open>What a thread at a point of \<open>fetch\<close> knows of the map and of the objects made.\<close>

fun known :: "'v proxies \<Rightarrow> 'v fetches \<Rightarrow> 'v fetch_pc \<Rightarrow> bool" where
  "known C s (Keyed v k) = (px_key C v = Inr k)"
| "known C s (Missing v k) = (px_key C v = Inr k \<and> map_find (ft_map s) k = None)"
| "known C s (Creating v k) = (px_key C v = Inr k \<and> map_find (ft_map s) k = None)"
| "known C s (Created v k p) = (px_key C v = Inr k \<and> map_find (ft_map s) k = None \<and> p < ft_made s \<and>
     p \<notin> ran (map_find (ft_map s)) \<and> px_new C v p = None)"
| "known C s (Stored v k) = (px_key C v = Inr k \<and> map_find (ft_map s) k \<noteq> None)"
| "known C s _ = True"

fun in_hand :: "'v fetch_pc \<Rightarrow> nat option" where
  "in_hand (Created v k p) = Some p"
| "in_hand _ = None"

definition fetch_inv :: "'v proxies \<Rightarrow> 'v fetches \<Rightarrow> bool" where
  "fetch_inv C s \<longleftrightarrow> map_ok (ft_map s) \<and> (\<forall>p \<in> ran (map_find (ft_map s)). p < ft_made s) \<and>
     (\<forall>t. in_section (ft_pc s t) \<longleftrightarrow> ft_lock s = Some t) \<and> (\<forall>t. known C s (ft_pc s t)) \<and>
     (\<forall>p \<in> set (ft_objects s). p \<in> ran (map_find (ft_map s)) \<or> (\<exists>t. in_hand (ft_pc s t) = Some p))"

lemma go_simps [simp]:
  "ft_pc (go t p s) = (ft_pc s)(t := p)" "ft_map (go t p s) = ft_map s" "ft_made (go t p s) = ft_made s"
  "ft_objects (go t p s) = ft_objects s" "ft_lock (go t p s) = ft_lock s" "ft_gc (go t p s) = ft_gc s" "known C (go t p s) q = known C s q"
  by (simp_all add: go_def) (cases q; simp)

lemma known_outside: "\<not> in_section pc \<Longrightarrow> known C s pc"
  by (cases pc) simp_all

lemma in_hand_section: "in_hand pc = Some p \<Longrightarrow> in_section pc"
  by (cases pc) simp_all

text \<open>A thread outside the critical section knows nothing that another could make false.\<close>

lemma fetch_inv_go:
  assumes "fetch_inv C s" and "ft_pc w = ft_pc s"
    and "map_ok (ft_map w)" and "\<forall>p \<in> ran (map_find (ft_map w)). p < ft_made w"
    and "\<And>u. u \<noteq> t \<Longrightarrow> (ft_lock w = Some u) = (ft_lock s = Some u)"
    and "in_section p \<longleftrightarrow> ft_lock w = Some t" and "known C w p"
    and "\<And>u. u \<noteq> t \<Longrightarrow> in_section (ft_pc s u) \<Longrightarrow> known C w (ft_pc s u)"
    and "\<And>x. x \<in> set (ft_objects w) \<Longrightarrow>
      x \<in> ran (map_find (ft_map w)) \<or> in_hand p = Some x \<or> (\<exists>u. u \<noteq> t \<and> in_hand (ft_pc s u) = Some x)"
  shows "fetch_inv C (go t p w)"
proof -
  have "known C w (ft_pc s u)" if "u \<noteq> t" for u using assms(8) [OF that] known_outside by blast
  moreover have "in_section (ft_pc s u) \<longleftrightarrow> ft_lock s = Some u" for u using assms(1) by (simp add: fetch_inv_def)
  moreover have "x \<in> ran (map_find (ft_map w)) \<or> (\<exists>u. in_hand (((ft_pc s)(t := p)) u) = Some x)" if "x \<in> set (ft_objects w)" for x
    using assms(9) [OF that] by (metis fun_upd_other fun_upd_same)
  ultimately show ?thesis using assms(2-6,7) by (auto simp: fetch_inv_def)
qed

lemma known_gc [simp]: "known C (s\<lparr>ft_gc := b\<rparr>) q = known C s q"
  by (cases q) simp_all

lemma fetch_inv_section:
  assumes "fetch_inv C s" and "in_section (ft_pc s t)"
    and "ft_pc w = ft_pc s" and "map_ok (ft_map w)" and "\<forall>p \<in> ran (map_find (ft_map w)). p < ft_made w"
    and "ft_lock w = (if in_section q then Some t else None)" and "known C w q"
    and "\<And>x. x \<in> set (ft_objects w) \<Longrightarrow> x \<in> ran (map_find (ft_map w)) \<or> in_hand q = Some x"
  shows "fetch_inv C (go t q w)"
proof -
  have lock: "ft_lock s = Some t" and only: "in_section (ft_pc s u) \<Longrightarrow> u = t" for u
    using assms(1,2) by (auto simp: fetch_inv_def)
  show ?thesis by (rule fetch_inv_go [OF assms(1,3-5)]) (use assms(6,7,8) lock only in auto)
qed

lemma fetch_inv_action:
  assumes inv: "fetch_inv C s" and act: "fetch_action C t s = Some s'"
  shows "fetch_inv C s'"
proof -
  have m: "map_ok (ft_map s)" "\<forall>p \<in> ran (map_find (ft_map s)). p < ft_made s"
    and lock: "in_section (ft_pc s u) \<longleftrightarrow> ft_lock s = Some u" and known: "known C s (ft_pc s u)" for u
    using inv by (simp_all add: fetch_inv_def)
  note sect = fetch_inv_section [OF inv, of t]
  have objs: "x \<in> ran (map_find (ft_map s)) \<or> (\<exists>u. in_hand (ft_pc s u) = Some x)" if "x \<in> set (ft_objects s)" for x
    using inv that by (simp add: fetch_inv_def)
  have mine: "x \<in> ran (map_find (ft_map s)) \<or> in_hand (ft_pc s t) = Some x"
    if "x \<in> set (ft_objects s)" and "in_section (ft_pc s t)" for x
  proof -
    have "u = t" if "in_hand (ft_pc s u) = Some x" for u
      using in_hand_section [OF that] \<open>in_section (ft_pc s t)\<close> lock by auto
    then show ?thesis using objs [OF that(1)] by auto
  qed
  show ?thesis
  proof (cases "ft_pc s t")
    case (Waiting v)
    then have free: "ft_lock s = None" and s': "s' = go t (Inside v) (s\<lparr>ft_lock := Some t\<rparr>)"
      using act by (auto simp: fetch_action_def split: if_splits)
    show ?thesis unfolding s' by (rule fetch_inv_go [OF inv]) (use m lock free objs Waiting in_hand_section in fastforce)+
  next
    case (Inside v)
    then have s': "s' = go t (case px_key C v of Inl e \<Rightarrow> Leaving v (Inl e) | Inr k \<Rightarrow> Keyed v k) s"
      using act by (simp add: fetch_action_def)
    show ?thesis unfolding s' by (rule sect) (use m mine lock [of t] Inside in \<open>auto split: sum.splits\<close>)
  next
    case (Keyed v k)
    then have s': "s' = go t (case map_find (ft_map s) k of Some p \<Rightarrow> Leaving v (Inr p) | None \<Rightarrow> Missing v k) s"
      using act by (simp add: fetch_action_def)
    show ?thesis unfolding s' by (rule sect) (use m mine lock [of t] known [of t] Keyed in \<open>auto split: option.splits\<close>)
  next
    case (Missing v k)
    then have s': "s' = go t (if ft_gc s then Leaving v (Inl (px_gc_error C k)) else Creating v k) s"
      using act by (simp add: fetch_action_def)
    show ?thesis unfolding s' by (rule sect) (use m mine lock [of t] known [of t] Missing in auto)
  next
    case (Creating v k)
    let ?w = "s\<lparr>ft_made := ft_made s + 1,
       ft_objects := (case px_new C v (ft_made s) of Some e \<Rightarrow> ft_objects s | None \<Rightarrow> ft_objects s @ [ft_made s])\<rparr>"
    have s': "s' = go t (case px_new C v (ft_made s) of Some e \<Rightarrow> Leaving v (Inl e) | None \<Rightarrow> Created v k (ft_made s)) ?w"
      using act Creating by (auto simp: fetch_action_def split: option.splits)
    have "ft_made s \<notin> ran (map_find (ft_map s))" using m(2) by blast
    then show ?thesis unfolding s'
      by (intro sect) (use m mine lock [of t] known [of t] Creating in \<open>auto split: option.splits\<close>)
  next
    case (Created v k p)
    then have s': "s' = go t (Stored v k) (s\<lparr>ft_map := map_emplace k p (ft_map s)\<rparr>)"
      using act by (simp add: fetch_action_def)
    have "map_find (map_emplace k p (ft_map s)) = (map_find (ft_map s))(k \<mapsto> p)" "map_find (ft_map s) k = None"
      using known [of t] Created by (auto simp: map_find_emplace [OF m(1)])
    then have "ran (map_find (map_emplace k p (ft_map s))) = insert p (ran (map_find (ft_map s)))" by simp
    then show ?thesis unfolding s'
      by (intro sect) (use m lock [of t] known [of t] Created mine in \<open>auto simp: map_find_emplace map_ok_emplace\<close>)
  next
    case (Stored v k)
    then have s': "s' = go t (Leaving v (map_at (ft_map s) k)) s"
      using act by (simp add: fetch_action_def)
    show ?thesis unfolding s' by (rule sect) (use m mine lock [of t] Stored in auto)
  next
    case (Leaving v r)
    then have s': "s' = go t (Answered v r) (s\<lparr>ft_lock := None\<rparr>)"
      using act by (simp add: fetch_action_def)
    show ?thesis unfolding s' by (rule sect) (use m mine lock [of t] Leaving in auto)
  qed (use act in \<open>simp_all add: fetch_action_def\<close>)
qed

lemma fetch_inv_step: "fetch_step C s s' \<Longrightarrow> fetch_inv C s \<Longrightarrow> fetch_inv C s'"
proof (induction rule: fetch_step.induct)
  case (call s t v)
  have "\<not> in_section (ft_pc s t)" using call(1) by (cases "ft_pc s t") simp_all
  then show ?case
    by (intro fetch_inv_go [OF call(2)]) (use call(2) in_hand_section in \<open>fastforce simp: fetch_inv_def\<close>)+
next
  case (gc s b)
  then show ?case by (simp add: fetch_inv_def)
qed (rule fetch_inv_action)

lemma fetch_inv_new: "fetch_init s \<Longrightarrow> fetch_inv C s"
  by (simp add: fetch_init_def fetches_new_def fetch_inv_def map_find_def ran_def)

interpretation fetching: inductive_invariant fetch_init "fetch_step C" "fetch_inv C" for C
  by unfold_locales (erule fetch_inv_new, erule (1) fetch_inv_step)

subsection \<open>Refinement\<close>

lemma view_go: "view (go t q w) = (view w)\<lparr>lk_call := (lk_call (view w))(t := seen (ft_map w) q)\<rparr>"
  by (auto simp: view_def)

lemma view_fields:
  "lk_map (view s) = map_find (ft_map s)" "lk_call (view s) t = seen (ft_map s) (ft_pc s t)"
  by (simp_all add: view_def)

text \<open>Actions that leave the map alone: seen as nothing when the call is seen as before, as its answer otherwise.\<close>

lemma view_same:
  assumes "ft_pc w = ft_pc s" and "ft_map w = ft_map s" and "seen (ft_map s) q = seen (ft_map s) (ft_pc s t)"
  shows "view (go t q w) = view s"
  using assms by (auto simp: view_def)

lemma view_answer:
  assumes "ft_pc w = ft_pc s" and "ft_map w = ft_map s" and "seen (ft_map s) q = Done v r"
  shows "view (go t q w) = answer t v r (view s)"
  using assms by (auto simp: view_def answer_def)

lemma view_action:
  assumes inv: "fetch_inv C s" and act: "fetch_action C t s = Some s'"
  shows "view s' = view s \<or> lookup_step C (view s) (view s')"
proof -
  have m: "map_ok (ft_map s)" and lock: "in_section (ft_pc s u) \<longleftrightarrow> ft_lock s = Some u" and known: "known C s (ft_pc s u)" for u
    using inv by (simp_all add: fetch_inv_def)
  note same = view_same and ans = view_answer
  show ?thesis
  proof (cases "ft_pc s t")
    case (Waiting v)
    then have "s' = go t (Inside v) (s\<lparr>ft_lock := Some t\<rparr>)" using act by (auto simp: fetch_action_def split: if_splits)
    then show ?thesis using Waiting by (simp add: view_same seen_def)
  next
    case (Inside v)
    then have pend: "lk_call (view s) t = Pending v" by (simp add: view_fields seen_def)
    show ?thesis
    proof (cases "px_key C v")
      case (Inl e)
      then have "view s' = answer t v (Inl e) (view s)"
        using act Inside by (auto simp: fetch_action_def seen_def intro: view_answer)
      then show ?thesis using lookup_step.no_key [OF pend Inl] by simp
    next
      case (Inr k)
      then show ?thesis using act Inside by (auto simp: fetch_action_def view_same seen_def)
    qed
  next
    case (Keyed v k)
    then have pend: "lk_call (view s) t = Pending v" by (simp add: view_fields seen_def)
    have key: "px_key C v = Inr k" using known [of t] Keyed by simp
    show ?thesis
    proof (cases "map_find (ft_map s) k")
      case None
      then show ?thesis using act Keyed by (auto simp: fetch_action_def view_same seen_def)
    next
      case (Some p)
      then have "view s' = answer t v (Inr p) (view s)"
        using act Keyed by (auto simp: fetch_action_def seen_def intro: view_answer)
      then show ?thesis using lookup_step.found [OF pend key] Some by (simp add: view_fields)
    qed
  next
    case (Missing v k)
    then have pend: "lk_call (view s) t = Pending v" by (simp add: view_fields seen_def)
    have key: "px_key C v = Inr k" "lk_map (view s) k = None" using known [of t] Missing by (simp_all add: view_fields)
    show ?thesis
    proof (cases "ft_gc s")
      case True
      then have "view s' = answer t v (Inl (px_gc_error C k)) (view s)"
        using act Missing by (auto simp: fetch_action_def seen_def intro: view_answer)
      then show ?thesis using lookup_step.refuse [OF pend key] by simp
    next
      case False
      then show ?thesis using act Missing by (auto simp: fetch_action_def view_same seen_def)
    qed
  next
    case (Creating v k)
    then have pend: "lk_call (view s) t = Pending v" by (simp add: view_fields seen_def)
    have key: "px_key C v = Inr k" "lk_map (view s) k = None" using known [of t] Creating by (simp_all add: view_fields)
    show ?thesis
    proof (cases "px_new C v (ft_made s)")
      case None
      then show ?thesis using act Creating by (auto simp: fetch_action_def view_same seen_def)
    next
      case (Some e)
      then have "view s' = answer t v (Inl e) (view s)"
        using act Creating by (auto simp: fetch_action_def seen_def intro: view_answer)
      then show ?thesis using lookup_step.refuse [OF pend key, of e "ft_made s"] Some by simp
    qed
  next
    case (Created v k p)
    then have pend: "lk_call (view s) t = Pending v" by (simp add: view_fields seen_def)
    have kn: "px_key C v = Inr k" "map_find (ft_map s) k = None" "p \<notin> ran (map_find (ft_map s))" "px_new C v p = None"
      using known [of t] Created by simp_all
    let ?m = "map_emplace k p (ft_map s)"
    have s': "s' = go t (Stored v k) (s\<lparr>ft_map := ?m\<rparr>)" using act Created by (simp add: fetch_action_def)
    have map: "map_find ?m = (map_find (ft_map s))(k \<mapsto> p)" using kn(2) by (auto simp: map_find_emplace [OF m])
    have "seen ?m (ft_pc s u) = seen (ft_map s) (ft_pc s u)" if "u \<noteq> t" for u
    proof -
      have "\<not> in_section (ft_pc s u)" using lock [of u] lock [of t] Created that by simp
      then show ?thesis by (cases "ft_pc s u") (simp_all add: seen_def)
    qed
    then have "view s' = answer t v (Inr p) ((view s)\<lparr>lk_map := (lk_map (view s))(k \<mapsto> p)\<rparr>)"
      using map by (auto simp: s' view_def answer_def seen_def map_at_def fun_eq_iff)
    then show ?thesis using lookup_step.create [OF pend kn(1), of p] kn by (simp add: view_fields)
  next
    case (Stored v k)
    then show ?thesis using act by (auto simp: fetch_action_def view_same seen_def)
  next
    case (Leaving v r)
    then show ?thesis using act by (auto simp: fetch_action_def view_same seen_def)
  qed (use act in \<open>simp_all add: fetch_action_def\<close>)
qed

lemma view_step:
  "fetch_step C s s' \<Longrightarrow> fetch_inv C s \<Longrightarrow> view s' = view s \<or> lookup_step C (view s) (view s')"
proof (induction rule: fetch_step.induct)
  case (call s t v)
  have "lk_call (view s) t \<noteq> Pending u" for u using call(1) by (cases "ft_pc s t") (simp_all add: view_fields seen_def)
  from lookup_step.request [of "view s" t C v, OF this]
  show ?case by (simp add: view_go seen_def)
next
  case (act t s s')
  show ?case by (rule view_action [OF act(2,1)])
next
  case (gc s b)
  show ?case by (simp add: view_def)
qed

interpretation fetch_sim: simulation fetch_init "fetch_step C" lookup_init "lookup_step C" view for C
proof
  fix s :: "'a fetches"
  assume "fetch_init s"
  then show "lookup_init (view s)"
    by (auto simp: fetch_init_def fetches_new_def view_def lookup_init_def seen_def map_find_def fun_eq_iff)
next
  fix s s' :: "'a fetches"
  assume "reachable fetch_init (fetch_step C) s" and step: "fetch_step C s s'"
  then show "view s' = view s \<or> lookup_step C (view s) (view s')"
    using view_step [OF step] by (blast dest: fetching.inv_reachable)
qed

text \<open>In the machine, an answer stays the proxy of its key, and no proxy has two keys.\<close>

definition lookup_ok :: "'v proxies \<Rightarrow> 'v lookup \<Rightarrow> bool" where
  "lookup_ok C a \<longleftrightarrow> inj_on (lk_map a) (dom (lk_map a)) \<and>
     (\<forall>t v p. lk_call a t = Done v (Inr p) \<longrightarrow> (\<exists>k. px_key C v = Inr k \<and> lk_map a k = Some p))"

lemma lookup_ok_step: "lookup_step C a b \<Longrightarrow> lookup_ok C a \<Longrightarrow> lookup_ok C b"
proof (induction rule: lookup_step.induct)
  case (create a t v k p)
  have "inj_on ((lk_map a)(k \<mapsto> p)) (dom ((lk_map a)(k \<mapsto> p)))"
    using create(3,4,6) by (auto simp: lookup_ok_def inj_on_def ran_def dom_def)
  moreover have "\<exists>j. px_key C x = Inr j \<and> ((lk_map a)(k \<mapsto> p)) j = Some q" if "lk_call a u = Done x (Inr q)" for u x q
    using create(3,6) that by (fastforce simp: lookup_ok_def)
  ultimately show ?case using create(2) by (auto simp: lookup_ok_def answer_def)
qed (auto simp: lookup_ok_def answer_def)

interpretation lookups: inductive_invariant lookup_init "lookup_step C" "lookup_ok C" for C
  by unfold_locales (simp add: lookup_init_def lookup_ok_def, erule (1) lookup_ok_step [rotated])

subsection \<open>Progress\<close>

text \<open>The actions a call still has to do.\<close>

fun remaining :: "'v fetch_pc \<Rightarrow> nat" where
  "remaining (Waiting v) = 8"
| "remaining (Inside v) = 7"
| "remaining (Keyed v k) = 6"
| "remaining (Missing v k) = 5"
| "remaining (Creating v k) = 4"
| "remaining (Created v k p) = 3"
| "remaining (Stored v k) = 2"
| "remaining (Leaving v r) = 1"
| "remaining Idle = 0"
| "remaining (Answered v r) = 0"

lemma action_remaining:
  "fetch_action C t s = Some s' \<Longrightarrow>
     remaining (ft_pc s' t) < remaining (ft_pc s t) \<and> (\<forall>u. u \<noteq> t \<longrightarrow> ft_pc s' u = ft_pc s u)"
  by (cases "ft_pc s t") (auto simp: fetch_action_def split: if_splits sum.splits option.splits)

lemma section_acts: "in_section (ft_pc s t) \<Longrightarrow> fetch_action C t s \<noteq> None"
  by (cases "ft_pc s t") (simp_all add: fetch_action_def)

subsection \<open>A schedule by hand\<close>

fun run_threads :: "'v proxies \<Rightarrow> nat list \<Rightarrow> 'v fetches \<Rightarrow> 'v fetches option" where
  "run_threads C [] s = Some s"
| "run_threads C (t # ts) s = (case fetch_action C t s of None \<Rightarrow> None | Some s' \<Rightarrow> run_threads C ts s')"

lemma run_threads_reachable:
  "run_threads C ts s = Some s' \<Longrightarrow> reachable fetch_init (fetch_step C) s \<Longrightarrow> reachable fetch_init (fetch_step C) s'"
proof (induction ts arbitrary: s)
  case (Cons t ts)
  then obtain u where "fetch_action C t s = Some u" "run_threads C ts u = Some s'" by (auto split: option.splits)
  then show ?case using Cons.IH [of u] reach_step [OF Cons.prems(2) fetch_step.act] by blast
qed simp

text \<open>Two threads ask for the same key, a third for another one.\<close>

definition three_calls :: "string fetches" where
  "three_calls = go 2 (Waiting ''2a1a'') (go 1 (Waiting ''2a19'') (go 0 (Waiting ''2a19'') fetches_new))"

definition plain_proxies :: "string proxies" where
  "plain_proxies = \<lparr>px_key = Inr, px_gc_error = RuntimeError, px_new = (\<lambda>v n. None)\<rparr>"

lemma three_calls_reachable: "reachable fetch_init (fetch_step C) three_calls"
proof -
  have 0: "reachable fetch_init (fetch_step C) fetches_new" by (rule reach_init) (simp add: fetch_init_def)
  have 1: "reachable fetch_init (fetch_step C) (go 0 (Waiting v) fetches_new)" for v
    by (rule reach_step [OF 0]) (rule fetch_step.call, simp add: fetches_new_def)
  have 2: "reachable fetch_init (fetch_step C) (go 1 (Waiting u) (go 0 (Waiting v) fetches_new))" for u v
    by (rule reach_step [OF 1]) (rule fetch_step.call, simp add: fetches_new_def)
  show ?thesis unfolding three_calls_def
    by (rule reach_step [OF 2]) (rule fetch_step.call, simp add: fetches_new_def)
qed

subsection \<open>Properties of fetch\<close>

text \<open>
  C7. Under any interleaving, with collections in between and constructors that throw, \<open>fetch\<close> implements
  get-or-create in one step: what a reachable state shows is a reachable state of that machine, and
  every action of a thread is seen as one of its steps or as none.
\<close>

theorem fetch_linearizable:
  assumes "reachable fetch_init (fetch_step C) s" and "fetch_step C s s'"
  shows "reachable lookup_init (lookup_step C) (view s) \<and> (view s' = view s \<or> lookup_step C (view s) (view s'))"
  using fetch_sim.sim_reachable [OF assms(1)] fetch_sim.sim_step [OF assms] by blast

theorem fetch_linearizable_witness:
  "\<exists>s s'. run_threads plain_proxies [1, 1, 1, 1, 1] three_calls = Some s \<and> fetch_action plain_proxies 1 s = Some s' \<and>
     view s' \<noteq> view s \<and> lookup_step plain_proxies (view s) (view s')"
proof -
  obtain s s' where s: "run_threads plain_proxies [1, 1, 1, 1, 1] three_calls = Some s"
    "fetch_action plain_proxies 1 s = Some s'" "ft_map s = []" "ft_map s' = [(''2a19'', 0)]"
    by (simp add: fetch_action_def three_calls_def plain_proxies_def go_def fetches_new_def map_find_def)
  have "reachable fetch_init (fetch_step plain_proxies) s"
    by (rule run_threads_reachable [OF s(1) three_calls_reachable])
  moreover have "lk_map (view s) ''2a19'' \<noteq> lk_map (view s') ''2a19''" using s(3,4) by (simp add: view_fields map_find_def)
  ultimately show ?thesis using fetch_linearizable [OF _ fetch_step.act [OF s(2)]] s(1,2) by metis
qed

lemma objects_registered:
  assumes "fetch_inv C s" and "ft_lock s = None" and "x \<in> set (ft_objects s)"
  shows "x \<in> ran (map_find (ft_map s))"
  using assms in_hand_section by (fastforce simp: fetch_inv_def)

text \<open>
  C12. Two calls that were answered have the same proxy exactly when their values have the same key, and a
  proxy answered is the one that the map holds. No proxy is made in vain: whenever the mutex is free,
  every object that was constructed is registered.
\<close>

theorem fetch_one_proxy_per_key:
  assumes "reachable fetch_init (fetch_step C) s"
    and "ft_pc s t = Answered v (Inr p)" and "ft_pc s u = Answered x (Inr q)"
  shows "(p = q \<longleftrightarrow> px_key C v = px_key C x) \<and> (\<exists>k. px_key C v = Inr k \<and> map_find (ft_map s) k = Some p) \<and>
    (ft_lock s = None \<longrightarrow> set (ft_objects s) \<subseteq> ran (map_find (ft_map s)))"
proof -
  have ok: "lookup_ok C (view s)" by (rule fetch_sim.sim_invariant [OF lookups.inv_reachable assms(1)])
  have "lk_call (view s) t = Done v (Inr p)" "lk_call (view s) u = Done x (Inr q)"
    using assms(2,3) by (simp_all add: view_fields seen_def)
  with ok obtain k j where k: "px_key C v = Inr k" "lk_map (view s) k = Some p" "px_key C x = Inr j" "lk_map (view s) j = Some q"
    unfolding lookup_ok_def by metis
  then have "p = q \<longleftrightarrow> k = j" using ok by (auto simp: lookup_ok_def inj_on_def dom_def)
  then show ?thesis using k objects_registered [OF fetching.inv_reachable [OF assms(1)]] by (auto simp: view_fields)
qed

theorem fetch_one_proxy_per_key_witness:
  "\<exists>s. run_threads plain_proxies ([1, 1, 1, 1] @ [1, 1, 1, 1] @ [0, 0, 0, 0] @ replicate 8 2) three_calls = Some s \<and>
     ft_pc s 0 = Answered ''2a19'' (Inr 0) \<and> ft_pc s 1 = Answered ''2a19'' (Inr 0) \<and>
     ft_pc s 2 = Answered ''2a1a'' (Inr 1) \<and> map_find (ft_map s) ''2a1a'' = Some 1 \<and>
     ft_lock s = None \<and> set (ft_objects s) \<subseteq> ran (map_find (ft_map s))"
proof -
  obtain s where s: "run_threads plain_proxies ([1, 1, 1, 1] @ [1, 1, 1, 1] @ [0, 0, 0, 0] @ replicate 8 2) three_calls = Some s"
    "ft_pc s 0 = Answered ''2a19'' (Inr 0)" "ft_pc s 1 = Answered ''2a19'' (Inr 0)" "ft_pc s 2 = Answered ''2a1a'' (Inr 1)"
    "ft_lock s = None"
    by (simp add: fetch_action_def three_calls_def plain_proxies_def go_def fetches_new_def map_find_def map_at_def
        numeral_eq_Suc)
  from fetch_one_proxy_per_key [OF run_threads_reachable [OF s(1) three_calls_reachable] s(4) s(2)] s
  show ?thesis by (auto simp: plain_proxies_def)
qed

text \<open>
  C29. No call is stuck: while one is under way some thread can act; the thread that holds the mutex always
  can, and every action brings its own call nearer to its answer, which it has after eight of them.
\<close>

theorem fetch_progress:
  assumes "reachable fetch_init (fetch_step C) s"
  shows "(\<not> resting (ft_pc s t) \<longrightarrow> (\<exists>u s'. fetch_action C u s = Some s')) \<and>
    (ft_lock s = Some t \<longrightarrow> (\<exists>s'. fetch_action C t s = Some s')) \<and> remaining (ft_pc s t) \<le> 8 \<and>
    (\<forall>u s'. fetch_action C u s = Some s' \<longrightarrow>
      remaining (ft_pc s' u) < remaining (ft_pc s u) \<and> (\<forall>w. w \<noteq> u \<longrightarrow> ft_pc s' w = ft_pc s w))"
proof -
  have lock: "in_section (ft_pc s u) \<longleftrightarrow> ft_lock s = Some u" for u
    using fetching.inv_reachable [OF assms] by (simp add: fetch_inv_def)
  have "\<exists>u s'. fetch_action C u s = Some s'" if busy: "\<not> resting (ft_pc s t)"
  proof (cases "ft_lock s")
    case None
    then have "\<not> in_section (ft_pc s t)" using lock by simp
    then obtain v where "ft_pc s t = Waiting v" using busy by (cases "ft_pc s t") simp_all
    then show ?thesis using None by (auto simp: fetch_action_def intro!: exI [of _ t])
  next
    case (Some u)
    then show ?thesis using section_acts [of s u C] lock by auto
  qed
  moreover have "\<exists>s'. fetch_action C t s = Some s'" if "ft_lock s = Some t"
    using section_acts [of s t C] lock that by auto
  moreover have "remaining (ft_pc s t) \<le> 8" by (cases "ft_pc s t") simp_all
  ultimately show ?thesis using action_remaining by blast
qed

theorem fetch_progress_witness:
  "\<exists>s'. fetch_action plain_proxies 0 three_calls = Some s' \<and> remaining (ft_pc s' 0) < remaining (ft_pc three_calls 0)"
proof -
  obtain s' where "fetch_action plain_proxies 0 three_calls = Some s'"
    by (simp add: fetch_action_def three_calls_def fetches_new_def)
  then show ?thesis using fetch_progress [OF three_calls_reachable] by blast
qed

subsection \<open>The factory, action by action\<close>

text \<open>
  An entry of the map of registries is a pointer, \<open>None\<close> when it is null: \<open>operator[]\<close> puts a null
  pointer where there is nothing. A registry that was made and not stored is dropped.
\<close>

datatype registry_pc =
    R_idle
  | R_asked u64
  | R_reading u64
  | R_making u64
  | R_holding u64 nat
  | R_left u64 "nat option"

record registries =
  rt_map :: "u64 \<Rightarrow> nat option option"
  rt_made :: nat
  rt_pc :: "nat \<Rightarrow> registry_pc"

definition registries_new :: registries where
  "registries_new = \<lparr>rt_map = Map.empty, rt_made = 0, rt_pc = (\<lambda>_. R_idle)\<rparr>"

definition moves :: "nat \<Rightarrow> registry_pc \<Rightarrow> registries \<Rightarrow> registries" where
  "moves t p s = s\<lparr>rt_pc := (rt_pc s)(t := p)\<rparr>"

definition registry_action :: "nat \<Rightarrow> registries \<Rightarrow> registries option" where
  "registry_action t s = (case rt_pc s t of
     R_asked i \<Rightarrow> Some (moves t (if rt_map s i \<noteq> None then R_reading i else R_making i) s)
   | R_reading i \<Rightarrow> Some (case rt_map s i of
         Some q \<Rightarrow> moves t (R_left i q) s
       | None \<Rightarrow> moves t (R_left i None) (s\<lparr>rt_map := (rt_map s)(i \<mapsto> None)\<rparr>))
   | R_making i \<Rightarrow> Some (moves t (R_holding i (rt_made s)) (s\<lparr>rt_made := rt_made s + 1\<rparr>))
   | R_holding i n \<Rightarrow> Some (case rt_map s i of
         Some q \<Rightarrow> moves t (R_left i q) s
       | None \<Rightarrow> moves t (R_left i (Some n)) (s\<lparr>rt_map := (rt_map s)(i \<mapsto> Some n)\<rparr>))
   | R_idle \<Rightarrow> None
   | R_left i q \<Rightarrow> None)"

fun at_rest :: "registry_pc \<Rightarrow> bool" where
  "at_rest R_idle = True"
| "at_rest (R_left i q) = True"
| "at_rest _ = False"

inductive registry_step :: "registries \<Rightarrow> registries \<Rightarrow> bool" where
  ask: "at_rest (rt_pc s t) \<Longrightarrow> registry_step s (moves t (R_asked i) s)"
| act: "registry_action t s = Some s' \<Longrightarrow> registry_step s s'"

text \<open>What a thread relies on; nothing of it can become false, because the map only grows.\<close>

fun relies :: "registries \<Rightarrow> registry_pc \<Rightarrow> bool" where
  "relies s (R_reading i) = (rt_map s i \<noteq> None)"
| "relies s (R_holding i n) = (n < rt_made s \<and> Some (Some n) \<notin> range (rt_map s))"
| "relies s (R_left i q) = (rt_map s i = Some q)"
| "relies s _ = True"

definition held :: "registry_pc \<Rightarrow> nat option" where
  "held pc = (case pc of R_holding i n \<Rightarrow> Some n | _ \<Rightarrow> None)"

definition registries_inv :: "registries \<Rightarrow> bool" where
  "registries_inv s \<longleftrightarrow> (\<forall>t. relies s (rt_pc s t)) \<and>
     (\<forall>i q. rt_map s i = Some q \<longrightarrow> (\<exists>r. q = Some r \<and> r < rt_made s)) \<and>
     (\<forall>i j r. rt_map s i = Some (Some r) \<longrightarrow> rt_map s j = Some (Some r) \<longrightarrow> i = j) \<and>
     (\<forall>t u n. held (rt_pc s t) = Some n \<longrightarrow> held (rt_pc s u) = Some n \<longrightarrow> t = u)"

lemma moves_simps [simp]:
  "rt_pc (moves t p s) = (rt_pc s)(t := p)" "rt_map (moves t p s) = rt_map s" "rt_made (moves t p s) = rt_made s"
  "relies (moves t p s) q = relies s q"
  by (simp_all add: moves_def) (cases q; simp)

lemma held_simps [simp]:
  "held (R_holding i n) = Some n" "held R_idle = None" "held (R_asked i) = None" "held (R_reading i) = None"
  "held (R_making i) = None" "held (R_left i q) = None"
  by (simp_all add: held_def)

lemma held_relies: "relies s pc \<Longrightarrow> held pc = Some n \<Longrightarrow> n < rt_made s \<and> Some (Some n) \<notin> range (rt_map s)"
  by (cases pc) auto

text \<open>An action that leaves the map alone and holds nothing new.\<close>

lemma registries_inv_move:
  assumes "registries_inv s" and "relies s p" and "held p = None"
  shows "registries_inv (moves t p s)"
  using assms by (auto simp: registries_inv_def)

lemma registries_inv_make:
  assumes "registries_inv s"
  shows "registries_inv (moves t (R_holding i (rt_made s)) (s\<lparr>rt_made := rt_made s + 1\<rparr>))"
proof -
  let ?w = "s\<lparr>rt_made := rt_made s + 1\<rparr>"
  have rel: "relies s (rt_pc s u)" for u using assms by (simp add: registries_inv_def)
  have "relies ?w (rt_pc s u)" for u using rel [of u] by (cases "rt_pc s u") auto
  moreover have "Some (Some (rt_made s)) \<notin> range (rt_map s)"
  proof
    assume "Some (Some (rt_made s)) \<in> range (rt_map s)"
    then obtain j where "rt_map s j = Some (Some (rt_made s))" by auto
    then show False using assms by (fastforce simp: registries_inv_def)
  qed
  moreover have "held (rt_pc s u) \<noteq> Some (rt_made s)" for u using held_relies [OF rel [of u]] by auto
  moreover have "\<exists>r. q = Some r \<and> r < rt_made ?w" if "rt_map s j = Some q" for j q
    using assms that by (fastforce simp: registries_inv_def)
  ultimately show ?thesis using assms by (auto simp: registries_inv_def)
qed

lemma registries_inv_store:
  assumes "registries_inv s" and "rt_pc s t = R_holding i n" and "rt_map s i = None"
  shows "registries_inv (moves t (R_left i (Some n)) (s\<lparr>rt_map := (rt_map s)(i \<mapsto> Some n)\<rparr>))"
proof -
  let ?w = "s\<lparr>rt_map := (rt_map s)(i \<mapsto> Some n)\<rparr>"
  have rel: "relies s (rt_pc s u)" for u using assms(1) by (simp add: registries_inv_def)
  have n: "n < rt_made s" "Some (Some n) \<notin> range (rt_map s)" using rel [of t] assms(2) by simp_all
  have other: "relies ?w (rt_pc s u)" if "u \<noteq> t" for u
  proof (cases "rt_pc s u")
    case (R_holding j m)
    have "m \<noteq> n" using assms(1,2) R_holding that by (auto simp: registries_inv_def)
    then show ?thesis using rel [of u] R_holding by (auto simp: image_iff)
  qed (use rel [of u] assms(3) in auto)
  have "rt_map s j \<noteq> Some (Some n)" for j using n(2) by (metis rangeI)
  then show ?thesis using assms(1,3) n(1) other by (auto simp: registries_inv_def)
qed

lemma registries_inv_step: "registry_step s s' \<Longrightarrow> registries_inv s \<Longrightarrow> registries_inv s'"
proof (induction rule: registry_step.induct)
  case (ask s t i)
  then show ?case by (simp add: registries_inv_move)
next
  case (act t s s')
  have rel: "relies s (rt_pc s t)" using act(2) by (simp add: registries_inv_def)
  show ?case
  proof (cases "rt_pc s t")
    case (R_holding i n)
    then show ?thesis using act registries_inv_store [OF act(2) R_holding] registries_inv_move [OF act(2)]
      by (cases "rt_map s i") (auto simp: registry_action_def)
  next
    case (R_making i)
    then show ?thesis using act registries_inv_make by (auto simp: registry_action_def)
  next
    case (R_reading i)
    then show ?thesis using act rel by (auto simp: registry_action_def registries_inv_move)
  qed (use act in \<open>auto simp: registry_action_def registries_inv_move\<close>)
qed

interpretation registering: inductive_invariant "\<lambda>s. s = registries_new" registry_step registries_inv
  by unfold_locales (simp add: registries_new_def registries_inv_def, erule (1) registries_inv_step [rotated])

fun run_registries :: "nat list \<Rightarrow> registries \<Rightarrow> registries option" where
  "run_registries [] s = Some s"
| "run_registries (t # ts) s = (case registry_action t s of None \<Rightarrow> None | Some s' \<Rightarrow> run_registries ts s')"

lemma run_registries_reachable:
  "run_registries ts s = Some s' \<Longrightarrow> reachable init registry_step s \<Longrightarrow> reachable init registry_step s'"
proof (induction ts arbitrary: s)
  case (Cons t ts)
  then obtain u where "registry_action t s = Some u" "run_registries ts u = Some s'" by (auto split: option.splits)
  then show ?case using Cons.IH [of u] reach_step [OF Cons.prems(2) registry_step.act] by blast
qed simp

text \<open>
  C9. However the calls of \<open>RegistryFactory::registry\<close> interleave: one that returned has a registry and not
  a null pointer, it is the one the factory has stored for good under the index of its owner, and two
  calls have the same registry exactly when their indices are equal.
\<close>

theorem factory_registry_agree:
  assumes "reachable (\<lambda>s. s = registries_new) registry_step s" and "rt_pc s t = R_left i q" and "rt_pc s u = R_left j p"
  shows "(\<exists>r. q = Some r \<and> r < rt_made s \<and> rt_map s i = Some (Some r)) \<and> (q = p \<longleftrightarrow> i = j)"
proof -
  have inv: "registries_inv s" by (rule registering.inv_reachable [OF assms(1)])
  have "relies s (rt_pc s t)" "relies s (rt_pc s u)" using inv by (simp_all add: registries_inv_def)
  then have "rt_map s i = Some q" "rt_map s j = Some p" using assms(2,3) by simp_all
  then show ?thesis using inv by (fastforce simp: registries_inv_def)
qed

text \<open>Two threads that overlap make two registries, and both leave with the first one stored.\<close>

theorem factory_registry_agree_witness:
  "\<exists>s. run_registries [0, 1, 0, 1, 1, 0] (moves 1 (R_asked 7) (moves 0 (R_asked 7) registries_new)) = Some s \<and>
     rt_made s = 2 \<and> rt_pc s 0 = R_left 7 (Some 1) \<and> rt_pc s 1 = R_left 7 (Some 1) \<and> rt_map s 7 = Some (Some 1)"
proof -
  let ?s = "moves 1 (R_asked 7) (moves 0 (R_asked 7) registries_new)"
  obtain s where s: "run_registries [0, 1, 0, 1, 1, 0] ?s = Some s" "rt_made s = 2"
    "rt_pc s 0 = R_left 7 (Some 1)" "rt_pc s 1 = R_left 7 (Some 1)"
    by (simp add: registry_action_def moves_def registries_new_def)
  have 0: "reachable (\<lambda>s. s = registries_new) registry_step registries_new" by (rule reach_init) (rule refl)
  have 1: "reachable (\<lambda>s. s = registries_new) registry_step (moves 0 (R_asked 7) registries_new)"
    by (rule reach_step [OF 0]) (rule registry_step.ask, simp add: registries_new_def)
  have "reachable (\<lambda>s. s = registries_new) registry_step ?s"
    by (rule reach_step [OF 1]) (rule registry_step.ask, simp add: registries_new_def)
  from factory_registry_agree [OF run_registries_reachable [OF s(1) this] s(3,4)] s show ?thesis by simp
qed

end
