(* ===== verification/Ruby_Calls.thy ===== *)
theory Ruby_Calls imports Ruby_Interface Accessors begin

text \<open>
  A method call as Ruby sees it: the interface table says which C++ function the name stands for,
  Rice converts the arguments, and the function runs on the proxy. The proxies of adapters,
  peripherals, services, characteristics and descriptors are covered with all their methods, and the
  methods of the classes \<open>Adapter\<close>, \<open>Peripheral\<close> and of the module itself.
\<close>

subsection \<open>Arguments and answers\<close>

datatype receiver =
    On_adapter nat | On_peripheral nat | On_service nat | On_characteristic nat
  | On_descriptor descriptor
  | On_class rb_var

text \<open>
  How Rice converts a Ruby value to the type of a C++ parameter, or raises: third-party code. A
  parameter of type \<open>Object\<close> takes any value. Also the text \<open>#<Class:address\<close> an object's description
  starts with; and what \<open>ByteArray::from_ruby\<close> needs of Ruby, the compiler and the machine.
\<close>

record conversions =
  cv_string :: "rb_value \<Rightarrow> string result"
  cv_bytes :: "rb_value \<Rightarrow> byte_array result"
  cv_int :: "rb_value \<Rightarrow> int result"
  cv_bool :: "rb_value \<Rightarrow> bool result"
  cv_start :: "receiver \<Rightarrow> string"
  cv_ruby :: ruby_api
  cv_char_signed :: bool
  cv_endian :: "64 endian"

text \<open>What a function answers, before Rice converts it for Ruby.\<close>

datatype answer =
    R_unit
  | R_bool bool | R_int int | R_string string | R_strings "string list"
  | R_value rb_value | R_values "rb_value list"
  | R_bytes byte_array | R_last_value "byte_array option"
  | R_address_type address_type | R_manufacturer_data "(16 word, byte_array) std_map"
  | R_proxies "(uuid, nat) std_map" | R_proxy "nat option" | R_registry "nat option"
  | R_descriptor descriptor | R_descriptors "(uuid, descriptor) std_map option"

fun class_of :: "receiver \<Rightarrow> rb_var" where
  "class_of (On_adapter a) = Rb_cAdapter"
| "class_of (On_peripheral p) = Rb_cPeripheral"
| "class_of (On_service s) = Rb_cService"
| "class_of (On_characteristic c) = Rb_cCharacteristic"
| "class_of (On_descriptor d) = Rb_cDescriptor"
| "class_of (On_class v) = v"

definition ans :: "('a \<Rightarrow> answer) \<Rightarrow> ('w, 'a) act \<Rightarrow> ('w, answer) act" where
  "ans f m = bindA m (\<lambda>x. retA (f x))"

definition ans_unit :: "('w, unit) act \<Rightarrow> ('w, answer) act" where
  "ans_unit m = ans (\<lambda>_. R_unit) m"

text \<open>
  The conversion of the arguments: \<open>args1\<close> takes one with an optional default, converted in order
  before the function runs; a wrong number raises \<open>ArgumentError\<close>.
\<close>

type_synonym 'w body = "rb_value list \<Rightarrow> ('w, answer) act"

definition wrong_count :: "('w, answer) act" where
  "wrong_count = throwA (ForeignException ''ArgumentError'')"

fun args0 :: "('w, answer) act \<Rightarrow> 'w body" where
  "args0 m [] = m"
| "args0 m _ = wrong_count"

fun args1 :: "'a option \<Rightarrow> (rb_value \<Rightarrow> 'a result) \<Rightarrow> ('a \<Rightarrow> ('w, answer) act) \<Rightarrow> 'w body" where
  "args1 (Some d) conv f [] = f d"
| "args1 dflt conv f [v] = bindA (liftA (conv v)) f"
| "args1 dflt conv f _ = wrong_count"

fun args2 :: "(rb_value \<Rightarrow> 'a result) \<Rightarrow> (rb_value \<Rightarrow> 'c result) \<Rightarrow> ('a \<Rightarrow> 'c \<Rightarrow> ('w, answer) act) \<Rightarrow> 'w body" where
  "args2 conv conv' f [v, v'] = bindA (liftA (conv v)) (\<lambda>x. bindA (liftA (conv' v')) (f x))"
| "args2 conv conv' f _ = wrong_count"

subsection \<open>Members by name\<close>

text \<open>The functions and attributes of each class that \<open>Init_*\<close> names, by their C++ names.\<close>

type_synonym 'b members = "(string \<times> (nat \<Rightarrow> 'b world body)) list"

definition adapter_members :: "'b env \<Rightarrow> conversions \<Rightarrow> 'b members" where
  "adapter_members E X = [
     (''initialized'', \<lambda>a. args0 (ans R_bool (adapter_initialized E a))),
     (''identifier'', \<lambda>a. args0 (ans R_string (adapter_identifier E a))),
     (''address'', \<lambda>a. args0 (ans R_string (adapter_address a))),
     (''scan_start'', \<lambda>a. args0 (ans_unit (scan_start E a))),
     (''scan_stop'', \<lambda>a. args0 (ans_unit (scan_stop E a))),
     (''scan_for'', \<lambda>a. args1 None (cv_int X) (\<lambda>ms. ans_unit (scan_for E a ms))),
     (''scan_is_active'', \<lambda>a. args0 (ans R_bool (scan_is_active E a))),
     (''scan_get_ruby_results'', \<lambda>a. args0 (ans R_values (scan_get_ruby_results E a))),
     (''get_ruby_paired_peripherals'', \<lambda>a. args0 (ans R_values (get_ruby_paired_peripherals E a))),
     (''on_scan_start'', \<lambda>a. args1 (Some RNil) Inr (\<lambda>cb. ans_unit (on_scan_start a cb))),
     (''on_scan_stop'', \<lambda>a. args1 (Some RNil) Inr (\<lambda>cb. ans_unit (on_scan_stop a cb))),
     (''on_scan_update'', \<lambda>a. args1 (Some RNil) Inr (\<lambda>cb. ans_unit (on_scan_update a cb))),
     (''on_scan_find'', \<lambda>a. args1 (Some RNil) Inr (\<lambda>cb. ans_unit (on_scan_find a cb))),
     (''_peripheral_registry'', \<lambda>a. args0 (bindA (deref w_adapters a) (\<lambda>ad. retA (R_registry (Some (a_registry ad))))))]"

definition peripheral_members :: "'b env \<Rightarrow> conversions \<Rightarrow> 'b members" where
  "peripheral_members E X = [
     (''to_s'', \<lambda>p. args0 (ans R_string (peripheral_to_s E (cv_start X (On_peripheral p)) p))),
     (''initialized'', \<lambda>p. args0 (ans R_bool (peripheral_initialized E p))),
     (''identifier'', \<lambda>p. args0 (ans R_string (peripheral_identifier E p))),
     (''address'', \<lambda>p. args0 (ans R_string (peripheral_address p))),
     (''address_type'', \<lambda>p. args0 (ans R_address_type (peripheral_address_type p))),
     (''rssi'', \<lambda>p. args0 (ans (\<lambda>x. R_int (sint x)) (peripheral_rssi E p))),
     (''tx_power'', \<lambda>p. args0 (ans (\<lambda>x. R_int (sint x)) (peripheral_tx_power E p))),
     (''mtu'', \<lambda>p. args0 (ans (\<lambda>x. R_int (uint x)) (peripheral_mtu E p))),
     (''connect'', \<lambda>p. args0 (ans_unit (peripheral_connect E p))),
     (''disconnect'', \<lambda>p. args0 (ans_unit (peripheral_disconnect E p))),
     (''is_connected'', \<lambda>p. args0 (ans R_bool (peripheral_is_connected E p))),
     (''is_connectable'', \<lambda>p. args0 (ans R_bool (peripheral_is_connectable E p))),
     (''is_paired'', \<lambda>p. args0 (ans R_bool (peripheral_is_paired E p))),
     (''unpair'', \<lambda>p. args0 (ans_unit (peripheral_unpair E p))),
     (''manufacturer_data'', \<lambda>p. args0 (ans R_manufacturer_data (manufacturer_data E p))),
     (''on_connect'', \<lambda>p. args1 None Inr (\<lambda>cb. ans_unit (peripheral_on_connect p cb))),
     (''on_disconnect'', \<lambda>p. args1 None Inr (\<lambda>cb. ans_unit (peripheral_on_disconnect p cb))),
     (''services'', \<lambda>p. args0 (ans R_proxies (services E p))),
     (''operator[]'', \<lambda>p. args1 None (cv_string X) (\<lambda>u. ans R_proxy (peripheral_index E p u))),
     (''_service_registry'', \<lambda>p. args0 (bindA (deref w_peripherals p) (\<lambda>per. retA (R_registry (Some (p_registry per))))))]"

definition service_members :: "'b env \<Rightarrow> conversions \<Rightarrow> 'b members" where
  "service_members E X = [
     (''uuid'', \<lambda>s. args0 (ans R_string (service_uuid s))),
     (''data'', \<lambda>s. args0 (ans R_bytes (service_data s))),
     (''characteristics'', \<lambda>s. args0 (ans R_proxies (service_characteristics E s))),
     (''to_s'', \<lambda>s. args0 (ans R_string (service_to_s (cv_start X (On_service s)) s))),
     (''operator[]'', \<lambda>s. args1 None (cv_string X) (\<lambda>u. ans (\<lambda>c. R_proxy (Some c)) (service_index E s u))),
     (''_characteristic_registry'', \<lambda>s. args0 (bindA (deref w_services s) (\<lambda>sv. retA (R_registry (Some (s_registry sv))))))]"

definition characteristic_last_value :: "nat \<Rightarrow> ('b world, byte_array option) act" where
  "characteristic_last_value c = bindA (deref w_characteristics c) (\<lambda>ch. retA (last_value (c_tracker ch)))"

definition characteristic_members :: "'b env \<Rightarrow> conversions \<Rightarrow> 'b members" where
  "characteristic_members E X = [
     (''uuid'', \<lambda>c. args0 (ans R_string (characteristic_uuid c))),
     (''capability_names'', \<lambda>c. args0 (ans R_strings (capability_names c))),
     (''can_read'', \<lambda>c. args0 (ans R_bool (has_capability c ''read''))),
     (''can_write_request'', \<lambda>c. args0 (ans R_bool (has_capability c ''write_request''))),
     (''can_write_command'', \<lambda>c. args0 (ans R_bool (has_capability c ''write_command''))),
     (''can_notify'', \<lambda>c. args0 (ans R_bool (has_capability c ''notify''))),
     (''can_indicate'', \<lambda>c. args0 (ans R_bool (has_capability c ''indicate''))),
     (''read'', \<lambda>c. args1 (Some False) (cv_bool X) (\<lambda>force. ans R_bytes (characteristic_read E c force))),
     (''write'', \<lambda>c. args2 (cv_string X) (cv_bytes X) (\<lambda>u d. ans_unit (characteristic_write E c u d))),
     (''write_request'', \<lambda>c. args1 None (cv_bytes X) (\<lambda>d. ans_unit (characteristic_write_request E c d))),
     (''write_command'', \<lambda>c. args1 None (cv_bytes X) (\<lambda>d. ans_unit (characteristic_write_command E c d))),
     (''set_on_notify'', \<lambda>c. args1 None Inr (\<lambda>cb. ans_unit (set_on_notify c cb))),
     (''set_on_indicate'', \<lambda>c. args1 None Inr (\<lambda>cb. ans_unit (set_on_indicate c cb))),
     (''to_s'', \<lambda>c. args0 (ans R_string (characteristic_to_s (cv_start X (On_characteristic c)) c))),
     (''inspect'', \<lambda>c. args0 (ans R_string (characteristic_inspect (cv_start X (On_characteristic c)) c))),
     (''value_tracking'', \<lambda>c. args0 (ans R_bool (characteristic_value_tracking c))),
     (''set_value_tracking'', \<lambda>c. args1 None (cv_bool X) (\<lambda>b. ans_unit (characteristic_set_value_tracking c b))),
     (''last_value'', \<lambda>c. args0 (ans R_last_value (characteristic_last_value c))),
     (''descriptors'', \<lambda>c. args0 (ans (\<lambda>m. R_descriptors (Some m)) (descriptors c))),
     (''operator[]'', \<lambda>c. args1 None (cv_string X) (\<lambda>u. ans R_descriptor (characteristic_index c u))),
     (''_descriptors'', \<lambda>c. args0 (bindA (deref w_characteristics c) (\<lambda>ch. retA (R_descriptors (c_descriptors ch)))))]"

definition descriptor_members :: "'b env \<Rightarrow> conversions \<Rightarrow> (string \<times> (descriptor \<Rightarrow> 'b world body)) list" where
  "descriptor_members E X = [
     (''uuid'', \<lambda>d. args0 (retA (R_string (descriptor_uuid d)))),
     (''inspect'', \<lambda>d. args0 (retA (R_string (descriptor_inspect (cv_start X (On_descriptor d)) d)))),
     (''read'', \<lambda>d. args0 (ans R_bytes (descriptor_read E d))),
     (''write'', \<lambda>d. args1 None (cv_bytes X) (\<lambda>data. ans_unit (descriptor_write E d data)))]"

text \<open>Functions called on a class or module; the reader and the writer of an attribute share its name.\<close>

definition class_members :: "'b env \<Rightarrow> conversions \<Rightarrow> ((cpp_fn \<times> string) \<times> 'b world body) list" where
  "class_members E X = [
     ((Static C_Adapter ''bluetooth_enabled'', ''bluetooth_enabled?''), args0 (ans R_bool (Adapter_bluetooth_enabled E))),
     ((Static C_Adapter ''get_ruby_adapters'', ''get_adapters''), args0 (ans R_values (get_ruby_adapters E))),
     ((Static C_ByteArray ''from_ruby'', ''new''), args1 None (from_ruby (cv_ruby X) (cv_char_signed X) (cv_endian X)) (\<lambda>b. retA (R_bytes b))),
     ((Attribute C_Peripheral ''unpair_all_on_exit'', ''unpair_all_on_exit''), args0 (ans R_bool (getA w_unpair_all_on_exit))),
     ((Attribute C_Peripheral ''unpair_all_on_exit'', ''unpair_all_on_exit=''),
        args1 None (cv_bool X) (\<lambda>b. ans_unit (set_unpair_all_on_exit b))),
     ((Free ''adapterRegistry'', ''registry''), args0 (ans R_registry (getA w_adapter_registry))),
     ((Free ''DeInit'', ''shutdown''), args0 (ans_unit (DeInit E)))]"

subsection \<open>Calls\<close>

definition find_member :: "cpp_class \<Rightarrow> (string \<times> 'x) list \<Rightarrow> cpp_fn \<Rightarrow> 'x option" where
  "find_member cls ms fn = (case fn of
     Member c f \<Rightarrow> if c = cls then map_of ms f else None
   | Attribute c f \<Rightarrow> if c = cls then map_of ms f else None
   | Static c f \<Rightarrow> None
   | Free f \<Rightarrow> None)"

fun body_of :: "'b env \<Rightarrow> conversions \<Rightarrow> receiver \<Rightarrow> string \<Rightarrow> cpp_fn \<Rightarrow> 'b world body option" where
  "body_of E X (On_adapter a) name fn = map_option (\<lambda>h. h a) (find_member C_Adapter (adapter_members E X) fn)"
| "body_of E X (On_peripheral p) name fn = map_option (\<lambda>h. h p) (find_member C_Peripheral (peripheral_members E X) fn)"
| "body_of E X (On_service s) name fn = map_option (\<lambda>h. h s) (find_member C_Service (service_members E X) fn)"
| "body_of E X (On_characteristic c) name fn =
     map_option (\<lambda>h. h c) (find_member C_Characteristic (characteristic_members E X) fn)"
| "body_of E X (On_descriptor d) name fn = map_option (\<lambda>h. h d) (find_member C_Descriptor (descriptor_members E X) fn)"
| "body_of E X (On_class v) name fn = map_of (class_members E X) (fn, name)"

fun bound_fn :: "rice \<Rightarrow> receiver \<Rightarrow> string \<Rightarrow> cpp_fn option" where
  "bound_fn t (On_class v) name = map_of (rc_singletons t) (v, name)"
| "bound_fn t recv name = method_of t (class_of recv) name"

text \<open>A name without a function raises \<open>NoMethodError\<close>; a function that is not there has no behaviour.\<close>

definition ruby_send ::
  "'b env \<Rightarrow> conversions \<Rightarrow> rice \<Rightarrow> receiver \<Rightarrow> string \<Rightarrow> 'b world body" where
  "ruby_send E X t recv name args = (case bound_fn t recv name of
     None \<Rightarrow> throwA (ForeignException ''NoMethodError'')
   | Some fn \<Rightarrow> (case body_of E X recv name fn of
       None \<Rightarrow> throwA UndefinedBehaviour
     | Some run \<Rightarrow> run args))"

subsection \<open>The whole interface is there\<close>

text \<open>Whether the function behind a method of a proxy class, or of a class, is one of the members above.\<close>

definition member_names :: "(string \<times> 'x) list \<Rightarrow> cpp_class \<Rightarrow> cpp_fn set" where
  "member_names ms cls = (\<Union>f \<in> set (map fst ms). {Member cls f, Attribute cls f})"

lemma find_member_None: "find_member cls ms fn = None \<longleftrightarrow> fn \<notin> member_names ms cls"
  by (cases fn) (auto simp: find_member_def member_names_def map_of_eq_None_iff)

definition method_implemented :: "'b env \<Rightarrow> conversions \<Rightarrow> ((rb_var \<times> string) \<times> cpp_fn) \<Rightarrow> bool" where
  "method_implemented E X m = (case m of ((v, name), fn) \<Rightarrow> (case v of
       Rb_cAdapter \<Rightarrow> fn \<in> member_names (adapter_members E X) C_Adapter
     | Rb_cPeripheral \<Rightarrow> fn \<in> member_names (peripheral_members E X) C_Peripheral
     | Rb_cService \<Rightarrow> fn \<in> member_names (service_members E X) C_Service
     | Rb_cCharacteristic \<Rightarrow> fn \<in> member_names (characteristic_members E X) C_Characteristic
     | Rb_cDescriptor \<Rightarrow> fn \<in> member_names (descriptor_members E X) C_Descriptor
     | _ \<Rightarrow> True))"

definition singleton_implemented :: "'b env \<Rightarrow> conversions \<Rightarrow> ((rb_var \<times> string) \<times> cpp_fn) \<Rightarrow> bool" where
  "singleton_implemented E X m = (case m of ((v, name), fn) \<Rightarrow> (fn, name) \<in> fst ` set (class_members E X))"

fun defined_singletons :: "init_cmd list \<Rightarrow> ((rb_var \<times> string) \<times> cpp_fn) list \<Rightarrow> ((rb_var \<times> string) \<times> cpp_fn) list" where
  "defined_singletons [] ms = ms"
| "defined_singletons (Define_singleton_function v name fn # cs) ms = defined_singletons cs (((v, name), fn) # ms)"
| "defined_singletons (c # cs) ms = defined_singletons cs ms"

lemma run_singletons: "run_init cmds s = Inr t \<Longrightarrow> rc_singletons t = defined_singletons cmds (rc_singletons s)"
proof (induction cmds arbitrary: s)
  case (Cons c cs)
  obtain u where u: "run_cmd c s = Inr u" "run_init cs u = Inr t"
    using Cons.prems by (auto simp: run_init_def bindR_Inr_iff)
  have "defined_singletons (c # cs) (rc_singletons s) = defined_singletons cs (rc_singletons u)"
    using u(1) by (cases "(c, s)" rule: run_cmd.cases) (auto simp: bindR_Inr_iff)
  then show ?case using Cons.IH [OF u(2)] by simp
qed (simp add: run_init_def)

lemma methods_implemented: "list_all (method_implemented E X) (defined_methods (Init_interface False) [])"
  by (simp add: init_scripts method_implemented_def member_names_def adapter_members_def
      peripheral_members_def service_members_def characteristic_members_def descriptor_members_def)

lemma singletons_implemented: "list_all (singleton_implemented E X) (defined_singletons (Init_interface False) [])"
  by (simp add: init_scripts singleton_implemented_def class_members_def)

lemma interface_bodies:
  assumes "run_init (Init_interface False) rice_new = Inr t" and "bound_fn t recv name = Some fn"
  shows "\<exists>run. body_of E X recv name fn = Some run"
proof (cases "\<exists>v. recv = On_class v")
  case True
  then obtain v where v: "recv = On_class v" by blast
  have "((v, name), fn) \<in> set (rc_singletons t)" using assms(2) v by (auto dest: map_of_SomeD)
  then have "singleton_implemented E X ((v, name), fn)"
    using singletons_implemented run_singletons [OF assms(1)] by (auto simp: rice_new_def list_all_iff)
  then show ?thesis
    using v by (cases "map_of (class_members E X) (fn, name)") (simp_all add: singleton_implemented_def map_of_eq_None_iff)
next
  case False
  then have "((class_of recv, name), fn) \<in> set (rc_methods t)"
    using assms(2) by (cases recv) (auto simp: method_of_def dest: map_of_SomeD)
  then have "method_implemented E X ((class_of recv, name), fn)"
    using methods_implemented run_methods [OF assms(1)] by (auto simp: rice_new_def list_all_iff)
  then have "body_of E X recv name fn \<noteq> None"
    using False by (cases recv) (simp_all add: method_implemented_def find_member_None)
  then show ?thesis by simp
qed

end
