(* ===== verification/World_Properties.thy ===== *)
theory World_Properties imports Ruby_Calls begin

text \<open>
  The contract between the program and a property of its state: what a property has to survive for the
  whole program to keep it. The locale asks for the elementary changes only (fields, registries, the
  constructors, SimpleBLE's own changes); inside it every member of the wrapped classes, every method
  of the Ruby interface and every queued callback is shown to keep the property.
\<close>

subsection \<open>Changes of SimpleBLE\<close>

text \<open>A function of SimpleBLE changes its state within a relation.\<close>

definition within :: "('b \<Rightarrow> 'b \<Rightarrow> bool) \<Rightarrow> ('b, 'a) act \<Rightarrow> bool" where
  "within R f \<longleftrightarrow> (\<forall>b. R b (snd (f b)))"

text \<open>All functions but the four that register a callback.\<close>

definition ble_within :: "('b \<Rightarrow> 'b \<Rightarrow> bool) \<Rightarrow> 'b ble \<Rightarrow> bool" where
  "ble_within R B \<longleftrightarrow> (\<forall>h ms u v x d.
    within R (bluetooth_enabled B) \<and> within R (get_adapters B) \<and> within R (ad_initialized B h) \<and>
    within R (ad_identifier B h) \<and> within R (ad_address B h) \<and> within R (ad_scan_start B h) \<and>
    within R (ad_scan_stop B h) \<and> within R (ad_scan_is_active B h) \<and>
    within R (ad_scan_get_results B h) \<and> within R (ad_get_paired_peripherals B h) \<and>
    within R (pe_initialized B h) \<and> within R (pe_identifier B h) \<and> within R (pe_address B h) \<and>
    within R (pe_address_type B h) \<and> within R (pe_rssi B h) \<and> within R (pe_tx_power B h) \<and>
    within R (pe_mtu B h) \<and> within R (pe_is_connected B h) \<and> within R (pe_is_connectable B h) \<and>
    within R (pe_is_paired B h) \<and> within R (pe_connect B h) \<and> within R (pe_disconnect B h) \<and>
    within R (pe_unpair B h) \<and> within R (pe_services B h) \<and> within R (pe_manufacturer_data B h) \<and>
    within R (ad_scan_for B h ms) \<and> within R (pe_unsubscribe B h u v) \<and>
    within R (pe_read B h u v) \<and> within R (pe_read_descriptor B h u v x) \<and>
    within R (pe_write_descriptor B h u v x d) \<and> within R (pe_write_request B h u v d) \<and>
    within R (pe_write_command B h u v d))"

lemma ble_withinD:
  assumes "ble_within R B"
  shows "within R (bluetooth_enabled B)" "within R (get_adapters B)"
    "within R (ad_initialized B h)" "within R (ad_identifier B h)" "within R (ad_address B h)"
    "within R (ad_scan_start B h)" "within R (ad_scan_stop B h)" "within R (ad_scan_is_active B h)"
    "within R (ad_scan_get_results B h)" "within R (ad_get_paired_peripherals B h)" "within R (ad_scan_for B h ms)"
    "within R (pe_initialized B h)" "within R (pe_identifier B h)"
    "within R (pe_address B h)" "within R (pe_address_type B h)" "within R (pe_rssi B h)" "within R (pe_tx_power B h)"
    "within R (pe_mtu B h)" "within R (pe_is_connected B h)" "within R (pe_is_connectable B h)"
    "within R (pe_is_paired B h)" "within R (pe_connect B h)" "within R (pe_disconnect B h)" "within R (pe_unpair B h)"
    "within R (pe_services B h)" "within R (pe_manufacturer_data B h)"
    "within R (pe_unsubscribe B h u v)" "within R (pe_read B h u v)" "within R (pe_read_descriptor B h u v x)"
    "within R (pe_write_descriptor B h u v x d)" "within R (pe_write_request B h u v d)"
    "within R (pe_write_command B h u v d)"
  using assms unfolding ble_within_def by blast+

lemma keeps_noexcept [inv_intros]: "keeps P m \<Longrightarrow> keeps P (noexceptA m)"
  by (auto simp: keeps_def noexceptA_def split: prod.splits sum.splits)

lemma keeps_args [inv_intros]:
  "keeps P m \<Longrightarrow> keeps P (ans f m)" "keeps P u \<Longrightarrow> keeps P (ans_unit u)" "keeps P q \<Longrightarrow> keeps P (args0 q args)"
  "(\<And>x. keeps P (g x)) \<Longrightarrow> keeps P (args1 d conv g args)"
  "(\<And>x y. keeps P (h x y)) \<Longrightarrow> keeps P (args2 conv1 conv2 h args)"
proof -
  show "keeps P m \<Longrightarrow> keeps P (ans f m)" "keeps P u \<Longrightarrow> keeps P (ans_unit u)"
    unfolding ans_unit_def ans_def by (intro inv_intros; assumption)+
  show "keeps P q \<Longrightarrow> keeps P (args0 q args)" by (cases args) (simp_all add: wrong_count_def inv_intros)
  show "(\<And>x. keeps P (g x)) \<Longrightarrow> keeps P (args1 d conv g args)"
    by (cases "(d, conv, g, args)" rule: args1.cases) (auto simp: wrong_count_def intro!: inv_intros)
  show "(\<And>x y. keeps P (h x y)) \<Longrightarrow> keeps P (args2 conv1 conv2 h args)"
    by (cases "(conv1, conv2, h, args)" rule: args2.cases) (auto simp: wrong_count_def intro!: inv_intros)
qed

subsection \<open>Tables of members\<close>

text \<open>What every body of a table of members fulfils.\<close>

definition all_members :: "(nat \<Rightarrow> rb_value list \<Rightarrow> ('b world, answer) act \<Rightarrow> bool) \<Rightarrow> 'b members \<Rightarrow> bool" where
  "all_members Q ms \<longleftrightarrow> (\<forall>(n, h) \<in> set ms. \<forall>i args. Q i args (h i args))"

lemma all_members_Cons [simp]:
  "all_members Q ((n, h) # ms) \<longleftrightarrow> (\<forall>i args. Q i args (h i args)) \<and> all_members Q ms"
  "all_members Q [] \<longleftrightarrow> True"
  by (simp_all add: all_members_def)

lemma all_members_find:
  "all_members Q ms \<Longrightarrow> map_option (\<lambda>h. h i) (find_member cls ms fn) = Some run \<Longrightarrow> Q i args (run args)"
  by (cases fn) (auto simp: find_member_def all_members_def split: if_splits dest!: map_of_SomeD)

lemma body_cases:
  assumes "body_of E X recv name fn = Some run"
    and "all_members (\<lambda>a. Q (On_adapter a)) (adapter_members E X)"
    and "all_members (\<lambda>p. Q (On_peripheral p)) (peripheral_members E X)"
    and "all_members (\<lambda>s. Q (On_service s)) (service_members E X)"
    and "all_members (\<lambda>c. Q (On_characteristic c)) (characteristic_members E X)"
    and "\<forall>(n, h) \<in> set (descriptor_members E X). \<forall>d args. Q (On_descriptor d) args (h d args)"
    and "\<forall>(n, h) \<in> set (class_members E X). \<forall>v args. Q (On_class v) args (h args)"
  shows "Q recv args (run args)"
proof (cases recv)
  case (On_descriptor d)
  then obtain h n where "(n, h) \<in> set (descriptor_members E X)" and "run = h d"
    using assms(1) by (cases fn) (auto simp: find_member_def split: if_splits dest!: map_of_SomeD)
  then show ?thesis using assms(6) On_descriptor by blast
next
  case (On_class v)
  then have "((fn, name), run) \<in> set (class_members E X)" using assms(1) by (auto dest: map_of_SomeD)
  then show ?thesis using assms(7) On_class by blast
qed (use assms(1) all_members_find [OF assms(2)] all_members_find [OF assms(3)] all_members_find [OF assms(4)]
      all_members_find [OF assms(5)] in auto)

subsection \<open>The contract\<close>

locale world_property =
  fixes P :: "'b world \<Rightarrow> bool" and E :: "'b env" and R :: "'b \<Rightarrow> 'b \<Rightarrow> bool"
  assumes ble: "P w \<Longrightarrow> R (w_ble w) b \<Longrightarrow> P (w\<lparr>w_ble := b\<rparr>)"
    and ble_functions: "ble_within R (e_ble E)"
    and next_value: "P w \<Longrightarrow> P (w\<lparr>w_next_value := n\<rparr>)"
    and calls: "P w \<Longrightarrow> P (w\<lparr>w_calls := cs\<rparr>)"
    and deinit_called: "P w \<Longrightarrow> P (w\<lparr>w_deinit_called := d\<rparr>)"
    and queue_stopped: "P w \<Longrightarrow> P (w\<lparr>w_queue_stopped := d\<rparr>)"
    and unpair_flag: "P w \<Longrightarrow> P (w\<lparr>w_unpair_all_on_exit := d\<rparr>)"
    and adapter_registry: "P w \<Longrightarrow> P (w\<lparr>w_adapter_registry := Some r\<rparr>)"
    and characteristic_set: "P w \<Longrightarrow> P (set_characteristic c f w)"
    and peripheral_set: "P w \<Longrightarrow> P (set_peripheral p g w)"
    and adapter_set: "P w \<Longrightarrow> P (set_adapter a h w)"
    and characteristic_regs: "P w \<Longrightarrow> (\<And>fr. length (fac_regs fr) \<le> length (fac_regs (k fr))) \<Longrightarrow> P (w_characteristic_regs_update k w)"
    and service_regs: "P w \<Longrightarrow> (\<And>fr. length (fac_regs fr) \<le> length (fac_regs (k fr))) \<Longrightarrow> P (w_service_regs_update k w)"
    and peripheral_regs: "P w \<Longrightarrow> (\<And>fr. length (fac_regs fr) \<le> length (fac_regs (k fr))) \<Longrightarrow> P (w_peripheral_regs_update k w)"
    and adapter_regs: "P w \<Longrightarrow> (\<And>fr. length (fac_regs fr) \<le> length (fac_regs (k fr))) \<Longrightarrow> P (w_adapter_regs_update k w)"
    and characteristic_new: "keeps P (new_characteristic E v owner)"
    and service_new: "keeps P (new_service E s owner)"
    and peripheral_new: "keeps P (new_peripheral E x owner)"
    and adapter_new: "keeps P (new_adapter E x owner)"
begin

lemmas within_functions [inv_intros] = ble_withinD [OF ble_functions]

lemma call_keeps [inv_intros]: "within R m \<Longrightarrow> keeps P (ble_call m)"
  by (rule keepsI) (auto simp: ble_call_def within_def intro!: ble split: prod.splits, metis snd_conv)

lemma basic_keeps [inv_intros]:
  "keeps P new_rb_value" "keeps P (modifyA (set_characteristic c f))" "keeps P (modifyA (set_peripheral p g))"
  "keeps P (modifyA (set_adapter a h))" "keeps P (modifyA (\<lambda>w. w\<lparr>w_deinit_called := d\<rparr>))"
  "keeps P (modifyA (\<lambda>w. w\<lparr>w_queue_stopped := d\<rparr>))" "keeps P (set_unpair_all_on_exit d)" "keeps P (fire E k args)"
  by (auto intro!: keepsI next_value characteristic_set peripheral_set adapter_set deinit_called queue_stopped unpair_flag
      calls simp: act_simps new_rb_value_def set_unpair_all_on_exit_def fire_def Let_def seqA_def bindA_def split: sum.splits)

lemma registers_keep [inv_intros]:
  "keeps P (modifyA (\<lambda>w. w_characteristic_regs_update (reg_store r (f w)) w))"
  "keeps P (modifyA (\<lambda>w. w_service_regs_update (reg_store r (f w)) w))"
  "keeps P (modifyA (\<lambda>w. w_peripheral_regs_update (reg_store r (f w)) w))"
  "keeps P (modifyA (\<lambda>w. w_adapter_regs_update (reg_store r (f w)) w))"
  by (auto intro!: keepsI characteristic_regs service_regs peripheral_regs adapter_regs simp: act_simps)

lemma fetch_keep [inv_intros]:
  "keeps P (fetch (characteristic_class E) r c)" "keeps P (fetch (service_class E) r s)"
  "keeps P (fetch (peripheral_class E) r h)" "keeps P (fetch (adapter_class E) r h)"
  unfolding fetch_def characteristic_class_def service_class_def peripheral_class_def adapter_class_def proxy_class.simps
  by (intro inv_intros characteristic_new service_new peripheral_new adapter_new)+

lemma fetches_keep [inv_intros]:
  "keeps P (fetch_all (service_class E) r vs)" "keeps P (fetch_all (characteristic_class E) r cs)"
  "keeps P (map_to_objects (peripheral_class E) r hs)" "keeps P (map_to_objects (adapter_class E) r hs)"
  unfolding fetch_all_def map_to_objects_def by (intro inv_intros)+

end

subsection \<open>The members keep the property\<close>

context world_property begin

lemma per_call_keeps [inv_intros]: "(\<And>h. within R (f h)) \<Longrightarrow> keeps P (per_call p f)"
  unfolding per_call_def by (intro inv_intros)

lemma ad_call_keeps [inv_intros]: "(\<And>h. within R (f h)) \<Longrightarrow> keeps P (ad_call a f)"
  unfolding ad_call_def adapter_get_def by (intro inv_intros)

lemma capabilities_keep [inv_intros]: "keeps P (capabilities c)" "keeps P (has_capability c name)"
  unfolding has_capability_def capabilities_def by (intro inv_intros)+

lemma make_map_keeps [inv_intros]: "keeps P (make_map us owner m)"
  by (induction us owner m rule: make_map.induct) (auto intro!: inv_intros)

lemma descriptors_keep [inv_intros]: "keeps P (descriptors c)"
  unfolding descriptors_def by (intro inv_intros)

lemma service_ops_keep [inv_intros]:
  "keeps P (service_read E s u)" "keeps P (service_read_descriptor E s u d)"
  "keeps P (service_write E s u d x)" "keeps P (service_write_request E s u x)"
  "keeps P (service_write_command E s u x)" "keeps P (service_unsubscribe E s u)" "keeps P (service_data s)"
  unfolding service_ops peripheral_ops by (intro inv_intros)+

lemma record_keeps [inv_intros]: "keeps P (characteristic_record c d)"
  unfolding characteristic_record_def by (intro inv_intros)

lemma characteristic_ops_keep [inv_intros]:
  "keeps P (characteristic_index c u)" "keeps P (characteristic_value_tracking c)"
  "keeps P (characteristic_set_value_tracking c b)" "keeps P (characteristic_read E c b)"
  "keeps P (characteristic_read_descriptor E c u)" "keeps P (characteristic_write E c u x)"
  "keeps P (characteristic_write_request E c x)" "keeps P (characteristic_write_command E c x)"
  "keeps P (set_on_notify c v)" "keeps P (set_on_indicate c v)" "keeps P (capability_names c)"
  "keeps P (fire_on_notify E c x)" "keeps P (fire_on_indicate E c x)"
  unfolding characteristic_ops Let_def by (intro inv_intros)+

lemma lookups_keep [inv_intros]:
  "keeps P (service_characteristics E s)" "keeps P (services E p)"
  "keeps P (service_index E s u)" "keeps P (peripheral_index E p u)"
proof -
  show 1: "keeps P (service_characteristics E s)" "keeps P (services E p)"
    unfolding service_characteristics_def services_def by (intro inv_intros)+
  show "keeps P (service_index E s u)" "keeps P (peripheral_index E p u)"
    unfolding service_index_def peripheral_index_def Let_def by (intro inv_intros 1)+
qed

lemma flag_tests_keep:
  "(\<And>n t. (n, t) \<in> set ts \<Longrightarrow> keeps P t) \<Longrightarrow> keeps P (run_flag_tests flds ts bits)"
proof (induction flds ts bits rule: run_flag_tests.induct)
  case (2 flds name test ts bits)
  have "keeps P test" by (rule 2(2) [of name]) simp
  moreover have "keeps P (run_flag_tests flds ts b)" for b
    by (rule 2(1)) (meson 2(2) list.set_intros(2))
  ultimately show ?case unfolding run_flag_tests.simps by (intro inv_intros)
qed (simp add: inv_intros)

lemma peripheral_members_keep [inv_intros]:
  "keeps P (peripheral_initialized E p)" "keeps P (peripheral_address_type p)"
  "keeps P (peripheral_address p)" "keeps P (peripheral_identifier E p)" "keeps P (peripheral_rssi E p)"
  "keeps P (peripheral_tx_power E p)" "keeps P (peripheral_mtu E p)"
  "keeps P (peripheral_is_paired E p)" "keeps P (peripheral_is_connected E p)"
  "keeps P (peripheral_is_connectable E p)" "keeps P (peripheral_unpair E p)"
  "keeps P (peripheral_disconnect E p)" "keeps P (peripheral_connect E p)" "keeps P (manufacturer_data E p)"
  "keeps P (peripheral_on_connect p v)" "keeps P (peripheral_on_disconnect p v)"
  unfolding peripheral_initialized_def peripheral_address_type_def peripheral_address_def peripheral_identifier_def
    peripheral_rssi_def peripheral_tx_power_def peripheral_mtu_def peripheral_is_paired_def peripheral_is_connected_def
    peripheral_is_connectable_def peripheral_unpair_def peripheral_disconnect_def peripheral_connect_def
    manufacturer_data_def peripheral_on_connect_def peripheral_on_disconnect_def
  by (intro inv_intros)+

lemma status_flags_keep [inv_intros]: "keeps P (peripheral_status_flags E p)"
  unfolding peripheral_status_flags_def by (rule flag_tests_keep) (auto intro: inv_intros)

lemma texts_keep [inv_intros]:
  "keeps P (peripheral_statuses E p)" "keeps P (peripheral_to_s E start p)" "keeps P (service_uuid s)"
  "keeps P (service_to_s start s)" "keeps P (characteristic_uuid c)" "keeps P (characteristic_to_s start c)"
  "keeps P (characteristic_inspect start c)" "keeps P (characteristic_last_value c)"
  unfolding peripheral_statuses_def peripheral_to_s_def service_uuid_def service_to_s_def characteristic_uuid_def
    characteristic_inspect_def characteristic_to_s_def characteristic_last_value_def
  by (intro inv_intros)+

lemma adapter_members_keep [inv_intros]:
  "keeps P (adapter_initialized E a)" "keeps P (adapter_identifier E a)" "keeps P (adapter_address a)"
  "keeps P (scan_is_active E a)" "keeps P (scan_start E a)" "keeps P (scan_stop E a)" "keeps P (scan_for E a ms)"
  "keeps P (scan_get_results E a)" "keeps P (get_paired_peripherals E a)" "keeps P (scan_get_ruby_results E a)"
  "keeps P (get_ruby_paired_peripherals E a)" "keeps P (on_scan_start a v)" "keeps P (on_scan_stop a v)"
  "keeps P (on_scan_update a v)" "keeps P (on_scan_find a v)" "keeps P (Adapter_bluetooth_enabled E)"
  "keeps P (Adapter_get_adapters E)" "keeps P (get_ruby_adapters E)"
  unfolding adapter_initialized_def adapter_identifier_def adapter_address_def scan_start_def scan_stop_def scan_for_def
    scan_is_active_def scan_get_ruby_results_def get_ruby_paired_peripherals_def ruby_peripherals_def scan_get_results_def
    get_paired_peripherals_def on_scan_start_def on_scan_stop_def on_scan_update_def on_scan_find_def
    Adapter_bluetooth_enabled_def get_ruby_adapters_def Adapter_get_adapters_def
  by (intro inv_intros)+

lemma for_each_keeps: "(\<And>i. keeps P (f i)) \<Longrightarrow> keeps P (reg_for_each C r f)"
  unfolding reg_for_each_def by (intro inv_intros)

lemma deinit_keeps [inv_intros]:
  "keeps P (deinit_peripheral E p)" "keeps P (deinit_adapter E a)" "keeps P (DeInit E)"
  unfolding DeInit_def deinit_adapter_def deinit_peripheral_def by (intro inv_intros for_each_keeps)+

text \<open>The callbacks that were queued, every method of the interface, and loading the extension.\<close>

lemma item_keeps [inv_intros]: "keeps P (run_item E i)"
  by (cases i) (auto simp: fire_scan_def intro!: inv_intros)

lemma tables_keep:
  "all_members (\<lambda>i args. keeps P) (adapter_members E X)" "all_members (\<lambda>i args. keeps P) (peripheral_members E X)"
  "all_members (\<lambda>i args. keeps P) (service_members E X)" "all_members (\<lambda>i args. keeps P) (characteristic_members E X)"
  unfolding adapter_members_def peripheral_members_def service_members_def characteristic_members_def all_members_Cons
  by (intro conjI allI TrueI inv_intros)+

lemma send_keeps [inv_intros]: "keeps P (ruby_send E X t recv name args)"
proof -
  have "keeps P (run args)" if "body_of E X recv name fn = Some run" for fn run
  proof (rule body_cases [OF that, where Q = "\<lambda>r args. keeps P"])
    show "\<forall>(n, h) \<in> set (descriptor_members E X). \<forall>d args. keeps P (h d args)"
      unfolding descriptor_members_def descriptor_read_def descriptor_write_def by (auto intro!: inv_intros)
    show "\<forall>(n, h) \<in> set (class_members E X). \<forall>v args. keeps P (h args)"
      unfolding class_members_def by (auto intro!: inv_intros)
  qed (rule tables_keep)+
  then show ?thesis unfolding ruby_send_def by (auto intro!: inv_intros split: option.splits)
qed

lemma factory_keeps: "keeps P (factory_registry (adapter_class E) index owner new_rb_value)"
  unfolding factory_registry_def adapter_class_def proxy_class.simps
  by (intro inv_intros) (auto intro!: keepsI adapter_regs simp: act_simps)

lemma load_keeps [inv_intros]: "keeps P (Init_Registries E)"
  unfolding Init_Registries_def
  by (intro inv_intros factory_keeps) (auto intro!: keepsI adapter_registry simp: act_simps)

end

end
