(* ===== verification/Object_Lifetime.thy ===== *)
theory Object_Lifetime imports World_Properties begin

text \<open>
  What is alive: the finished proxies of the four classes, their registries and the registry of
  adapters. No operation of the program takes a live thing away, whatever happens in it; a constructor
  that fails undoes only the object it has just numbered. \<open>keeps (has K)\<close> says so of an operation.
\<close>

subsection \<open>What is alive\<close>

datatype ref =
    Ref_adapter nat | Ref_peripheral nat | Ref_service nat | Ref_characteristic nat
  | Adapters_in nat | Peripherals_in nat | Services_in nat | Characteristics_in nat
  | Adapter_registry

fun alive :: "'b world \<Rightarrow> ref \<Rightarrow> bool" where
  "alive w (Ref_adapter i) = (live (w_adapters w) i \<noteq> None)"
| "alive w (Ref_peripheral i) = (live (w_peripherals w) i \<noteq> None)"
| "alive w (Ref_service i) = (live (w_services w) i \<noteq> None)"
| "alive w (Ref_characteristic i) = (live (w_characteristics w) i \<noteq> None)"
| "alive w (Adapters_in r) = (r < length (fac_regs (w_adapter_regs w)))"
| "alive w (Peripherals_in r) = (r < length (fac_regs (w_peripheral_regs w)))"
| "alive w (Services_in r) = (r < length (fac_regs (w_service_regs w)))"
| "alive w (Characteristics_in r) = (r < length (fac_regs (w_characteristic_regs w)))"
| "alive w Adapter_registry = (w_adapter_registry w \<noteq> None)"

definition has :: "ref set \<Rightarrow> 'b world \<Rightarrow> bool" where
  "has K w \<longleftrightarrow> (\<forall>k \<in> K. alive w k)"

lemma hasD: "has K w \<Longrightarrow> k \<in> K \<Longrightarrow> alive w k"
  by (simp add: has_def)

lemma has_insert [simp]: "has (insert k K) w \<longleftrightarrow> alive w k \<and> has K w"
  by (simp add: has_def)

lemma has_mono: "has K w \<Longrightarrow> (\<And>k. alive w k \<Longrightarrow> alive w' k) \<Longrightarrow> has K w'"
  by (auto simp: has_def)

subsection \<open>Operations leave things alive\<close>

lemma has_frame [simp]:
  "has K (w\<lparr>w_ble := b\<rparr>) = has K w"
  "has K (w\<lparr>w_next_value := n\<rparr>) = has K w"
  "has K (w\<lparr>w_pushed := ps\<rparr>) = has K w"
  "has K (w\<lparr>w_calls := cs\<rparr>) = has K w"
  "has K (w\<lparr>w_deinit_called := d\<rparr>) = has K w"
  "has K (w\<lparr>w_flag_check_this := t\<rparr>) = has K w"
  "has K (w\<lparr>w_queue_stopped := q\<rparr>) = has K w"
  "has K (w\<lparr>w_during_gc := q\<rparr>) = has K w"
  "has K (w\<lparr>w_unpair_all_on_exit := q\<rparr>) = has K w"
proof -
  have "alive (w\<lparr>w_ble := b\<rparr>) k = alive w k" "alive (w\<lparr>w_next_value := n\<rparr>) k = alive w k"
    "alive (w\<lparr>w_pushed := ps\<rparr>) k = alive w k" "alive (w\<lparr>w_calls := cs\<rparr>) k = alive w k"
    "alive (w\<lparr>w_deinit_called := d\<rparr>) k = alive w k" "alive (w\<lparr>w_flag_check_this := t\<rparr>) k = alive w k"
    "alive (w\<lparr>w_queue_stopped := q\<rparr>) k = alive w k" "alive (w\<lparr>w_during_gc := q\<rparr>) k = alive w k"
    "alive (w\<lparr>w_unpair_all_on_exit := q\<rparr>) k = alive w k" for k by (cases k; simp)+
  then show "has K (w\<lparr>w_ble := b\<rparr>) = has K w"
  "has K (w\<lparr>w_next_value := n\<rparr>) = has K w"
  "has K (w\<lparr>w_pushed := ps\<rparr>) = has K w"
  "has K (w\<lparr>w_calls := cs\<rparr>) = has K w"
  "has K (w\<lparr>w_deinit_called := d\<rparr>) = has K w"
  "has K (w\<lparr>w_flag_check_this := t\<rparr>) = has K w"
  "has K (w\<lparr>w_queue_stopped := q\<rparr>) = has K w"
  "has K (w\<lparr>w_during_gc := q\<rparr>) = has K w"
  "has K (w\<lparr>w_unpair_all_on_exit := q\<rparr>) = has K w" by (simp_all add: has_def)
qed

lemma keeps_has_modify:
  "(\<And>w k. alive w k \<Longrightarrow> alive (f w) k) \<Longrightarrow> keeps (has K) (modifyA f)"
  by (rule keepsI) (auto simp: act_simps intro: has_mono)

lemma alive_set_characteristic: "alive w k \<Longrightarrow> alive (set_characteristic c f w) k"
  by (cases k) (auto simp: set_characteristic_def)

lemma alive_set_peripheral: "alive w k \<Longrightarrow> alive (set_peripheral p f w) k"
  by (cases k) (auto simp: set_peripheral_def)

lemma alive_set_adapter: "alive w k \<Longrightarrow> alive (set_adapter a f w) k"
  by (cases k) (auto simp: set_adapter_def)

lemma has_set [inv_intros]:
  "keeps (has K) (modifyA (set_characteristic c f))"
  "keeps (has K) (modifyA (set_peripheral p g))"
  "keeps (has K) (modifyA (set_adapter a h))"
  by (auto intro!: keeps_has_modify intro: alive_set_characteristic alive_set_peripheral alive_set_adapter)

lemma has_flags [inv_intros]:
  "keeps (has K) (modifyA (\<lambda>w. w\<lparr>w_deinit_called := d\<rparr>))"
  "keeps (has K) (modifyA (\<lambda>w. w\<lparr>w_queue_stopped := d\<rparr>))"
  "keeps (has K) (set_unpair_all_on_exit d)"
  by (auto intro!: keepsI simp: act_simps set_unpair_all_on_exit_def)

lemma has_ble_call [inv_intros]: "keeps (has K) (ble_call m)"
  by (rule keepsI) (simp add: ble_call_def split: prod.splits)

lemma has_new_rb_value [inv_intros]: "keeps (has K) new_rb_value"
  by (rule keepsI) (simp add: new_rb_value_def)

lemma has_per_call [inv_intros]: "keeps (has K) (per_call p f)"
  unfolding per_call_def by (intro inv_intros)

lemma has_ad_call [inv_intros]: "keeps (has K) (ad_call a f)"
  unfolding ad_call_def adapter_get_def by (intro inv_intros)

lemma has_capabilities [inv_intros]:
  "keeps (has K) (capabilities c)" "keeps (has K) (has_capability c name)"
  unfolding has_capability_def capabilities_def by (intro inv_intros)+

lemma has_subscribe [inv_intros]:
  "keeps (has K) (service_notify E s u cb)" "keeps (has K) (service_indicate E s u cb)"
  unfolding service_notify_def service_indicate_def peripheral_notify_def peripheral_indicate_def by (intro inv_intros)+

lemma has_characteristic_body [inv_intros]: "keeps (has K) (characteristic_body E c owner u)"
  unfolding characteristic_body_def by (intro inv_intros)

text \<open>A constructor uses a fresh number, so undoing it on an exception takes nothing away.\<close>

lemma has_alloc:
  fixes store :: "'b world \<Rightarrow> 'o option list"
  assumes "\<And>c. k c \<notin> K \<Longrightarrow> keeps (has K) (f c)"
    and "\<And>w. \<not> alive w (k (length (store w)))"
    and "\<And>w. has K (upd (\<lambda>s. s @ [None]) w) = has K w"
  shows "keeps (has K) (bindA (alloc store upd) f)"
proof (rule keepsI)
  fix w :: "'b world" assume w: "has K w"
  then have "k (length (store w)) \<notin> K" using assms(2) [of w] by (auto dest: hasD)
  from keepsD [OF assms(1) [OF this], of "upd (\<lambda>s. s @ [None]) w"] w assms(3)
  show "has K (snd (bindA (alloc store upd) f w))" by (simp add: bindA_def alloc_def)
qed

lemma has_in_ctor:
  fixes body :: "('b world, unit) act"
  assumes "k \<notin> K" and "keeps (has K) body"
    and "\<And>(w :: 'b world) q. alive w q \<Longrightarrow> q \<noteq> k \<Longrightarrow> alive (upd (\<lambda>s. s[i := None]) w) q"
  shows "keeps (has K) (in_ctor upd i body)"
proof (rule keepsI)
  fix w :: "'b world" assume "has K w"
  then have "has K (snd (body w))" by (rule keepsD [OF assms(2)])
  moreover have "has K (upd (\<lambda>s. s[i := None]) w')" if "has K w'" for w' :: "'b world"
    using that assms(1,3) unfolding has_def by metis
  ultimately show "has K (snd (in_ctor upd i body w))"
    by (auto simp: in_ctor_def split: prod.splits sum.splits)
qed

lemma live_fill: "live s j = Some y \<Longrightarrow> \<exists>z. live (s[i := Some x]) j = Some z"
  by (cases "i = j") (auto simp: live_def split: if_splits)

lemma alive_fill:
  assumes "alive w k"
  shows "alive (w_characteristics_update (\<lambda>s. s[i := Some x]) w) k"
    "alive (w_services_update (\<lambda>s. s[i := Some y]) w) k"
    "alive (w_peripherals_update (\<lambda>s. s[i := Some z]) w) k"
    "alive (w_adapters_update (\<lambda>s. s[i := Some u]) w) k"
  using assms by (cases k; auto intro: live_fill)+

lemma has_fill [inv_intros]:
  "keeps (has K) (modifyA (w_characteristics_update (\<lambda>s. s[i := Some x])))"
  "keeps (has K) (modifyA (w_services_update (\<lambda>s. s[i := Some y])))"
  "keeps (has K) (modifyA (w_peripherals_update (\<lambda>s. s[i := Some z])))"
  "keeps (has K) (modifyA (w_adapters_update (\<lambda>s. s[i := Some u])))"
  by (rule keeps_has_modify, erule alive_fill)+

lemma alive_factory:
  fixes w :: "'b world"
  assumes "\<And>f. length (fac_regs f) \<le> length (fac_regs (g f))" and "alive w k"
  shows "alive (w_characteristic_regs_update g w) k" "alive (w_service_regs_update g w) k"
    "alive (w_peripheral_regs_update g w) k" "alive (w_adapter_regs_update g w) k"
  using assms(2) order_less_le_trans [OF _ assms(1)] by (cases k; auto)+

lemma has_factory_registry [inv_intros]:
  "keeps (has K) (factory_registry (characteristic_class E) index owner new_rb_value)"
  "keeps (has K) (factory_registry (service_class E) index owner new_rb_value)"
  "keeps (has K) (factory_registry (peripheral_class E) index owner new_rb_value)"
  "keeps (has K) (factory_registry (adapter_class E) index owner new_rb_value)"
  unfolding factory_registry_def characteristic_class_def service_class_def peripheral_class_def adapter_class_def
    proxy_class.simps
  by (intro inv_intros keeps_has_modify; rule alive_factory; simp; fail)+

lemma has_register [inv_intros]:
  "keeps (has K) (modifyA (\<lambda>w. w_characteristic_regs_update (reg_store r (f w)) w))"
  "keeps (has K) (modifyA (\<lambda>w. w_service_regs_update (reg_store r (f w)) w))"
  "keeps (has K) (modifyA (\<lambda>w. w_peripheral_regs_update (reg_store r (f w)) w))"
  "keeps (has K) (modifyA (\<lambda>w. w_adapter_regs_update (reg_store r (f w)) w))"
  by (rule keeps_has_modify, rule alive_factory; simp)+

lemma alive_undo:
  "alive w q \<Longrightarrow> q \<noteq> Ref_characteristic i \<Longrightarrow> alive (w_characteristics_update (\<lambda>s. s[i := None]) w) q"
  "alive w q \<Longrightarrow> q \<noteq> Ref_service i \<Longrightarrow> alive (w_services_update (\<lambda>s. s[i := None]) w) q"
  "alive w q \<Longrightarrow> q \<noteq> Ref_peripheral i \<Longrightarrow> alive (w_peripherals_update (\<lambda>s. s[i := None]) w) q"
  "alive w q \<Longrightarrow> q \<noteq> Ref_adapter i \<Longrightarrow> alive (w_adapters_update (\<lambda>s. s[i := None]) w) q"
  by (cases q; simp add: live_drop)+

lemma has_extend [simp]:
  "has K (w_characteristics_update (\<lambda>s. s @ [None]) w) = has K w"
  "has K (w_services_update (\<lambda>s. s @ [None]) w) = has K w"
  "has K (w_peripherals_update (\<lambda>s. s @ [None]) w) = has K w"
  "has K (w_adapters_update (\<lambda>s. s @ [None]) w) = has K w"
proof -
  have "alive (w_characteristics_update (\<lambda>s. s @ [None]) w) k = alive w k"
    "alive (w_services_update (\<lambda>s. s @ [None]) w) k = alive w k"
    "alive (w_peripherals_update (\<lambda>s. s @ [None]) w) k = alive w k"
    "alive (w_adapters_update (\<lambda>s. s @ [None]) w) k = alive w k" for k by (cases k; simp)+
  then show "has K (w_characteristics_update (\<lambda>s. s @ [None]) w) = has K w"
    "has K (w_services_update (\<lambda>s. s @ [None]) w) = has K w"
    "has K (w_peripherals_update (\<lambda>s. s @ [None]) w) = has K w"
    "has K (w_adapters_update (\<lambda>s. s @ [None]) w) = has K w" by (simp_all add: has_def)
qed

lemmas has_alloc_characteristic = has_alloc [where k = Ref_characteristic and upd = w_characteristics_update
    and store = w_characteristics, simplified]
lemmas has_alloc_peripheral = has_alloc [where k = Ref_peripheral and upd = w_peripherals_update
    and store = w_peripherals, simplified]
lemmas has_alloc_adapter = has_alloc [where k = Ref_adapter and upd = w_adapters_update and store = w_adapters, simplified]

lemma has_undo:
  "Ref_characteristic i \<notin> K \<Longrightarrow> keeps (has K) m \<Longrightarrow> keeps (has K) (in_ctor w_characteristics_update i m)"
  "Ref_peripheral i \<notin> K \<Longrightarrow> keeps (has K) m \<Longrightarrow> keeps (has K) (in_ctor w_peripherals_update i m)"
  "Ref_adapter i \<notin> K \<Longrightarrow> keeps (has K) m \<Longrightarrow> keeps (has K) (in_ctor w_adapters_update i m)"
  by (erule (1) has_in_ctor, erule (1) alive_undo)+

lemma has_new_service [inv_intros]: "keeps (has K) (new_service E v owner)"
proof -
  have "keeps (has K) (alloc w_services w_services_update)" by (rule keepsI) (simp add: alloc_def)
  then show ?thesis unfolding new_service_def by (intro inv_intros)
qed

lemma has_new [inv_intros]:
  "keeps (has K) (new_characteristic E v owner)" "keeps (has K) (new_peripheral E h owner)"
  "keeps (has K) (new_adapter E h owner)"
proof -
  show "keeps (has K) (new_characteristic E v owner)" unfolding new_characteristic_def
    by (rule keeps_option, rule keeps_basic, rule has_alloc_characteristic) (intro inv_intros has_undo)
  show "keeps (has K) (new_peripheral E h owner)" unfolding new_peripheral_def peripheral_registry_of_def
    by (rule keeps_option, rule keeps_basic, rule has_alloc_peripheral) (intro inv_intros has_undo)
  show "keeps (has K) (new_adapter E h owner)" unfolding new_adapter_def adapter_registry_of_def
    by (rule has_alloc_adapter) (intro inv_intros has_undo)
qed

subsection \<open>The program leaves things alive\<close>

lemma within_any [inv_intros]: "within (\<lambda>_ _. True) f"
  by (simp add: within_def)

lemma has_adapter_registry: "has K w \<Longrightarrow> has K (w\<lparr>w_adapter_registry := Some r\<rparr>)"
proof (erule has_mono)
  fix k assume "alive w k"
  then show "alive (w\<lparr>w_adapter_registry := Some r\<rparr>) k" by (cases k) auto
qed

interpretation lifetime: world_property "has K" E "\<lambda>_ _. True" for K E
proof unfold_locales
  show "ble_within (\<lambda>_ _. True) (e_ble E)" by (simp add: ble_within_def within_def)
qed (auto intro: has_mono alive_set_characteristic alive_set_peripheral alive_set_adapter alive_factory
    has_adapter_registry inv_intros)

end
