(* ===== verification/Memory_Safety.thy ===== *)
theory Memory_Safety imports Object_Lifetime begin

text \<open>
  No member of a live proxy has undefined behaviour: nothing it uses on the way is dead or missing.
  \<open>safe P m\<close> says that \<open>m\<close> does not end in undefined behaviour from a state with \<open>P\<close>; \<open>knows E K\<close> is the
  invariant of the object graph with the things of \<open>K\<close> alive. Using a live object adds its owner and its
  registry to what is known.
\<close>

named_theorems safe_intros
named_theorems safe_deref

subsection \<open>Safe operations\<close>

definition safe :: "('w \<Rightarrow> bool) \<Rightarrow> ('w, 'a) act \<Rightarrow> bool" where
  "safe P m \<longleftrightarrow> (\<forall>w. P w \<longrightarrow> fst (m w) \<noteq> Inl UndefinedBehaviour)"

lemma safeI: "(\<And>w. P w \<Longrightarrow> fst (m w) \<noteq> Inl UndefinedBehaviour) \<Longrightarrow> safe P m"
  by (simp add: safe_def)

lemma safeD: "safe P m \<Longrightarrow> P w \<Longrightarrow> fst (m w) \<noteq> Inl UndefinedBehaviour"
  by (simp add: safe_def)

text \<open>
  What is relied on of SimpleBLE and of the conversions of Rice and Ruby: that they answer or throw.
\<close>

definition defined :: "('b, 'a) act \<Rightarrow> bool" where
  "defined f \<longleftrightarrow> (\<forall>b. fst (f b) \<noteq> Inl UndefinedBehaviour)"

definition ble_defined :: "'b ble \<Rightarrow> bool" where
  "ble_defined B \<longleftrightarrow> (\<forall>h ms cb u v x d.
    defined (bluetooth_enabled B) \<and> defined (get_adapters B) \<and> defined (ad_initialized B h) \<and>
    defined (ad_identifier B h) \<and> defined (ad_address B h) \<and> defined (ad_scan_start B h) \<and>
    defined (ad_scan_stop B h) \<and> defined (ad_scan_is_active B h) \<and>
    defined (ad_scan_get_results B h) \<and> defined (ad_get_paired_peripherals B h) \<and>
    defined (pe_initialized B h) \<and> defined (pe_identifier B h) \<and> defined (pe_address B h) \<and>
    defined (pe_address_type B h) \<and> defined (pe_rssi B h) \<and> defined (pe_tx_power B h) \<and>
    defined (pe_mtu B h) \<and> defined (pe_is_connected B h) \<and> defined (pe_is_connectable B h) \<and>
    defined (pe_is_paired B h) \<and> defined (pe_connect B h) \<and> defined (pe_disconnect B h) \<and>
    defined (pe_unpair B h) \<and> defined (pe_services B h) \<and> defined (pe_manufacturer_data B h) \<and>
    defined (ad_scan_for B h ms) \<and> defined (ad_set_callback B h cb) \<and>
    defined (pe_set_callback B h cb) \<and> defined (pe_unsubscribe B h u v) \<and>
    defined (pe_read B h u v) \<and> defined (pe_read_descriptor B h u v x) \<and>
    defined (pe_write_descriptor B h u v x d) \<and> defined (pe_write_request B h u v d) \<and>
    defined (pe_write_command B h u v d) \<and> defined (pe_notify B h u v cb) \<and>
    defined (pe_indicate B h u v cb))"

definition conversions_defined :: "conversions \<Rightarrow> bool" where
  "conversions_defined X \<longleftrightarrow> (\<forall>v. cv_string X v \<noteq> Inl UndefinedBehaviour \<and> cv_bytes X v \<noteq> Inl UndefinedBehaviour \<and>
     cv_int X v \<noteq> Inl UndefinedBehaviour \<and> cv_bool X v \<noteq> Inl UndefinedBehaviour \<and>
     rb_num2ulong (cv_ruby X) v \<noteq> Inl UndefinedBehaviour \<and> rb_string_of (cv_ruby X) v \<noteq> Inl UndefinedBehaviour \<and>
     rb_inspect (cv_ruby X) v \<noteq> Inl UndefinedBehaviour)"

definition knows :: "'b env \<Rightarrow> ref set \<Rightarrow> 'b world \<Rightarrow> bool" where
  "knows E K w \<longleftrightarrow> graph_ok E w \<and> has K w"

lemma keeps_knows: "keeps (graph_ok E) m \<Longrightarrow> keeps (has K) m \<Longrightarrow> keeps (knows E K) m"
  by (auto simp: keeps_def knows_def)

lemma safe_basic [safe_intros]:
  "safe P (retA x)" "safe P (getA f)" "safe P (modifyA g)" "safe P new_rb_value"
  "e \<noteq> UndefinedBehaviour \<Longrightarrow> safe P (throwA e)" "r \<noteq> Inl UndefinedBehaviour \<Longrightarrow> safe P (liftA r)"
  by (simp_all add: safe_def act_simps new_rb_value_def)

lemma safe_bindA: "safe P m \<Longrightarrow> keeps P m \<Longrightarrow> (\<And>x. safe P (f x)) \<Longrightarrow> safe P (bindA m f)"
  unfolding safe_def keeps_def bindA_def by (fastforce split: prod.splits sum.splits)

lemma safe_bind [safe_intros]:
  "safe (knows E K) m \<Longrightarrow> keeps (graph_ok E) m \<Longrightarrow> keeps (has K) m \<Longrightarrow> (\<And>x. safe (knows E K) (f x)) \<Longrightarrow>
     safe (knows E K) (bindA m f)"
  "safe (knows E K) m \<Longrightarrow> keeps (graph_ok E) m \<Longrightarrow> keeps (has K) m \<Longrightarrow> safe (knows E K) n \<Longrightarrow>
     safe (knows E K) (seqA m n)"
  unfolding seqA_def by (rule safe_bindA; simp add: keeps_knows)+

lemma safe_splits [safe_intros]:
  "safe P m \<Longrightarrow> safe P n \<Longrightarrow> safe P (if b then m else n)"
  "safe P m \<Longrightarrow> (\<And>x. safe P (g x)) \<Longrightarrow> safe P (case opt of None \<Rightarrow> m | Some x \<Rightarrow> g x)"
  "(\<And>x y. safe P (h x y)) \<Longrightarrow> safe P (case q of (x, y) \<Rightarrow> h x y)"
  by (simp_all split: option.splits prod.splits)

lemma safe_catch [safe_intros]: "safe P m \<Longrightarrow> safe P (catch_out_of_range m x)"
  unfolding safe_def catch_out_of_range_def by (auto split: prod.splits sum.splits error.splits)

lemma safe_ble_call [safe_intros]: "defined m \<Longrightarrow> safe P (ble_call m)"
  by (auto simp: safe_def defined_def ble_call_def split: prod.splits) (metis fst_conv)

lemma safe_reg_at [safe_intros]: "safe P (reg_at C r k)"
  by (simp add: safe_def reg_at_def map_at_def split: option.splits)

lemma safe_bind_gives:
  assumes "safe (knows E K) m" and "\<And>w x w'. knows E K w \<Longrightarrow> m w = (Inr x, w') \<Longrightarrow> knows E (K \<union> R x) w'"
    and "\<And>x. safe (knows E (K \<union> R x)) (f x)"
  shows "safe (knows E K) (bindA m f)"
proof (rule safeI)
  fix w assume w: "knows E K w"
  obtain r w' where m: "m w = (r, w')" by fastforce
  then show "fst (bindA m f w) \<noteq> Inl UndefinedBehaviour"
    using safeD [OF assms(1) w] safeD [OF assms(3) assms(2) [OF w]] by (cases r) (auto simp: bindA_def)
qed

subsection \<open>Using a live object\<close>

lemma safe_deref_then:
  assumes "\<And>w. knows E K w \<Longrightarrow> live (store w) i \<noteq> None"
    and "\<And>w x. knows E K w \<Longrightarrow> live (store w) i = Some x \<Longrightarrow> knows E (L x) w"
    and "\<And>x. safe (knows E (L x)) (f x)"
  shows "safe (knows E K) (bindA (deref store i) f)"
proof (rule safeI)
  fix w assume w: "knows E K w"
  then obtain x where "live (store w) i = Some x" using assms(1) by blast
  moreover from this have "fst (f x w) \<noteq> Inl UndefinedBehaviour" using safeD [OF assms(3) assms(2) [OF w]] by blast
  ultimately show "fst (bindA (deref store i) f w) \<noteq> Inl UndefinedBehaviour" by (simp add: bindA_def deref_def)
qed

lemma knowsD: "knows E K w \<Longrightarrow> k \<in> K \<Longrightarrow> alive w k"
  by (auto simp: knows_def dest: hasD)

lemma knows_insert: "knows E (insert k K) w \<longleftrightarrow> alive w k \<and> knows E K w"
  by (auto simp: knows_def)

lemma knows_live:
  "knows E K w \<Longrightarrow> Ref_characteristic i \<in> K \<Longrightarrow> live (w_characteristics w) i \<noteq> None"
  "knows E K w \<Longrightarrow> Ref_service i \<in> K \<Longrightarrow> live (w_services w) i \<noteq> None"
  "knows E K w \<Longrightarrow> Ref_peripheral i \<in> K \<Longrightarrow> live (w_peripherals w) i \<noteq> None"
  "knows E K w \<Longrightarrow> Ref_adapter i \<in> K \<Longrightarrow> live (w_adapters w) i \<noteq> None"
  by (drule (1) knowsD, simp)+

lemma knows_valid:
  "knows E K w \<Longrightarrow> Characteristics_in r \<in> K \<Longrightarrow> r < length (fac_regs (w_characteristic_regs w))"
  "knows E K w \<Longrightarrow> Services_in r \<in> K \<Longrightarrow> r < length (fac_regs (w_service_regs w))"
  "knows E K w \<Longrightarrow> Peripherals_in r \<in> K \<Longrightarrow> r < length (fac_regs (w_peripheral_regs w))"
  "knows E K w \<Longrightarrow> Adapters_in r \<in> K \<Longrightarrow> r < length (fac_regs (w_adapter_regs w))"
  by (drule (1) knowsD, simp)+

lemma owner_alive:
  assumes "knows E K w"
  shows "live (w_characteristics w) c = Some ch \<Longrightarrow> alive w (Ref_service (c_owner ch))"
    and "live (w_services w) s = Some sv \<Longrightarrow>
      alive w (Ref_peripheral (s_owner sv)) \<and> alive w (Characteristics_in (s_registry sv))"
    and "live (w_peripherals w) p = Some per \<Longrightarrow>
      alive w (Ref_adapter (p_owner per)) \<and> alive w (Services_in (p_registry per))"
    and "live (w_adapters w) a = Some ad \<Longrightarrow> alive w (Peripherals_in (a_registry ad))"
proof -
  have ok: "world_ok E w" using assms by (simp add: knows_def graph_ok_def)
  note parts = ok [unfolded world_ok_def objects_ok_defs]
  show "live (w_characteristics w) c = Some ch \<Longrightarrow> alive w (Ref_service (c_owner ch))" using parts by simp
  show "live (w_services w) s = Some sv \<Longrightarrow>
      alive w (Ref_peripheral (s_owner sv)) \<and> alive w (Characteristics_in (s_registry sv))"
    using parts live_regs(1) [OF ok] by simp
  show "live (w_peripherals w) p = Some per \<Longrightarrow>
      alive w (Ref_adapter (p_owner per)) \<and> alive w (Services_in (p_registry per))" using parts by simp
  show "live (w_adapters w) a = Some ad \<Longrightarrow> alive w (Peripherals_in (a_registry ad))" using parts by simp
qed

lemma safe_deref_characteristic [safe_deref]:
  "Ref_characteristic c \<in> K \<Longrightarrow> (\<And>x. safe (knows E (insert (Ref_service (c_owner x)) K)) (f x)) \<Longrightarrow>
     safe (knows E K) (bindA (deref w_characteristics c) f)"
  by (rule safe_deref_then [where L = "\<lambda>x. insert (Ref_service (c_owner x)) K"])
    (simp_all only: knows_live knows_insert owner_alive simp_thms)

lemma safe_deref_service [safe_deref]:
  "Ref_service s \<in> K \<Longrightarrow>
     (\<And>x. safe (knows E (insert (Ref_peripheral (s_owner x)) (insert (Characteristics_in (s_registry x)) K))) (f x)) \<Longrightarrow>
     safe (knows E K) (bindA (deref w_services s) f)"
  by (rule safe_deref_then [where L = "\<lambda>x. insert (Ref_peripheral (s_owner x)) (insert (Characteristics_in (s_registry x)) K)"])
    (simp_all only: knows_live knows_insert owner_alive simp_thms)

lemma safe_deref_peripheral [safe_deref]:
  "Ref_peripheral p \<in> K \<Longrightarrow>
     (\<And>x. safe (knows E (insert (Ref_adapter (p_owner x)) (insert (Services_in (p_registry x)) K))) (f x)) \<Longrightarrow>
     safe (knows E K) (bindA (deref w_peripherals p) f)"
  by (rule safe_deref_then [where L = "\<lambda>x. insert (Ref_adapter (p_owner x)) (insert (Services_in (p_registry x)) K)"])
    (simp_all only: knows_live knows_insert owner_alive simp_thms)

lemma safe_deref_adapter [safe_deref]:
  "Ref_adapter a \<in> K \<Longrightarrow> (\<And>x. safe (knows E (insert (Peripherals_in (a_registry x)) K)) (f x)) \<Longrightarrow>
     safe (knows E K) (bindA (deref w_adapters a) f)"
  by (rule safe_deref_then [where L = "\<lambda>x. insert (Peripherals_in (a_registry x)) K"])
    (simp_all only: knows_live knows_insert owner_alive simp_thms)

subsection \<open>Fetching\<close>

lemma index_of_defined: "index_of fs n \<noteq> Inl UndefinedBehaviour"
  by (simp add: index_of_def split: option.splits prod.splits)

lemma nbs_defined [simp]:
  "nbs_get fs bits n \<noteq> Inl UndefinedBehaviour" "nbs_assign fs n b bits \<noteq> Inl UndefinedBehaviour"
  "nbs_of_list fs names \<noteq> Inl UndefinedBehaviour"
proof -
  show 1: "nbs_get fs bits n \<noteq> Inl UndefinedBehaviour" "nbs_assign fs n b bits \<noteq> Inl UndefinedBehaviour"
    for n b bits using index_of_defined [of fs n]
    by (auto simp: nbs_get_def nbs_assign_def bindR_def split: sum.splits)
  have "foldR (\<lambda>sv. nbs_assign fs sv True) ns acc \<noteq> Inl UndefinedBehaviour" for ns acc
    by (induction ns arbitrary: acc) (use 1(2) in \<open>auto simp: bindR_def split: sum.splits\<close>)
  then show "nbs_of_list fs names \<noteq> Inl UndefinedBehaviour" by (simp add: nbs_of_list_def)
qed

lemma safe_capabilities [safe_intros]:
  "Ref_characteristic c \<in> K \<Longrightarrow> safe (knows E K) (capabilities c)"
  "Ref_characteristic c \<in> K \<Longrightarrow> safe (knows E K) (has_capability c name)"
proof -
  show 1: "Ref_characteristic c \<in> K \<Longrightarrow> safe (knows E K) (capabilities c)" for K
    unfolding capabilities_def
    by (rule safe_deref_characteristic, assumption) (intro safe_intros inv_intros; simp)
  show "Ref_characteristic c \<in> K \<Longrightarrow> safe (knows E K) (has_capability c name)"
    unfolding has_capability_def by (intro safe_intros inv_intros 1; simp)
qed

lemma safe_per_call [safe_intros]:
  "Ref_peripheral p \<in> K \<Longrightarrow> (\<And>h. defined (f h)) \<Longrightarrow> safe (knows E K) (per_call p f)"
  unfolding per_call_def by (rule safe_deref_peripheral, assumption) (intro safe_intros; simp)

lemma safe_ad_call [safe_intros]:
  "Ref_adapter a \<in> K \<Longrightarrow> (\<And>h. defined (f h)) \<Longrightarrow> safe (knows E K) (ad_call a f)"
proof -
  assume "Ref_adapter a \<in> K" and "\<And>h. defined (f h)"
  then have "safe (knows E K) (adapter_get a)"
    unfolding adapter_get_def by (intro safe_deref_adapter) (simp, intro safe_intros, simp)
  then show ?thesis unfolding ad_call_def
    using \<open>\<And>h. defined (f h)\<close> by (intro safe_intros) (auto simp: adapter_get_def intro!: inv_intros)
qed

lemma ble_definedD [safe_intros]:
  assumes "ble_defined B"
  shows "defined (bluetooth_enabled B)" "defined (get_adapters B)"
    "defined (ad_initialized B h)" "defined (ad_identifier B h)" "defined (ad_address B h)"
    "defined (ad_scan_start B h)" "defined (ad_scan_stop B h)" "defined (ad_scan_is_active B h)"
    "defined (ad_scan_get_results B h)" "defined (ad_get_paired_peripherals B h)" "defined (ad_scan_for B h ms)"
    "defined (ad_set_callback B h cb)" "defined (pe_initialized B h)" "defined (pe_identifier B h)"
    "defined (pe_address B h)" "defined (pe_address_type B h)" "defined (pe_rssi B h)" "defined (pe_tx_power B h)"
    "defined (pe_mtu B h)" "defined (pe_is_connected B h)" "defined (pe_is_connectable B h)"
    "defined (pe_is_paired B h)" "defined (pe_connect B h)" "defined (pe_disconnect B h)" "defined (pe_unpair B h)"
    "defined (pe_services B h)" "defined (pe_manufacturer_data B h)" "defined (pe_set_callback B h cb)"
    "defined (pe_unsubscribe B h u v)" "defined (pe_read B h u v)" "defined (pe_read_descriptor B h u v x)"
    "defined (pe_write_descriptor B h u v x d)" "defined (pe_write_request B h u v d)"
    "defined (pe_write_command B h u v d)" "defined (pe_notify B h u v cb)" "defined (pe_indicate B h u v cb)"
  using assms unfolding ble_defined_def by blast+

lemma safe_noexcept [safe_intros]: "safe P (noexceptA m)"
  by (auto simp: safe_def noexceptA_def split: prod.splits sum.splits)

lemma safe_factory_registry [safe_intros]: "safe P (factory_registry C index owner new_rb_value)"
  by (auto simp: safe_def factory_registry_def bindA_def seqA_def act_simps new_rb_value_def split: option.splits)

text \<open>The constructors of services, peripherals and adapters use nothing but SimpleBLE.\<close>

lemma defined_safe: "defined m \<longleftrightarrow> safe (\<lambda>_. True) m"
  by (simp add: defined_def safe_def)

lemma safe_any:
  fixes m :: "('w, 'a) act"
  shows "safe (\<lambda>_. True) m \<Longrightarrow> (\<And>x. safe (\<lambda>_. True) (f x)) \<Longrightarrow> safe (\<lambda>_. True) (bindA m f)"
    and "safe (\<lambda>_. True) m \<Longrightarrow> safe (\<lambda>_. True) n \<Longrightarrow> safe (\<lambda>_. True) (seqA m n)"
    and "safe (\<lambda>_. True) (alloc store upd)"
    and "safe (\<lambda>_. True) u \<Longrightarrow> safe (\<lambda>_. True) (in_ctor upd' i u)"
proof -
  show 1: "safe (\<lambda>_. True) m \<Longrightarrow> (\<And>x. safe (\<lambda>_. True) (f x)) \<Longrightarrow> safe (\<lambda>_. True) (bindA m f)" for f
    by (rule safe_bindA) (simp_all add: keeps_def)
  then show "safe (\<lambda>_. True) m \<Longrightarrow> safe (\<lambda>_. True) n \<Longrightarrow> safe (\<lambda>_. True) (seqA m n)"
    by (simp add: seqA_def)
qed (simp_all add: safe_def alloc_def in_ctor_def split: prod.splits sum.splits, metis fst_conv)

lemma new_defined:
  assumes "ble_defined (e_ble E)"
  shows "safe (\<lambda>_. True) (new_service E v (Some i))" "safe (\<lambda>_. True) (new_peripheral E h (Some i))"
    "safe (\<lambda>_. True) (new_adapter E h owner)"
  unfolding new_service_def new_peripheral_def new_adapter_def peripheral_registry_of_def adapter_registry_of_def option.case
  by (intro safe_any safe_intros assms)+

lemma graph_subscribe [inv_intros]:
  "keeps (graph_ok E) (service_notify E s u cb)" "keeps (graph_ok E) (service_indicate E s u cb)"
  unfolding service_notify_def service_indicate_def peripheral_notify_def peripheral_indicate_def by (intro inv_intros)+

lemma characteristic_body_defined:
  assumes "ble_defined (e_ble E)" and "Ref_characteristic c \<in> K" and "Ref_service s \<in> K"
  shows "safe (knows E K) (characteristic_body E c s u)"
proof -
  have "safe (knows E K) (service_notify E s u cb)" "safe (knows E K) (service_indicate E s u cb)" for cb
    unfolding service_notify_def service_indicate_def peripheral_notify_def peripheral_indicate_def using assms(3)
    by (intro safe_deref_service, simp, intro safe_deref_peripheral, simp, intro safe_intros assms(1))+
  then show ?thesis unfolding characteristic_body_def
    by (intro safe_intros inv_intros assms(2)) auto
qed

lemma new_characteristic_defined:
  assumes "ble_defined (e_ble E)" and "graph_ok E w" and "live (w_services w) o' = Some sv"
  shows "fst (new_characteristic E v (Some o') w) \<noteq> Inl UndefinedBehaviour"
proof -
  let ?c = "length (w_characteristics w)"
  obtain w1 where w1: "world_ok E w1" "ch_like (bc_uuid v) o' ?c w1" "live (w_services w1) o' = Some sv"
    and run: "new_characteristic E v (Some o') w =
      in_ctor w_characteristics_update ?c (characteristic_body E ?c o' (bc_uuid v)) w1"
    using new_characteristic_run [OF graph_okD(1) [OF assms(2)] assms(3)] by metis
  have "knows E {Ref_characteristic ?c, Ref_service o'} w1"
    using w1 assms(2) by (auto simp: knows_def graph_ok_def has_def ch_like_def)
  then have "fst (characteristic_body E ?c o' (bc_uuid v) w1) \<noteq> Inl UndefinedBehaviour"
    by (rule safeD [OF characteristic_body_defined [OF assms(1)], rotated 2]) simp_all
  then show ?thesis unfolding run by (auto simp: in_ctor_def split: prod.splits sum.splits)
qed

context proxy_registry
begin

lemma fetch_defined:
  assumes "inv w" and "valid r w" and "\<And>u. fst (pc_key C v u) \<noteq> Inl UndefinedBehaviour"
    and "\<And>u. inv u \<Longrightarrow> valid r u \<Longrightarrow> fst (pc_new C v (reg_owner_of C r u) u) \<noteq> Inl UndefinedBehaviour"
  shows "fst (fetch C r v w) \<noteq> Inl UndefinedBehaviour"
proof -
  obtain res w' where f: "fetch C r v w = (res, w')" by fastforce
  from assms(1,2) f have "res \<noteq> Inl UndefinedBehaviour"
  proof (cases rule: fetch_cases)
    case (key_error e)
    then show ?thesis using assms(3) [of w] by auto
  next
    case (new_error key u e)
    have "inv u \<and> valid r u" using key_keeps [OF assms(1) new_error(1)] assms(2) by simp
    then have "fst (pc_new C v (reg_owner_of C r u) u) \<noteq> Inl UndefinedBehaviour" using assms(4) by blast
    then show ?thesis using new_error(2,3) by auto
  qed simp_all
  then show ?thesis using f by simp
qed

text \<open>So do the two loops over \<open>fetch\<close>; \<open>fetch_round\<close> is what each round has to know.\<close>

lemma fetch_round:
  assumes "\<And>v u. fst (pc_key C v u) \<noteq> Inl UndefinedBehaviour"
    and "\<And>v u. inv u \<Longrightarrow> valid r u \<Longrightarrow> fst (pc_new C v (reg_owner_of C r u) u) \<noteq> Inl UndefinedBehaviour"
    and "inv w" and "valid r w" and "fetch C r v w = (x, w')"
  shows "x \<noteq> Inl UndefinedBehaviour \<and> inv w' \<and> valid r w'"
proof -
  have "fst (fetch C r v w) \<noteq> Inl UndefinedBehaviour" by (rule fetch_defined [OF assms(3,4,1,2)])
  then show ?thesis using fetch_keeps [OF assms(3,4,5)] assms(4,5) by (simp add: grows_def)
qed

lemma fetch_all_defined:
  assumes "\<And>v u. fst (pc_key C v u) \<noteq> Inl UndefinedBehaviour"
    and "\<And>v u. inv u \<Longrightarrow> valid r u \<Longrightarrow> fst (pc_new C v (reg_owner_of C r u) u) \<noteq> Inl UndefinedBehaviour"
    and "inv w" and "valid r w"
  shows "fst (fetch_all C r vs w) \<noteq> Inl UndefinedBehaviour"
  using assms(3,4)
proof (induction vs arbitrary: w)
  case (Cons v vs)
  obtain x w' where f: "fetch C r v w = (x, w')" by fastforce
  note round = fetch_round [OF assms(1,2) Cons.prems f]
  then show ?case using Cons.IH [of w'] f by (cases x) (auto simp: fetch_all_def seqA_def bindA_def)
qed (simp add: fetch_all_def act_simps)

lemma map_to_objects_defined:
  assumes "\<And>v u. fst (pc_key C v u) \<noteq> Inl UndefinedBehaviour"
    and "\<And>v u. inv u \<Longrightarrow> valid r u \<Longrightarrow> fst (pc_new C v (reg_owner_of C r u) u) \<noteq> Inl UndefinedBehaviour"
    and "inv w" and "valid r w"
  shows "fst (map_to_objects C r vs w) \<noteq> Inl UndefinedBehaviour"
  using assms(3,4)
proof (induction vs arbitrary: w)
  case (Cons v vs)
  obtain x w' where f: "fetch C r v w = (x, w')" by fastforce
  note round = fetch_round [OF assms(1,2) Cons.prems f]
  then show ?case using Cons.IH [of w'] f
    by (cases x) (auto simp: map_to_objects_def bindA_def act_simps split: prod.splits sum.splits)
qed (simp add: map_to_objects_def act_simps)

text \<open>The proxies that \<open>map_to_objects\<close> answers are good in the state it leaves.\<close>

lemma map_to_objects_good:
  assumes "inv w" and "valid r w" and "map_to_objects C r vs w = (Inr ps, w')" and "p \<in> set ps"
  shows "\<exists>key. good w' p key (reg_owner_of C r w')"
  using assms
proof (induction vs arbitrary: w ps)
  case (Cons v vs)
  obtain q u qs where f: "fetch C r v w = (Inr q, u)" and rest: "map_to_objects C r vs u = (Inr qs, w')" "ps = q # qs"
    using Cons.prems(3) unfolding map_to_objects_def mapA_Cons_Inr_iff by blast
  note k = fetch_keeps [OF Cons.prems(1,2) f]
  have u: "inv u" "valid r u" using k Cons.prems(2) by (auto simp: grows_def)
  show ?case
  proof (cases "p = q")
    case True
    obtain key where key: "map_find (reg_data C r u) key = Some q" using fetch_good [OF Cons.prems(1,2) f] by blast
    note m = map_to_objects_keeps [OF u rest(1)]
    then have "map_find (reg_data C r w') key = Some q" and "inv w'" "valid r w'"
      using key u by (auto simp: grows_def)
    then show ?thesis using True registered_good by blast
  next
    case False
    then show ?thesis using Cons.IH [OF u rest(1)] Cons.prems(4) rest(2) by simp
  qed
qed (simp add: map_to_objects_def act_simps)

end

text \<open>The four classes of proxies.\<close>

lemma ble_call_defined: "defined m \<Longrightarrow> fst (ble_call m u) \<noteq> Inl UndefinedBehaviour"
  using safeD [OF safe_ble_call, of m "\<lambda>_. True"] by simp

lemma service_class_defined:
  assumes "ble_defined (e_ble E)"
  shows "fst (pc_key (service_class E) v u) \<noteq> Inl UndefinedBehaviour"
    and "world_ok E u \<Longrightarrow> r < length (fac_regs (pc_get (service_class E) u)) \<Longrightarrow>
      fst (pc_new (service_class E) v (reg_owner_of (service_class E) r u) u) \<noteq> Inl UndefinedBehaviour"
proof -
  assume "world_ok E u" and "r < length (fac_regs (pc_get (service_class E) u))"
  then obtain i where "reg_owner_of (service_class E) r u = Some i"
    by (auto simp: world_ok_def reg_owner_of_def elim: owners_ok_get)
  then show "fst (pc_new (service_class E) v (reg_owner_of (service_class E) r u) u) \<noteq> Inl UndefinedBehaviour"
    using safeD [OF new_defined(1) [OF assms]] by (simp add: service_class_def)
qed (simp add: act_simps)

lemma characteristic_class_defined:
  assumes "ble_defined (e_ble E)" and "quiet_callbacks (e_ble E)"
  shows "fst (pc_key (characteristic_class E) v u) \<noteq> Inl UndefinedBehaviour"
    and "world_ok E u \<Longrightarrow> r < length (fac_regs (pc_get (characteristic_class E) u)) \<Longrightarrow>
      fst (pc_new (characteristic_class E) v (reg_owner_of (characteristic_class E) r u) u) \<noteq> Inl UndefinedBehaviour"
proof -
  assume ok: "world_ok E u" and "r < length (fac_regs (pc_get (characteristic_class E) u))"
  then obtain i sv where o: "reg_owner_of (characteristic_class E) r u = Some i" "live (w_services u) i = Some sv"
    by (auto simp: world_ok_def reg_owner_of_def elim: owners_ok_get)
  have "fst (new_characteristic E v (Some i) u) \<noteq> Inl UndefinedBehaviour"
    by (rule new_characteristic_defined [OF assms(1) _ o(2)]) (simp add: graph_ok_def ok assms(2))
  then show "fst (pc_new (characteristic_class E) v (reg_owner_of (characteristic_class E) r u) u) \<noteq> Inl UndefinedBehaviour"
    unfolding o(1) by (simp add: characteristic_class_def)
qed (simp add: act_simps)

lemma peripheral_class_defined:
  assumes "ble_defined (e_ble E)"
  shows "fst (pc_key (peripheral_class E) h u) \<noteq> Inl UndefinedBehaviour"
    and "graph_ok E u \<Longrightarrow> r < length (fac_regs (pc_get (peripheral_class E) u)) \<Longrightarrow>
      fst (pc_new (peripheral_class E) h (reg_owner_of (peripheral_class E) r u) u) \<noteq> Inl UndefinedBehaviour"
proof -
  show "fst (pc_key (peripheral_class E) h u) \<noteq> Inl UndefinedBehaviour"
    using ble_call_defined [OF ble_definedD(15) [OF assms]] by (simp add: peripheral_class_def)
  assume "graph_ok E u" and "r < length (fac_regs (pc_get (peripheral_class E) u))"
  then obtain i where "reg_owner_of (peripheral_class E) r u = Some i"
    by (auto simp: graph_ok_def world_ok_def reg_owner_of_def elim: owners_ok_get)
  then show "fst (pc_new (peripheral_class E) h (reg_owner_of (peripheral_class E) r u) u) \<noteq> Inl UndefinedBehaviour"
    using safeD [OF new_defined(2) [OF assms]] by (simp add: peripheral_class_def)
qed

lemma adapter_class_defined:
  assumes "ble_defined (e_ble E)"
  shows "fst (pc_key (adapter_class E) h u) \<noteq> Inl UndefinedBehaviour"
    and "fst (pc_new (adapter_class E) h owner u) \<noteq> Inl UndefinedBehaviour"
  using ble_call_defined [OF ble_definedD(5) [OF assms]] safeD [OF new_defined(3) [OF assms]]
  by (simp_all add: adapter_class_def)

lemma safe_fetches [safe_intros]:
  assumes "ble_defined (e_ble E)"
  shows "Services_in r \<in> K \<Longrightarrow> safe (knows E K) (fetch_all (service_class E) r vs)"
    and "Characteristics_in r \<in> K \<Longrightarrow> safe (knows E K) (fetch_all (characteristic_class E) r cs)"
    and "Peripherals_in r \<in> K \<Longrightarrow> safe (knows E K) (map_to_objects (peripheral_class E) r hs)"
    and "Adapters_in r \<in> K \<Longrightarrow> safe (knows E K) (map_to_objects (adapter_class E) r hs)"
proof -
  have k: "graph_ok E w \<and> world_ok E w \<and> quiet_callbacks (e_ble E) \<and> has K w" if "knows E K w" for w
    using that by (simp add: knows_def graph_ok_def)
  show "Services_in r \<in> K \<Longrightarrow> safe (knows E K) (fetch_all (service_class E) r vs)"
    by (rule safeI, rule svc.fetch_all_defined) (use service_class_defined [OF assms] k in \<open>auto dest: knows_valid\<close>)
  show "Characteristics_in r \<in> K \<Longrightarrow> safe (knows E K) (fetch_all (characteristic_class E) r cs)"
    by (rule safeI, rule chr.fetch_all_defined) (use characteristic_class_defined [OF assms] k in \<open>auto dest: knows_valid\<close>)
  show "Peripherals_in r \<in> K \<Longrightarrow> safe (knows E K) (map_to_objects (peripheral_class E) r hs)"
    by (rule safeI, rule per.map_to_objects_defined) (use peripheral_class_defined [OF assms] k in \<open>auto dest: knows_valid\<close>)
  show "Adapters_in r \<in> K \<Longrightarrow> safe (knows E K) (map_to_objects (adapter_class E) r hs)"
    by (rule safeI, rule adp.map_to_objects_defined) (use adapter_class_defined [OF assms] k in \<open>auto dest: knows_valid\<close>)
qed

subsection \<open>The members are safe\<close>

lemma graph_members [inv_intros]:
  "keeps (graph_ok E) (peripheral_initialized F p)" "keeps (graph_ok E) (peripheral_address_type p)"
  "keeps (graph_ok E) (peripheral_address p)" "keeps (graph_ok E) (peripheral_identifier F p)"
  "keeps (graph_ok E) (peripheral_rssi F p)" "keeps (graph_ok E) (peripheral_tx_power F p)"
  "keeps (graph_ok E) (peripheral_mtu F p)" "keeps (graph_ok E) (peripheral_is_paired F p)"
  "keeps (graph_ok E) (peripheral_is_connected F p)" "keeps (graph_ok E) (peripheral_is_connectable F p)"
  "keeps (graph_ok E) (peripheral_unpair F p)" "keeps (graph_ok E) (peripheral_disconnect F p)"
  unfolding peripheral_initialized_def peripheral_address_type_def peripheral_address_def peripheral_identifier_def
    peripheral_rssi_def peripheral_tx_power_def peripheral_mtu_def peripheral_is_paired_def peripheral_is_connected_def
    peripheral_is_connectable_def peripheral_unpair_def peripheral_disconnect_def
  by (intro inv_intros)+

lemma graph_statuses [inv_intros]: "keeps (graph_ok E) (peripheral_statuses F p)"
  unfolding peripheral_statuses_def by (intro inv_intros)

lemma safe_peripheral_members [safe_intros]:
  assumes "ble_defined (e_ble E)" and "Ref_peripheral p \<in> K"
  shows "safe (knows E K) (peripheral_initialized E p)" "safe (knows E K) (peripheral_identifier E p)"
    "safe (knows E K) (peripheral_rssi E p)" "safe (knows E K) (peripheral_tx_power E p)"
    "safe (knows E K) (peripheral_mtu E p)" "safe (knows E K) (peripheral_connect E p)"
    "safe (knows E K) (peripheral_disconnect E p)" "safe (knows E K) (peripheral_is_connected E p)"
    "safe (knows E K) (peripheral_is_connectable E p)" "safe (knows E K) (peripheral_is_paired E p)"
    "safe (knows E K) (peripheral_unpair E p)"
  unfolding peripheral_initialized_def peripheral_identifier_def
    peripheral_rssi_def peripheral_tx_power_def peripheral_mtu_def peripheral_connect_def peripheral_disconnect_def
    peripheral_is_connected_def peripheral_is_connectable_def peripheral_is_paired_def peripheral_unpair_def
  by (rule safe_per_call [OF assms(2)], rule ble_definedD [OF assms(1)])+

lemma safe_peripheral_fields [safe_intros]:
  assumes "Ref_peripheral p \<in> K"
  shows "safe (knows E K) (peripheral_address_type p)" "safe (knows E K) (peripheral_address p)"
  unfolding peripheral_address_type_def peripheral_address_def
  by (rule safe_deref_peripheral [OF assms], rule safe_basic)+

lemma safe_flag_tests:
  "(\<And>n t. (n, t) \<in> set ts \<Longrightarrow> safe (knows E K) t \<and> keeps (graph_ok E) t \<and> keeps (has K) t) \<Longrightarrow>
     safe (knows E K) (run_flag_tests flds ts bits)"
proof (induction flds ts bits rule: run_flag_tests.induct)
  case (2 flds name test ts bits)
  have "safe (knows E K) test \<and> keeps (graph_ok E) test \<and> keeps (has K) test" by (rule 2(2) [of name]) simp
  moreover have "safe (knows E K) (run_flag_tests flds ts b)" for b
    by (rule 2(1)) (meson 2(2) list.set_intros(2))
  ultimately show ?case unfolding run_flag_tests.simps by (auto intro!: safe_intros inv_intros)
qed (simp add: safe_intros)

lemma safe_statuses [safe_intros]:
  assumes "ble_defined (e_ble E)" and "Ref_peripheral p \<in> K"
  shows "safe (knows E K) (peripheral_statuses E p)"
proof -
  have "safe (knows E K) (peripheral_status_flags E p)" unfolding peripheral_status_flags_def
    by (rule safe_flag_tests) (use safe_peripheral_members [OF assms] in \<open>auto intro: inv_intros\<close>)
  then show ?thesis unfolding peripheral_statuses_def
    by (intro safe_intros inv_intros)
qed

lemma safe_peripheral_to_s [safe_intros]:
  assumes "ble_defined (e_ble E)" and "Ref_peripheral p \<in> K"
  shows "safe (knows E K) (peripheral_to_s E start p)"
  unfolding peripheral_to_s_def by (intro safe_intros inv_intros assms)

lemma safe_last:
  "safe P m \<Longrightarrow> safe P (seqA m (getA f))" "safe P m \<Longrightarrow> safe P (bindA m (\<lambda>x. retA (g x)))"
  unfolding safe_def seqA_def bindA_def getA_def retA_def
  by (auto split: prod.splits sum.splits)

lemma safe_services [safe_intros]:
  assumes "ble_defined (e_ble E)" and "Ref_peripheral p \<in> K"
  shows "safe (knows E K) (services E p)" and "safe (knows E K) (peripheral_index E p u)"
proof -
  have 1: "safe (knows E K) (services E p)" if "Ref_peripheral p \<in> K" for K
    unfolding services_def using that
    by (intro safe_deref_peripheral, simp, intro safe_bind(1) safe_last safe_intros inv_intros assms(1), simp)
  then show "safe (knows E K) (services E p)" using assms(2) .
  show "safe (knows E K) (peripheral_index E p u)" unfolding peripheral_index_def Let_def using assms(2)
    by (intro safe_deref_peripheral, simp, intro safe_intros inv_intros safe_reg_at 1, simp)
qed

lemma safe_service_members [safe_intros]:
  assumes "ble_defined (e_ble E)" and "quiet_callbacks (e_ble E)" and "Ref_service s \<in> K"
  shows "safe (knows E K) (service_characteristics E s)" and "safe (knows E K) (service_index E s u)"
proof -
  have 1: "safe (knows E K) (service_characteristics E s)" if "Ref_service s \<in> K" for K
    unfolding service_characteristics_def using that
    by (intro safe_deref_service, simp, intro safe_bind(1) safe_last safe_intros inv_intros assms(1), simp)
  then show "safe (knows E K) (service_characteristics E s)" using assms(3) .
  show "safe (knows E K) (service_index E s u)" unfolding service_index_def Let_def using assms(3)
    by (intro safe_deref_service, simp, intro safe_intros inv_intros 1, simp)
qed

lemma safe_service_fields [safe_intros]:
  assumes "Ref_service s \<in> K"
  shows "safe (knows E K) (service_uuid s)" "safe (knows E K) (service_data s)"
    "safe (knows E K) (service_get s)"
  unfolding service_uuid_def service_data_def service_get_def
  by (rule safe_deref_service [OF assms], rule safe_basic)+

lemma safe_service_to_s [safe_intros]: "Ref_service s \<in> K \<Longrightarrow> safe (knows E K) (service_to_s start s)"
  unfolding service_to_s_def
  by (rule safe_deref_service, assumption, intro safe_last safe_service_fields, simp)

lemma safe_service_ops [safe_intros]:
  assumes "ble_defined (e_ble E)" and "Ref_service s \<in> K"
  shows "safe (knows E K) (service_read E s u)" "safe (knows E K) (service_read_descriptor E s u d)"
    "safe (knows E K) (service_write E s u d x)" "safe (knows E K) (service_write_request E s u x)"
    "safe (knows E K) (service_write_command E s u x)"
  unfolding service_ops peripheral_ops
  by (rule safe_deref_service [OF assms(2)], intro safe_last safe_per_call ble_definedD [OF assms(1)], simp)+

subsection \<open>Characteristics and descriptors\<close>

lemma safe_make_map [safe_intros]: "safe P (make_map us owner m)"
proof (rule safeI)
  fix w
  show "fst (make_map us owner m w) \<noteq> Inl UndefinedBehaviour"
    by (induction us owner m arbitrary: w rule: make_map.induct) (simp_all add: bindA_def act_simps new_rb_value_def)
qed

lemma safe_descriptors [safe_intros]: "Ref_characteristic c \<in> K \<Longrightarrow> safe (knows E K) (descriptors c)"
  unfolding descriptors_def by (rule safe_deref_characteristic, assumption) (intro safe_intros inv_intros; simp)

text \<open>After the descriptors were asked for, they are in the cache.\<close>

lemma descriptors_cached:
  assumes "descriptors c w = (Inr m, w')"
  shows "\<exists>ch. live (w_characteristics w') c = Some ch \<and> c_descriptors ch = Some m"
proof -
  obtain ch where ch: "live (w_characteristics w) c = Some ch"
    using assms by (cases "live (w_characteristics w) c") (simp_all add: descriptors_def bindA_def deref_def)
  show ?thesis
  proof (cases "c_descriptors ch")
    case (Some m')
    then show ?thesis using assms ch by (auto simp: descriptors_def bindA_def deref_def retA_def)
  next
    case None
    obtain r u where mm: "make_map (bc_descriptors (c_ble ch)) c [] w = (r, u)" by fastforce
    have "has {Ref_characteristic c} u"
      using keepsD [OF lifetime.make_map_keeps, of "{Ref_characteristic c}" w "bc_descriptors (c_ble ch)" c "[]"] mm ch
      by (simp add: has_def)
    then show ?thesis using assms ch None mm
      by (cases r) (auto simp: descriptors_def bindA_def deref_def seqA_def act_simps set_characteristic_def has_def)
  qed
qed

lemma safe_index [safe_intros]:
  assumes "Ref_characteristic c \<in> K" shows "safe (knows E K) (characteristic_index c u)"
proof (rule safeI)
  fix w :: "'a world" assume k: "knows E K w"
  obtain ch where ch: "live (w_characteristics w) c = Some ch" using knows_live(1) [OF k assms] by blast
  let ?missing = "case c_descriptors ch of None \<Rightarrow> True | Some m \<Rightarrow> \<not> map_contains m u"
  obtain r w' where d: "descriptors c w = (r, w')" by fastforce
  have r: "r \<noteq> Inl UndefinedBehaviour" using safeD [OF safe_descriptors [OF assms] k] d by simp
  have at: "map_at m u \<noteq> Inl UndefinedBehaviour" for m :: "(uuid, descriptor) std_map"
    by (simp add: map_at_def split: option.splits)
  show "fst (characteristic_index c u w) \<noteq> Inl UndefinedBehaviour"
  proof (cases ?missing)
    case False
    then obtain m where "c_descriptors ch = Some m" by (cases "c_descriptors ch") simp_all
    then show ?thesis using False ch at by (simp add: characteristic_index_def bindA_def deref_def seqA_def act_simps)
  next
    case True
    show ?thesis
    proof (cases r)
      case (Inl e)
      then show ?thesis using True ch r d by (simp add: characteristic_index_def bindA_def deref_def seqA_def act_simps)
    next
      case (Inr m)
      obtain ch' where "live (w_characteristics w') c = Some ch'" "c_descriptors ch' = Some m"
        using descriptors_cached d Inr by blast
      then show ?thesis using True ch d Inr at
        by (simp add: characteristic_index_def bindA_def deref_def seqA_def act_simps)
    qed
  qed
qed

lemma record_defined [simp]: "fst (set_value_tracking cn b t) \<noteq> Inl UndefinedBehaviour"
  by (simp add: set_value_tracking_def seqA_def bindA_def act_simps)

text \<open>Setting a callback is safe when its parameters are of the six kinds the check knows.\<close>

lemma callback_set_defined: "plain_value v \<Longrightarrow> fst (callback_set v k) \<noteq> Inl UndefinedBehaviour"
  using assert_accepts_defined [of v "ucast (cb_arg_count k)" True]
  by (auto simp: callback_set_eq split: sum.splits)

lemma safe_set_with:
  assumes "fst q \<noteq> Inl UndefinedBehaviour" and "keeps (graph_ok E) (modifyA (h (snd q)))" and "keeps (has K) (modifyA (h (snd q)))"
  shows "safe (knows E K) (case q of (r, t) \<Rightarrow> seqA (modifyA (h t)) (liftA r))"
  using assms by (cases q) (auto intro!: safe_bind(2) safe_basic)

lemma safe_characteristic_members [safe_intros]:
  assumes "ble_defined (e_ble E)" and c: "Ref_characteristic c \<in> K"
  shows "safe (knows E K) (characteristic_uuid c)" "safe (knows E K) (characteristic_last_value c)"
    "safe (knows E K) (capability_names c)" "safe (knows E K) (characteristic_value_tracking c)"
    "safe (knows E K) (characteristic_to_s start c)" "safe (knows E K) (characteristic_inspect start c)"
    "safe (knows E K) (characteristic_read_descriptor E c u)" "safe (knows E K) (characteristic_write E c u d)"
    "safe (knows E K) (characteristic_write_request E c d)" "safe (knows E K) (characteristic_write_command E c d)"
    "safe (knows E K) (characteristic_set_value_tracking c b)"
proof -
  note d = safe_deref_characteristic [OF c]
  show "safe (knows E K) (characteristic_uuid c)" "safe (knows E K) (characteristic_last_value c)"
    unfolding characteristic_uuid_def characteristic_last_value_def by (rule d, rule safe_basic)+
  show "safe (knows E K) (capability_names c)" unfolding capability_names_def by (intro safe_last safe_capabilities c)
  show "safe (knows E K) (characteristic_value_tracking c)" unfolding characteristic_value_tracking_def
    by (rule safe_bind(1), rule safe_capabilities(2) [OF c], rule graph_capabilities, rule has_capabilities,
        rule d, rule safe_basic)
  show "safe (knows E K) (characteristic_to_s start c)" for start unfolding characteristic_to_s_def
    by (rule d, intro safe_last safe_capabilities) (simp add: c)
  then show "safe (knows E K) (characteristic_inspect start c)" by (simp add: characteristic_inspect_def)
  show "safe (knows E K) (characteristic_read_descriptor E c u)" "safe (knows E K) (characteristic_write E c u d)"
    "safe (knows E K) (characteristic_write_request E c d)" "safe (knows E K) (characteristic_write_command E c d)"
    unfolding characteristic_read_descriptor_def characteristic_write_def characteristic_write_request_def
      characteristic_write_command_def
    by (rule d, rule safe_service_ops [OF assms(1)], simp)+
  show "safe (knows E K) (characteristic_set_value_tracking c b)" unfolding characteristic_set_value_tracking_def
    by (rule safe_bind(1), intro safe_splits(1) safe_basic(1) safe_capabilities(2) c, intro inv_intros, intro inv_intros,
        rule d, rule safe_set_with, simp, (intro inv_intros; simp)+)
qed

lemma safe_record: "Ref_characteristic c \<in> K \<Longrightarrow> safe (knows E K) (characteristic_record c d)"
proof -
  assume c: "Ref_characteristic c \<in> K"
  have store: "safe (knows E L) (case q of (changed, t) \<Rightarrow>
      seqA (modifyA (set_characteristic c (\<lambda>ch. ch\<lparr>c_tracker := t\<rparr>))) (retA changed))" for q L
    by (cases q) (auto intro!: safe_bind(2) safe_basic inv_intros)
  show ?thesis unfolding characteristic_record_def
    by (rule safe_bind(1), rule safe_capabilities(2) [OF c], rule graph_capabilities, rule has_capabilities,
        rule safe_deref_characteristic [OF c], rule store)
qed

lemma safe_read [safe_intros]:
  assumes "ble_defined (e_ble E)" and c: "Ref_characteristic c \<in> K"
  shows "safe (knows E K) (characteristic_read E c force)"
proof -
  have fresh: "safe (knows E (insert (Ref_service s) K)) (bindA (service_read E s u) (\<lambda>value.
      seqA (characteristic_record c value) (retA value)))" for s u
    using c by (intro safe_bind inv_intros safe_service_ops [OF assms(1)] safe_record safe_basic) simp_all
  show ?thesis unfolding characteristic_read_def
    by (rule safe_bind(1), intro safe_splits(1) safe_basic(1) safe_characteristic_members(4) [OF assms],
        intro inv_intros, intro inv_intros, rule safe_deref_characteristic [OF c], intro safe_splits(2) safe_basic(1) fresh)
qed

subsection \<open>Adapters\<close>

lemma safe_loops:
  fixes P :: "'b world \<Rightarrow> bool"
  assumes "\<And>x. x \<in> set xs \<Longrightarrow> safe P (f x)" and "\<And>x. keeps P (f x)"
  shows "safe P (mapA f xs)" and "safe P (for_eachA f xs)"
proof -
  show "safe P (mapA f xs)" using assms(1)
    by (induction xs) (simp_all add: safe_basic safe_bindA keeps_mapA assms(2))
  show "safe P (for_eachA f xs)" using assms(1)
    by (induction xs) (simp_all add: seqA_def safe_basic safe_bindA assms(2))
qed

lemma safe_adapter_members [safe_intros]:
  assumes "ble_defined (e_ble E)" and a: "Ref_adapter a \<in> K"
  shows "safe (knows E K) (adapter_initialized E a)" "safe (knows E K) (adapter_identifier E a)"
    "safe (knows E K) (adapter_address a)" "safe (knows E K) (scan_is_active E a)" "safe (knows E K) (scan_start E a)"
    "safe (knows E K) (scan_stop E a)" "safe (knows E K) (scan_for E a ms)" "safe (knows E K) (scan_get_results E a)"
    "safe (knows E K) (get_paired_peripherals E a)"
proof -
  note d = safe_deref_adapter [OF a] and call = safe_ad_call [OF a] and b = ble_definedD [OF assms(1)]
  show "safe (knows E K) (adapter_initialized E a)" "safe (knows E K) (scan_for E a ms)"
    unfolding adapter_initialized_def scan_for_def by (rule call, rule b)+
  show 1: "safe (knows E K) (scan_is_active E a)" unfolding scan_is_active_def by (rule call, rule b)
  show "safe (knows E K) (adapter_identifier E a)" unfolding adapter_identifier_def
    by (rule d, intro safe_splits(1) safe_basic(1) safe_ad_call, simp add: a, rule b)
  show "safe (knows E K) (adapter_address a)" unfolding adapter_address_def by (rule d, rule safe_basic)
  show "safe (knows E K) (scan_start E a)" "safe (knows E K) (scan_stop E a)"
    unfolding scan_start_def scan_stop_def by (intro safe_bind(1) inv_intros safe_splits(1) 1 call b safe_basic(1))+
  show "safe (knows E K) (scan_get_results E a)" "safe (knows E K) (get_paired_peripherals E a)"
    unfolding scan_get_results_def get_paired_peripherals_def
    by (rule safe_bind(1), rule call, rule b, rule graph_ad_call, rule has_ad_call,
        rule d, rule safe_fetches(3) [OF assms(1)], simp)+
qed

lemma safe_setters:
  assumes "plain_value v"
  shows "Ref_characteristic c \<in> K \<Longrightarrow> safe (knows E K) (set_on_notify c v)"
    "Ref_characteristic c \<in> K \<Longrightarrow> safe (knows E K) (set_on_indicate c v)"
    "Ref_peripheral p \<in> K \<Longrightarrow> safe (knows E K) (peripheral_on_connect p v)"
    "Ref_peripheral p \<in> K \<Longrightarrow> safe (knows E K) (peripheral_on_disconnect p v)"
    "Ref_adapter a \<in> K \<Longrightarrow> safe (knows E K) (on_scan_start a v)" "Ref_adapter a \<in> K \<Longrightarrow> safe (knows E K) (on_scan_stop a v)"
    "Ref_adapter a \<in> K \<Longrightarrow> safe (knows E K) (on_scan_update a v)" "Ref_adapter a \<in> K \<Longrightarrow> safe (knows E K) (on_scan_find a v)"
  unfolding set_on_notify_def set_on_indicate_def peripheral_on_connect_def peripheral_on_disconnect_def
    on_scan_start_def on_scan_stop_def on_scan_update_def on_scan_find_def Let_def
  by (rule safe_deref, assumption, rule safe_set_with, rule callback_set_defined [OF assms], (intro inv_intros; simp)+)+

text \<open>The proxies that a scan answers are alive, so their Ruby objects can be read.\<close>

lemma knows_of_keeps:
  assumes "knows E K w" and "keeps (graph_ok E) m" and "keeps (has K) m" and "m w = (r, w')" and "has L w'"
  shows "knows E (K \<union> L) w'"
proof -
  have "graph_ok E w'" "has K w'"
    using keepsD [OF assms(2), of w] keepsD [OF assms(3), of w] assms(1,4) by (simp_all add: knows_def)
  then show ?thesis using assms(5) by (auto simp: knows_def has_def)
qed

lemma scan_results_alive:
  assumes "knows E K w" and "scan_get_results E a w = (Inr ps, w') \<or> get_paired_peripherals E a w = (Inr ps, w')"
  shows "has (Ref_peripheral ` set ps) w'"
proof -
  have ok: "graph_ok E w" using assms(1) by (simp add: knows_def)
  obtain ad where ad: "live (w_adapters w) a = Some ad"
    using assms(2) by (cases "live (w_adapters w) a")
      (auto simp: scan_get_results_def get_paired_peripherals_def ad_call_def adapter_get_def bindA_def deref_def)
  obtain hs b where m: "map_to_objects (peripheral_class E) (a_registry ad) hs (w\<lparr>w_ble := b\<rparr>) = (Inr ps, w')"
    using assms(2) ad
    by (auto simp: scan_get_results_def get_paired_peripherals_def ad_call_def adapter_get_def bindA_def deref_def
        ble_call_def throwA_def retA_def split: prod.splits sum.splits option.splits)
  have "\<exists>key. good_in w_peripherals fits_peripheral w' p key (reg_owner_of (peripheral_class E) (a_registry ad) w')"
    if "p \<in> set ps" for p
    by (rule per.map_to_objects_good [OF _ _ m that]) (use ok ad live_regs(3) [OF graph_okD(1) [OF ok]] in simp_all)
  then show ?thesis by (fastforce simp: has_def good_in_def)
qed

lemma safe_ruby_peripherals: "safe (knows E (K \<union> Ref_peripheral ` set ps)) (ruby_peripherals ps)"
  unfolding ruby_peripherals_def
proof (rule safe_loops(1))
  fix p assume "p \<in> set ps"
  then show "safe (knows E (K \<union> Ref_peripheral ` set ps)) (bindA (deref w_peripherals p) (\<lambda>per. retA (p_self per)))"
    by (intro safe_deref_peripheral safe_basic(1)) simp
qed (intro keeps_knows inv_intros)

lemma safe_scan_results [safe_intros]:
  assumes "ble_defined (e_ble E)" and "Ref_adapter a \<in> K"
  shows "safe (knows E K) (scan_get_ruby_results E a)" and "safe (knows E K) (get_ruby_paired_peripherals E a)"
proof -
  have alive: "knows E (K \<union> Ref_peripheral ` set ps) w'"
    if k: "knows E K w" and m: "scan_get_results E a w = (Inr ps, w') \<or> get_paired_peripherals E a w = (Inr ps, w')" for w ps w'
    using m knows_of_keeps [OF k graph_scan_results(1) lifetime.adapter_members_keep(8) _ scan_results_alive [OF k m]]
      knows_of_keeps [OF k graph_scan_results(2) lifetime.adapter_members_keep(9) _ scan_results_alive [OF k m]] by blast
  show "safe (knows E K) (scan_get_ruby_results E a)" "safe (knows E K) (get_ruby_paired_peripherals E a)"
    unfolding scan_get_ruby_results_def get_ruby_paired_peripherals_def
    by (rule safe_bind_gives [where R = "\<lambda>ps. Ref_peripheral ` set ps"], rule safe_adapter_members [OF assms],
        rule alive, assumption, simp, rule safe_ruby_peripherals)+
qed

lemma adapters_alive:
  assumes "knows E K w" and "Adapter_get_adapters E w = (Inr xs, w')"
  shows "has (Ref_adapter ` set xs) w'"
proof -
  have ok: "graph_ok E w" using assms(1) by (simp add: knows_def)
  obtain hs b r where r: "w_adapter_registry w = Some r"
    and m: "map_to_objects (adapter_class E) r hs (w\<lparr>w_ble := b\<rparr>) = (Inr xs, w')"
    using assms(2)
    by (auto simp: Adapter_get_adapters_def bindA_def ble_call_def act_simps split: prod.splits sum.splits option.splits)
  have "r < length (fac_regs (w_adapter_regs w))" using ok r by (simp add: graph_ok_def world_ok_def)
  then have "\<exists>key. good_in w_adapters fits_adapter w' a key None" if "a \<in> set xs" for a
    using adp.map_to_objects_good [OF _ _ m that] ok by simp
  then show ?thesis by (fastforce simp: has_def good_in_def)
qed

lemma safe_get_adapters [safe_intros]:
  assumes "ble_defined (e_ble E)" and "Adapter_registry \<in> K"
  shows "safe (knows E K) (Adapter_get_adapters E)" and "safe (knows E K) (get_ruby_adapters E)"
proof -
  show 1: "safe (knows E K) (Adapter_get_adapters E)"
  proof (rule safeI)
    fix w assume k: "knows E K w"
    obtain r where r: "w_adapter_registry w = Some r" using knowsD [OF k assms(2)] by auto
    have "r < length (fac_regs (w_adapter_regs w))" using k r by (simp add: knows_def graph_ok_def world_ok_def)
    then have "knows E {Adapters_in r} (w\<lparr>w_ble := b\<rparr>)" for b using k by (simp add: knows_def has_def)
    from safeD [OF safe_fetches(4) [OF assms(1)] this]
    have "fst (map_to_objects (adapter_class E) r hs (w\<lparr>w_ble := b\<rparr>)) \<noteq> Inl UndefinedBehaviour" for hs b by simp
    then show "fst (Adapter_get_adapters E w) \<noteq> Inl UndefinedBehaviour"
      using ble_definedD(2) [OF assms(1)] r
      by (auto simp: Adapter_get_adapters_def bindA_def ble_call_def act_simps defined_def split: prod.splits sum.splits)
        (metis fst_conv)
  qed
  show "safe (knows E K) (get_ruby_adapters E)" unfolding get_ruby_adapters_def
  proof (rule safe_bind_gives [where R = "\<lambda>xs. Ref_adapter ` set xs", OF 1])
    fix w xs w' assume k: "knows E K w" and m: "Adapter_get_adapters E w = (Inr xs, w')"
    show "knows E (K \<union> Ref_adapter ` set xs) w'"
      by (rule knows_of_keeps [OF k graph_get_adapters lifetime.adapter_members_keep(17) m adapters_alive [OF k m]])
  next
    fix xs show "safe (knows E (K \<union> Ref_adapter ` set xs)) (mapA (\<lambda>a. bindA (deref w_adapters a) (\<lambda>ad. retA (a_self ad))) xs)"
    proof (rule safe_loops(1))
      fix a assume "a \<in> set xs"
      then show "safe (knows E (K \<union> Ref_adapter ` set xs)) (bindA (deref w_adapters a) (\<lambda>ad. retA (a_self ad)))"
        by (intro safe_deref_adapter safe_basic(1)) simp
    qed (intro keeps_knows inv_intros)
  qed
qed

subsection \<open>The shutdown\<close>

lemma safe_for_each_registered:
  fixes C :: "('b world, 'v) proxy_class"
  assumes "\<And>w. knows E K w \<Longrightarrow> has (R ` snd ` set (reg_data C r w)) w"
    and "\<And>L i. R i \<in> L \<Longrightarrow> safe (knows E L) (fn i)"
    and "\<And>i. keeps (graph_ok E) (fn i)" and "\<And>L i. keeps (has L) (fn i)"
  shows "safe (knows E K) (reg_for_each C r fn)"
  unfolding reg_for_each_def
proof (rule safe_bind_gives [where R = "\<lambda>m. R ` snd ` set m"])
  fix w m w' assume "knows E K w" and "getA (reg_data C r) w = (Inr m, w')"
  then show "knows E (K \<union> R ` snd ` set m) w'" using assms(1) by (auto simp: getA_def knows_def has_def)
next
  fix m show "safe (knows E (K \<union> R ` snd ` set m)) (for_eachA (\<lambda>(key, value). fn value) m)"
  proof (rule safe_loops(2))
    fix x assume "x \<in> set m"
    then have "R (snd x) \<in> K \<union> R ` snd ` set m" by auto
    from assms(2) [OF this] show "safe (knows E (K \<union> R ` snd ` set m)) (case x of (key, value) \<Rightarrow> fn value)"
      by (simp add: case_prod_beta)
  qed (simp add: case_prod_beta keeps_knows assms(3,4))
qed (rule safe_basic)

lemma registered_alive:
  assumes "reg_ok store fits f" and "r < length (fac_regs f)" and "(key, i) \<in> set (reg_map (fac_regs f ! r))"
  shows "live store i \<noteq> None"
proof -
  have "\<forall>(k, i) \<in> set (reg_map (fac_regs f ! r)). \<exists>x. live store i = Some x \<and> fits x k (reg_owner (fac_regs f ! r))"
    using assms(1,2) nth_mem unfolding reg_ok_def by blast
  then show ?thesis using assms(3) by auto
qed

lemma keeps_deinit_peripheral:
  "keeps (graph_ok E) (deinit_peripheral E p)" "keeps (has K) (deinit_peripheral E p)"
  unfolding deinit_peripheral_def by (intro inv_intros)+

lemma safe_deinit_peripheral:
  assumes "ble_defined (e_ble E)" and p: "Ref_peripheral p \<in> K"
  shows "safe (knows E K) (deinit_peripheral E p)"
  unfolding deinit_peripheral_def
  by (intro safe_bind safe_splits(1) safe_basic(1) safe_peripheral_members assms inv_intros)

lemma keeps_for_each: "(\<And>p. keeps P (f p)) \<Longrightarrow> keeps P (reg_for_each C r f)"
  unfolding reg_for_each_def by (intro inv_intros)

lemma keeps_deinit_adapter:
  "keeps (graph_ok E) (deinit_adapter E a)" "keeps (has K) (deinit_adapter E a)"
  unfolding deinit_adapter_def by (intro inv_intros keeps_for_each keeps_deinit_peripheral)+

lemma safe_deinit_adapter:
  assumes "ble_defined (e_ble E)" and a: "Ref_adapter a \<in> K"
  shows "safe (knows E K) (deinit_adapter E a)"
proof -
  have "safe (knows E L) (reg_for_each (peripheral_class E) r (deinit_peripheral E))" if "Peripherals_in r \<in> L" for r L
  proof (rule safe_for_each_registered [where R = Ref_peripheral])
    fix w :: "'a world" assume k: "knows E L w"
    have "reg_ok (w_peripherals w) fits_peripheral (w_peripheral_regs w)"
      using k by (simp add: knows_def graph_ok_def world_ok_def)
    from registered_alive [OF this knows_valid(3) [OF k that]]
    show "has (Ref_peripheral ` snd ` set (reg_data (peripheral_class E) r w)) w" by (auto simp: has_def reg_data_def)
  qed (erule safe_deinit_peripheral [OF assms(1)], rule keeps_deinit_peripheral, rule keeps_deinit_peripheral)
  then show ?thesis unfolding deinit_adapter_def
    by (intro safe_bind(2) safe_bind(1) safe_splits(1) safe_basic(1) safe_adapter_members assms inv_intros safe_deref_adapter) simp
qed

lemma safe_deinit [safe_intros]:
  assumes "ble_defined (e_ble E)" shows "safe (knows E K) (DeInit E)"
proof -
  have each: "safe (knows E K) (bindA (getA w_adapter_registry) (\<lambda>reg. bindA (getA w_unpair_all_on_exit) (\<lambda>unpair.
      case reg of Some r \<Rightarrow> if unpair then reg_for_each (adapter_class E) r (deinit_adapter E) else retA () | None \<Rightarrow> retA ())))"
  proof (rule safe_bind_gives [where R = "\<lambda>reg. Adapters_in ` set_option reg"])
    fix w reg w' assume "knows E K w" and "getA w_adapter_registry w = (Inr reg, w')"
    then show "knows E (K \<union> Adapters_in ` set_option reg) w'"
      by (auto simp: getA_def knows_def has_def graph_ok_def world_ok_def)
  next
    fix reg :: "nat option"
    have "safe (knows E L) (reg_for_each (adapter_class E) r (deinit_adapter E))" if "Adapters_in r \<in> L" for r L
    proof (rule safe_for_each_registered [where R = Ref_adapter])
      fix w :: "'a world" assume k: "knows E L w"
      have "reg_ok (w_adapters w) fits_adapter (w_adapter_regs w)"
        using k by (simp add: knows_def graph_ok_def world_ok_def)
      from registered_alive [OF this knows_valid(4) [OF k that]]
      show "has (Ref_adapter ` snd ` set (reg_data (adapter_class E) r w)) w" by (auto simp: has_def reg_data_def)
    qed (erule safe_deinit_adapter [OF assms], rule keeps_deinit_adapter, rule keeps_deinit_adapter)
    then show "safe (knows E (K \<union> Adapters_in ` set_option reg)) (bindA (getA w_unpair_all_on_exit) (\<lambda>unpair.
      case reg of Some r \<Rightarrow> if unpair then reg_for_each (adapter_class E) r (deinit_adapter E) else retA () | None \<Rightarrow> retA ()))"
      by (cases reg) (auto intro!: safe_bind(1) safe_basic inv_intros safe_splits(1))
  qed (rule safe_basic)
  show ?thesis unfolding DeInit_def
    by (intro safe_bind safe_splits(1) safe_basic each inv_intros keeps_for_each keeps_deinit_adapter)
qed

end
