(* ===== verification/Ruby_Sessions.thy ===== *)
theory Ruby_Sessions imports Memory_Safety begin

text \<open>
  Ruby programs: sequences of calls of the extension's methods by name, between which SimpleBLE
  reports events, queued callbacks run and Ruby collects garbage. The object graph stays in order, and
  no call on a live receiver has undefined behaviour.
\<close>

subsection \<open>Calls from Ruby\<close>

lemma safe_ans [safe_intros]: "safe P m \<Longrightarrow> safe P (ans f m)" "safe P u \<Longrightarrow> safe P (ans_unit u)"
  unfolding ans_unit_def ans_def by (intro safe_last; assumption)+

lemma safe_args [safe_intros]:
  "safe (knows E K) q \<Longrightarrow> safe (knows E K) (args0 q args)"
  "(\<And>v. conv v \<noteq> Inl UndefinedBehaviour) \<Longrightarrow> (\<And>x. safe (knows E K) (g x)) \<Longrightarrow> safe (knows E K) (args1 d conv g args)"
  "(\<And>v. conv1 v \<noteq> Inl UndefinedBehaviour) \<Longrightarrow> (\<And>v. conv2 v \<noteq> Inl UndefinedBehaviour) \<Longrightarrow>
     (\<And>x y. safe (knows E K) (h x y)) \<Longrightarrow> safe (knows E K) (args2 conv1 conv2 h args)"
proof -
  have w: "safe (knows E K) (wrong_count :: ('a world, answer) act)" by (simp add: wrong_count_def safe_def act_simps)
  show "safe (knows E K) q \<Longrightarrow> safe (knows E K) (args0 q args)" by (cases args) (simp_all add: w)
  show "(\<And>v. conv v \<noteq> Inl UndefinedBehaviour) \<Longrightarrow> (\<And>x. safe (knows E K) (g x)) \<Longrightarrow> safe (knows E K) (args1 d conv g args)"
    by (cases "(d, conv, g, args)" rule: args1.cases) (auto simp: w intro!: safe_bind(1) safe_basic inv_intros)
  show "(\<And>v. conv1 v \<noteq> Inl UndefinedBehaviour) \<Longrightarrow> (\<And>v. conv2 v \<noteq> Inl UndefinedBehaviour) \<Longrightarrow>
     (\<And>x y. safe (knows E K) (h x y)) \<Longrightarrow> safe (knows E K) (args2 conv1 conv2 h args)"
    by (cases "(conv1, conv2, h, args)" rule: args2.cases) (auto simp: w intro!: safe_bind(1) safe_basic inv_intros)
qed

lemma graph_accessors [inv_intros]:
  "keeps (graph_ok E) (adapter_initialized F a)" "keeps (graph_ok E) (adapter_identifier F a)"
  "keeps (graph_ok E) (adapter_address a)" "keeps (graph_ok E) (scan_get_ruby_results E a)"
  "keeps (graph_ok E) (get_ruby_paired_peripherals E a)" "keeps (graph_ok E) (peripheral_connect F p)"
  "keeps (graph_ok E) (manufacturer_data F p)" "keeps (graph_ok E) (peripheral_to_s F start p)"
  "keeps (graph_ok E) (service_uuid s)" "keeps (graph_ok E) (service_data s)" "keeps (graph_ok E) (service_to_s start s)"
  "keeps (graph_ok E) (characteristic_uuid c)" "keeps (graph_ok E) (capability_names c)"
  "keeps (graph_ok E) (characteristic_to_s start c)" "keeps (graph_ok E) (characteristic_inspect start c)"
  "keeps (graph_ok E) (characteristic_last_value c)" "keeps (graph_ok E) (get_ruby_adapters E)"
  unfolding adapter_initialized_def adapter_identifier_def adapter_address_def scan_get_ruby_results_def
    get_ruby_paired_peripherals_def ruby_peripherals_def peripheral_connect_def manufacturer_data_def peripheral_to_s_def
    service_uuid_def service_data_def service_to_s_def characteristic_uuid_def capability_names_def
    characteristic_inspect_def characteristic_to_s_def characteristic_last_value_def get_ruby_adapters_def
  by (intro inv_intros)+

lemma graph_descriptor [inv_intros]: "keeps (graph_ok E) (descriptor_read F d)" "keeps (graph_ok E) (descriptor_write F d x)"
  unfolding descriptor_read_def descriptor_write_def by (rule inv_intros)+

lemma graph_tables:
  "all_members (\<lambda>i args. keeps (graph_ok E)) (adapter_members E X)"
  "all_members (\<lambda>i args. keeps (graph_ok E)) (peripheral_members E X)"
  "all_members (\<lambda>i args. keeps (graph_ok E)) (service_members E X)"
  "all_members (\<lambda>i args. keeps (graph_ok E)) (characteristic_members E X)"
  unfolding adapter_members_def peripheral_members_def service_members_def characteristic_members_def all_members_Cons
  by (intro conjI allI TrueI inv_intros)+

lemma conversions_definedD:
  assumes "conversions_defined X"
  shows "cv_string X v \<noteq> Inl UndefinedBehaviour" "cv_bytes X v \<noteq> Inl UndefinedBehaviour"
    "cv_int X v \<noteq> Inl UndefinedBehaviour" "cv_bool X v \<noteq> Inl UndefinedBehaviour"
    "from_ruby (cv_ruby X) (cv_char_signed X) (cv_endian X) v \<noteq> Inl UndefinedBehaviour" "(Inr v :: rb_value result) \<noteq> Inl UndefinedBehaviour"
  using assms by (simp_all add: conversions_defined_def from_ruby_defined)

lemma safe_manufacturer_data [safe_intros]:
  "ble_defined (e_ble E) \<Longrightarrow> Ref_peripheral p \<in> K \<Longrightarrow> safe (knows E K) (manufacturer_data E p)"
  unfolding manufacturer_data_def by (intro safe_last safe_per_call ble_definedD)

lemma safe_registries [safe_intros]:
  "Ref_adapter i \<in> K \<Longrightarrow> safe (knows E K) (bindA (deref w_adapters i) (\<lambda>x. retA (f1 x)))"
  "Ref_peripheral i \<in> K \<Longrightarrow> safe (knows E K) (bindA (deref w_peripherals i) (\<lambda>x. retA (f2 x)))"
  "Ref_service i \<in> K \<Longrightarrow> safe (knows E K) (bindA (deref w_services i) (\<lambda>x. retA (f3 x)))"
  "Ref_characteristic i \<in> K \<Longrightarrow> safe (knows E K) (bindA (deref w_characteristics i) (\<lambda>x. retA (f4 x)))"
  by (rule safe_deref, assumption, rule safe_basic)+

lemmas safe_members = safe_ans safe_args safe_registries safe_adapter_members safe_scan_results safe_peripheral_members
  safe_peripheral_fields safe_peripheral_to_s safe_manufacturer_data safe_services
  safe_service_members safe_service_fields safe_service_to_s safe_capabilities safe_characteristic_members
  safe_read safe_descriptors safe_index

text \<open>The setters of callbacks need arguments whose parameters are of the kinds the check knows.\<close>

definition plain_args :: "rb_value list \<Rightarrow> bool" where
  "plain_args args \<longleftrightarrow> list_all plain_value args"

lemma safe_callback_args:
  assumes "plain_args args" and "\<And>v. plain_value v \<Longrightarrow> safe P (g v)" and "\<And>v. d = Some v \<Longrightarrow> plain_value v"
  shows "safe P (args1 d Inr g args)"
  using assms by (cases "(d, Inr :: rb_value \<Rightarrow> rb_value result, g, args)" rule: args1.cases)
    (auto simp: plain_args_def safe_def wrong_count_def bindA_def act_simps)

lemma plain_default: "None = Some v \<Longrightarrow> plain_value v" "Some RNil = Some v \<Longrightarrow> plain_value v"
  by (simp_all add: plain_value_def split: rb_value.splits)

lemma safe_tables:
  assumes "ble_defined (e_ble E)" and "quiet_callbacks (e_ble E)" and "conversions_defined X"
  shows "all_members (\<lambda>i args m. plain_args args \<longrightarrow> safe (knows E {Ref_adapter i}) m) (adapter_members E X)"
    and "all_members (\<lambda>i args m. plain_args args \<longrightarrow> safe (knows E {Ref_peripheral i}) m) (peripheral_members E X)"
    and "all_members (\<lambda>i args m. plain_args args \<longrightarrow> safe (knows E {Ref_service i}) m) (service_members E X)"
    and "all_members (\<lambda>i args m. plain_args args \<longrightarrow> safe (knows E {Ref_characteristic i}) m) (characteristic_members E X)"
  unfolding adapter_members_def peripheral_members_def service_members_def characteristic_members_def all_members_Cons
  by (intro conjI allI impI TrueI;
      ((rule safe_callback_args, assumption, rule safe_ans(2), erule safe_setters, rule insertI1, erule plain_default)
       | (intro safe_members assms conversions_definedD [OF assms(3)] insertI1)))+

text \<open>What has to be alive for a call: the receiver, for a descriptor its characteristic, and for a class the registry of adapters.\<close>

fun receiver_ref :: "receiver \<Rightarrow> ref" where
  "receiver_ref (On_adapter a) = Ref_adapter a"
| "receiver_ref (On_peripheral p) = Ref_peripheral p"
| "receiver_ref (On_service s) = Ref_service s"
| "receiver_ref (On_characteristic c) = Ref_characteristic c"
| "receiver_ref (On_descriptor d) = Ref_characteristic (d_owner d)"
| "receiver_ref (On_class v) = Adapter_registry"

lemma graph_send [inv_intros]: "keeps (graph_ok E) (ruby_send E X t recv name args)"
proof -
  have "keeps (graph_ok E) (run args)" if "body_of E X recv name fn = Some run" for fn run
  proof (rule body_cases [OF that, where Q = "\<lambda>r args. keeps (graph_ok E)"])
    show "\<forall>(n, h) \<in> set (descriptor_members E X). \<forall>d args. keeps (graph_ok E) (h d args)"
      unfolding descriptor_members_def by (auto intro!: inv_intros)
    show "\<forall>(n, h) \<in> set (class_members E X). \<forall>v args. keeps (graph_ok E) (h args)"
      unfolding class_members_def by (auto intro!: inv_intros)
  qed (rule graph_tables)+
  then show ?thesis unfolding ruby_send_def by (auto intro!: inv_intros split: option.splits)
qed

lemma safe_send:
  assumes "run_init (Init_interface False) rice_new = Inr t"
    and "ble_defined (e_ble E)" and "conversions_defined X" and "knows E {receiver_ref recv} w" and "plain_args args"
  shows "fst (ruby_send E X t recv name args w) \<noteq> Inl UndefinedBehaviour"
proof -
  have q: "quiet_callbacks (e_ble E)" using assms(4) by (simp add: knows_def graph_ok_def)
  have "plain_args args \<longrightarrow> safe (knows E {receiver_ref recv}) (run args)" if "body_of E X recv name fn = Some run" for fn run
  proof (rule body_cases [OF that, where Q = "\<lambda>r args m. plain_args args \<longrightarrow> safe (knows E {receiver_ref r}) m"])
    show "\<forall>(n, h) \<in> set (descriptor_members E X). \<forall>d args. plain_args args \<longrightarrow> safe (knows E {receiver_ref (On_descriptor d)}) (h d args)"
      unfolding descriptor_members_def descriptor_read_def descriptor_write_def
      using safe_members assms(2) conversions_definedD [OF assms(3)]
      by (auto intro!: safe_members assms(2) conversions_definedD [OF assms(3)] safe_basic(1))
    show "\<forall>(n, h) \<in> set (class_members E X). \<forall>v args. plain_args args \<longrightarrow> safe (knows E {receiver_ref (On_class v)}) (h args)"
      unfolding class_members_def Adapter_bluetooth_enabled_def set_unpair_all_on_exit_def
      by (auto intro!: safe_ans safe_args safe_get_adapters safe_deinit assms(2) safe_ble_call ble_definedD(1)
          conversions_definedD [OF assms(3)] safe_basic)
  qed (simp_all add: safe_tables [OF assms(2) q assms(3)])
  from safeD [OF this [rule_format, OF _ assms(5)] assms(4)]
  show ?thesis unfolding ruby_send_def using interface_bodies [OF assms(1), of recv name _ E X]
    by (auto simp: throwA_def split: option.splits)
qed

subsection \<open>Sessions\<close>

text \<open>
  A session: the extension is loaded, Ruby calls methods of its interface on any receivers with any
  arguments, SimpleBLE changes and reports events, queued callbacks run, and Ruby collects garbage.
\<close>

inductive session_step :: "'b env \<Rightarrow> conversions \<Rightarrow> rice \<Rightarrow> 'b world \<Rightarrow> 'b world \<Rightarrow> bool"
  for E :: "'b env" and X :: conversions and t :: rice where
  load: "session_step E X t w (snd (Init_Registries E w))"
| send: "session_step E X t w (snd (ruby_send E X t recv name args w))"
| event: "session_step E X t w (snd (on_ble_event ev w))"
| item: "session_step E X t w (snd (run_item E i w))"
| gc: "session_step E X t w (w\<lparr>w_during_gc := b\<rparr>)"
| simpleble: "session_step E X t w (w\<lparr>w_ble := b'\<rparr>)"

lemma graph_session_step: "session_step E X t w w' \<Longrightarrow> graph_ok E w \<Longrightarrow> graph_ok E w'"
proof (induction rule: session_step.induct)
  case (gc w b)
  then show ?case by (simp add: graph_ok_def world_ok_def objects_ok_defs)
qed (simp_all add: keepsD [OF graph_init_registries] keepsD [OF graph_send] keepsD [OF graph_event] keepsD [OF graph_run_item])

interpretation session: inductive_invariant "prog_init E" "session_step E X t" "graph_ok E" for E X t
  by unfold_locales (erule graph_prog_init, erule (1) graph_session_step [rotated])

subsection \<open>A session by hand\<close>

definition sample_conversions :: conversions where
  "sample_conversions = \<lparr>cv_string = (\<lambda>v. case v of RString s \<Rightarrow> Inr (bytes_text s) | _ \<Rightarrow> Inl (ForeignException ''TypeError'')),
     cv_bytes = (\<lambda>v. case v of RByteArray d \<Rightarrow> Inr (ByteArray d) | _ \<Rightarrow> Inl (ForeignException ''TypeError'')),
     cv_int = (\<lambda>v. case v of RInteger i \<Rightarrow> Inr i | _ \<Rightarrow> Inl (ForeignException ''TypeError'')),
     cv_bool = (\<lambda>v. Inr (rb_test v)),
     cv_start = (\<lambda>r. ''#<Object''),
     cv_ruby = sample_ruby, cv_char_signed = True, cv_endian = x86_endian\<rparr>"

lemma sample_conversions_defined: "conversions_defined sample_conversions"
  by (simp add: conversions_defined_def sample_conversions_def sample_ruby_def split: rb_value.splits)

lemma sample_ble_defined: "ble_defined (e_ble sample_env)"
  by (simp add: ble_defined_def defined_def sample_env_def sample_ble_def act_simps)

lemma bound_get_adapters:
  assumes "run_init (Init_interface False) rice_new = Inr t"
  shows "bound_fn t (On_class Rb_cAdapter) ''get_adapters'' = Some (Static C_Adapter ''get_ruby_adapters'')"
  using run_singletons [OF assms] by (simp add: init_scripts rice_new_def)

definition session_world :: "trace world" where
  "session_world = snd (get_ruby_adapters sample_env (snd (Init_Registries sample_env (world_blank []))))"

lemma session_world_reachable:
  assumes "run_init (Init_interface False) rice_new = Inr t"
  shows "reachable (prog_init sample_env) (session_step sample_env X t) session_world"
proof -
  let ?w = "snd (Init_Registries sample_env (world_blank []))"
  have "reachable (prog_init sample_env) (session_step sample_env X t) (world_blank [])"
    by (rule reach_init) (use sample_quiet in \<open>auto simp: prog_init_def\<close>)
  then have "reachable (prog_init sample_env) (session_step sample_env X t) ?w"
    by (rule reach_step) (rule session_step.load)
  then have "reachable (prog_init sample_env) (session_step sample_env X t)
      (snd (ruby_send sample_env X t (On_class Rb_cAdapter) ''get_adapters'' [] ?w))"
    by (rule reach_step) (rule session_step.send)
  moreover have "snd (ruby_send sample_env X t (On_class Rb_cAdapter) ''get_adapters'' [] ?w) = session_world"
    unfolding ruby_send_def bound_get_adapters [OF assms] session_world_def
    by (simp add: class_members_def ans_def bindA_def retA_def split: prod.splits sum.splits)
  ultimately show ?thesis by simp
qed

lemma session_world_adapter: "live (w_adapters session_world) 0 \<noteq> None"
proof -
  have "Option.is_none (live (w_adapters session_world) 0) = False" by code_simp
  then show ?thesis by (simp add: Option.is_none_def)
qed

subsection \<open>Properties\<close>




lemma bound_descriptors:
  assumes "run_init (Init_interface False) rice_new = Inr t"
  shows "bound_fn t (On_characteristic c) ''descriptors'' = Some (Attribute C_Characteristic ''_descriptors'')"
    and "bound_fn t (On_characteristic c) ''[]'' = Some (Member C_Characteristic ''operator[]'')"
  unfolding bound_fn.simps class_of.simps method_of_def run_methods [OF assms] Init_interface_def defined_methods_append
  by (simp_all add: Init_Registries_interface_def Init_DeInit_def del: append.simps)

lemma descriptors_reader:
  assumes "run_init (Init_interface False) rice_new = Inr t" and "live (w_characteristics w) c = Some ch"
  shows "ruby_send E X t (On_characteristic c) ''descriptors'' [] w = (Inr (R_descriptors (c_descriptors ch)), w)"
  unfolding ruby_send_def bound_descriptors(1) [OF assms(1)]
  using assms(2) by (simp add: find_member_def characteristic_members_def bindA_def deref_def retA_def)

lemma index_call:
  assumes "run_init (Init_interface False) rice_new = Inr t"
  shows "ruby_send E X t (On_characteristic c) ''[]'' [v] =
    bindA (liftA (cv_string X v)) (\<lambda>u. ans R_descriptor (characteristic_index c u))"
  unfolding ruby_send_def bound_descriptors(2) [OF assms] by (simp add: find_member_def characteristic_members_def)

lemma index_fills_cache:
  assumes "characteristic_index c u w = (Inr d, w')"
  shows "\<exists>ch m. live (w_characteristics w') c = Some ch \<and> c_descriptors ch = Some m \<and> map_find m u = Some d"
  using assms
  by (auto simp: characteristic_index_def seqA_def act_simps deref_def elim!: bindA_InrE split: option.splits if_splits)

text \<open>The characteristic of the sample with one descriptor, 2902, not asked for yet.\<close>

definition described_world :: "trace world" where
  "described_world = set_characteristic 0 (\<lambda>ch. ch\<lparr>c_ble := (c_ble ch)\<lparr>bc_descriptors := [''2902'']\<rparr>\<rparr>) sample_world"

text \<open>
  C20. The Ruby method \<open>descriptors\<close> of a live characteristic answers the cache and asks nobody: \<open>nil\<close> until
  something else has filled it. The index operator is what does so: after a call of it that answered,
  \<open>descriptors\<close> has them.
\<close>

theorem descriptors_method_reads_cache:
  assumes "run_init (Init_interface False) rice_new = Inr t" and "live (w_characteristics w) c = Some ch"
  shows "ruby_send E X t (On_characteristic c) ''descriptors'' [] w = (Inr (R_descriptors (c_descriptors ch)), w) \<and>
    (\<forall>v d w'. ruby_send E X t (On_characteristic c) ''[]'' [v] w = (Inr (R_descriptor d), w') \<longrightarrow>
      (\<exists>u m. cv_string X v = Inr u \<and> map_find m u = Some d \<and>
        ruby_send E X t (On_characteristic c) ''descriptors'' [] w' = (Inr (R_descriptors (Some m)), w')))"
proof (intro conjI allI impI)
  show "ruby_send E X t (On_characteristic c) ''descriptors'' [] w = (Inr (R_descriptors (c_descriptors ch)), w)"
    by (rule descriptors_reader [OF assms])
next
  fix v d w' assume "ruby_send E X t (On_characteristic c) ''[]'' [v] w = (Inr (R_descriptor d), w')"
  then obtain u where u: "cv_string X v = Inr u" and "characteristic_index c u w = (Inr d, w')"
    unfolding index_call [OF assms(1)] by (auto simp: ans_def act_simps elim!: bindA_InrE)
  from index_fills_cache [OF this(2)] obtain ch' m where m: "live (w_characteristics w') c = Some ch'"
    "c_descriptors ch' = Some m" "map_find m u = Some d" by blast
  show "\<exists>u m. cv_string X v = Inr u \<and> map_find m u = Some d \<and>
      ruby_send E X t (On_characteristic c) ''descriptors'' [] w' = (Inr (R_descriptors (Some m)), w')"
    using descriptors_reader [OF assms(1) m(1), of E X] m(2,3) u by auto
qed

theorem descriptors_method_reads_cache_witness:
  "\<exists>t m w'. ruby_send sample_env sample_conversions t (On_characteristic 0) ''descriptors'' [] described_world
       = (Inr (R_descriptors None), described_world) \<and>
     ruby_send sample_env sample_conversions t (On_characteristic 0) ''descriptors'' [] w' = (Inr (R_descriptors (Some m)), w')"
proof -
  obtain t where t: "run_init (Init_interface False) rice_new = Inr t" using run_interface [of False] by blast
  have "map_option c_descriptors (live (w_characteristics described_world) 0) = Some None" by code_simp
  then obtain ch where ch: "live (w_characteristics described_world) 0 = Some ch" "c_descriptors ch = None" by auto
  have "bytes_text (map of_nat [50, 57, 48, 50]) = ''2902''" by code_simp
  moreover have "isl (fst (characteristic_index 0 ''2902'' described_world)) = False" by code_simp
  then obtain d w' where "characteristic_index 0 ''2902'' described_world = (Inr d, w')"
    by (metis isl_def prod.collapse sum.exhaust)
  ultimately have call: "ruby_send sample_env sample_conversions t (On_characteristic 0) ''[]''
      [RString (map of_nat [50, 57, 48, 50])] described_world = (Inr (R_descriptor d), w')"
    unfolding index_call [OF t] by (simp add: sample_conversions_def ans_def bindA_def act_simps)
  note reads = descriptors_method_reads_cache [OF t ch(1), of sample_env sample_conversions]
  from reads [THEN conjunct2, rule_format, OF call] obtain m where
    "ruby_send sample_env sample_conversions t (On_characteristic 0) ''descriptors'' [] w' = (Inr (R_descriptors (Some m)), w')"
    by blast
  with reads [THEN conjunct1] ch(2) show ?thesis by metis
qed

lemma dead_characteristic_fires:
  "live (w_characteristics w) c = None \<Longrightarrow> fire_on_notify E c d w = (Inl UndefinedBehaviour, w)"
  by (simp add: fire_on_notify_def characteristic_record_def has_capability_def capabilities_def bindA_def deref_def)

text \<open>The two subscriptions of a constructor, the second of which fails.\<close>

lemma body_second_fails:
  assumes "live (w_characteristics w) c = Some ch" and "c_capabilities ch = None"
    and "live (w_services w) s = Some sv" and "live (w_peripherals w) (s_owner sv) = Some per"
    and "nbs_of_list CAPABILITY_NAMES (bc_capabilities (c_ble ch)) = Inr bits"
    and "nbs_get CAPABILITY_NAMES bits ''notify'' = Inr True" and "nbs_get CAPABILITY_NAMES bits ''indicate'' = Inr True"
    and "pe_notify (e_ble E) (p_ble per) (s_uuid sv) u (CbNotify c) (w_ble w) = (Inr (), b)"
    and "pe_indicate (e_ble E) (p_ble per) (s_uuid sv) u (CbIndicate c) b = (Inl e, b')"
  shows "characteristic_body E c s u w =
    (Inl e, (set_characteristic c (\<lambda>ch. ch\<lparr>c_capabilities := Some bits\<rparr>) w)\<lparr>w_ble := b'\<rparr>)"
  using assms by (cases w) (simp add: characteristic_body_def has_capability_def capabilities_def service_notify_def
      service_indicate_def peripheral_notify_def peripheral_indicate_def bindA_def seqA_def deref_def act_simps
      ble_call_def set_characteristic_def)

text \<open>
  C22. A characteristic whose subscription to indications fails after that to notifications was made is
  destroyed, but SimpleBLE keeps the callback with the pointer to it: the next notification it reports
  is queued, and running it uses the dead object.
\<close>

theorem failed_characteristic_dangles:
  assumes "live (w_services w) s = Some sv" and "live (w_peripherals w) (s_owner sv) = Some per"
    and "nbs_of_list CAPABILITY_NAMES (bc_capabilities v) = Inr bits"
    and "nbs_get CAPABILITY_NAMES bits ''notify'' = Inr True" and "nbs_get CAPABILITY_NAMES bits ''indicate'' = Inr True"
    and "pe_notify (e_ble E) (p_ble per) (s_uuid sv) (bc_uuid v) (CbNotify (length (w_characteristics w))) (w_ble w) = (Inr (), b)"
    and "pe_indicate (e_ble E) (p_ble per) (s_uuid sv) (bc_uuid v) (CbIndicate (length (w_characteristics w))) b = (Inl e, b')"
  shows "\<exists>w'. new_characteristic E v (Some s) w = (Inl e, w') \<and> w_ble w' = b' \<and>
    fst (run_item E (ItNotify (length (w_characteristics w)) d) w') = Inl UndefinedBehaviour"
proof -
  let ?c = "length (w_characteristics w)"
  let ?x = "\<lparr>c_tracker = tracker_new None, c_owner = s, c_ble = v, c_uuid = bc_uuid v, c_on_notify = None,
      c_on_indicate = None, c_capabilities = None, c_descriptors = None, c_self = RObject (w_next_value w)\<rparr>"
  let ?w1 = "w\<lparr>w_next_value := w_next_value w + 1, w_characteristics := w_characteristics w @ [Some ?x]\<rparr>"
  have run: "new_characteristic E v (Some s) w =
      in_ctor w_characteristics_update ?c (characteristic_body E ?c s (bc_uuid v)) ?w1"
    by (cases w) (simp add: new_characteristic_def bindA_def seqA_def alloc_def new_rb_value_def act_simps)
  have body: "characteristic_body E ?c s (bc_uuid v) ?w1 =
      (Inl e, (set_characteristic ?c (\<lambda>ch. ch\<lparr>c_capabilities := Some bits\<rparr>) ?w1)\<lparr>w_ble := b'\<rparr>)"
    by (rule body_second_fails [where ch = ?x]) (use assms in simp_all)
  show ?thesis unfolding run in_ctor_def body
    by (simp add: dead_characteristic_fires live_drop)
qed

theorem failed_characteristic_dangles_witness:
  "\<exists>w'. new_characteristic (sample_env\<lparr>e_ble := sample_ble\<lparr>pe_indicate := \<lambda>h s c cb. throwA (RuntimeError ''no indications'')\<rparr>\<rparr>)
       \<lparr>bc_uuid = ''2a37'', bc_capabilities = [''notify'', ''indicate''], bc_descriptors = []\<rparr> (Some 0) sample_world
       = (Inl (RuntimeError ''no indications''), w') \<and>
     fst (run_item (sample_env\<lparr>e_ble := sample_ble\<lparr>pe_indicate := \<lambda>h s c cb. throwA (RuntimeError ''no indications'')\<rparr>\<rparr>)
       (ItNotify (length (w_characteristics sample_world)) (ByteArray [7])) w') = Inl UndefinedBehaviour"
proof -
  obtain sv where sv: "live (w_services sample_world) 0 = Some sv" "s_owner sv = 0"
    using sample_objects(1) by auto
  have "Option.is_none (live (w_peripherals sample_world) 0) = False" by code_simp
  then obtain per where per: "live (w_peripherals sample_world) (s_owner sv) = Some per"
    using sv(2) by (auto simp: Option.is_none_def)
  let ?E = "sample_env\<lparr>e_ble := sample_ble\<lparr>pe_indicate := \<lambda>h s c cb. throwA (RuntimeError ''no indications'')\<rparr>\<rparr>"
  let ?v = "\<lparr>bc_uuid = ''2a37'', bc_capabilities = [''notify'', ''indicate''], bc_descriptors = []\<rparr>"
  let ?bits = "[False, False, False, True, True]"
  have bits: "nbs_of_list CAPABILITY_NAMES [''notify'', ''indicate''] = Inr ?bits"
    "nbs_get CAPABILITY_NAMES ?bits ''notify'' = Inr True" "nbs_get CAPABILITY_NAMES ?bits ''indicate'' = Inr True"
    by code_simp+
  have "\<exists>w'. new_characteristic ?E ?v (Some 0) sample_world = (Inl (RuntimeError ''no indications''), w') \<and>
      w_ble w' = w_ble sample_world \<and>
      fst (run_item ?E (ItNotify (length (w_characteristics sample_world)) (ByteArray [7])) w') = Inl UndefinedBehaviour"
    by (rule failed_characteristic_dangles [OF sv(1) per, of ?v ?bits])
      (simp_all add: bits sample_env_def sample_ble_def act_simps)
  then show ?thesis by blast
qed

end
