(* ===== verification/Callback_Safety.thy ===== *)
theory Callback_Safety imports Ruby_Sessions begin

text \<open>
  The other way into the program: SimpleBLE calls back through closures that captured the address of a
  proxy, and the queue runs callbacks that did. What SimpleBLE holds is a function of its state. If it
  calls only what it was given, and no subscription to indications fails, then everything it holds and
  everything in the queue leads to a live proxy, and neither an event nor a queued callback has
  undefined behaviour.
\<close>

subsection \<open>What a callback captured\<close>

fun target :: "ble_callback \<Rightarrow> ref" where
  "target (CbScanStart a) = Ref_adapter a"
| "target (CbScanStop a) = Ref_adapter a"
| "target (CbScanUpdated a) = Ref_adapter a"
| "target (CbScanFound a) = Ref_adapter a"
| "target (CbConnected p) = Ref_peripheral p"
| "target (CbDisconnected p) = Ref_peripheral p"
| "target (CbNotify c) = Ref_characteristic c"
| "target (CbIndicate c) = Ref_characteristic c"

fun item_target :: "item \<Rightarrow> ref" where
  "item_target (ItScanStart a) = Ref_adapter a"
| "item_target (ItScanStop a) = Ref_adapter a"
| "item_target (ItScanUpdate a h) = Ref_adapter a"
| "item_target (ItScanFind a h) = Ref_adapter a"
| "item_target (ItConnected p) = Ref_peripheral p"
| "item_target (ItDisconnected p) = Ref_peripheral p"
| "item_target (ItNotify c d) = Ref_characteristic c"
| "item_target (ItIndicate c d) = Ref_characteristic c"

text \<open>The closure through which an event reaches the program.\<close>

fun event_callback :: "ble_event \<Rightarrow> ble_callback" where
  "event_callback (ScanStarted a) = CbScanStart a"
| "event_callback (ScanStopped a) = CbScanStop a"
| "event_callback (ScanUpdated a h) = CbScanUpdated a"
| "event_callback (ScanFound a h) = CbScanFound a"
| "event_callback (Connected p) = CbConnected p"
| "event_callback (Disconnected p) = CbDisconnected p"
| "event_callback (Notified c d) = CbNotify c"
| "event_callback (Indicated c d) = CbIndicate c"

subsection \<open>What SimpleBLE holds\<close>

text \<open>
  Documented: SimpleBLE keeps a callback only when it is given one by a registration that succeeds. That
  a subscription to indications does not fail is the case the constructor of a characteristic does not
  handle.
\<close>

definition shrinks :: "('b \<Rightarrow> ble_callback set) \<Rightarrow> 'b \<Rightarrow> 'b \<Rightarrow> bool" where
  "shrinks given b b' \<longleftrightarrow> given b' \<subseteq> given b"

definition registers :: "('b \<Rightarrow> ble_callback set) \<Rightarrow> ble_callback \<Rightarrow> ('b, unit) act \<Rightarrow> bool" where
  "registers given cb f \<longleftrightarrow> (\<forall>b. given (snd (f b)) \<subseteq> insert cb (given b) \<and>
     (isl (fst (f b)) \<longrightarrow> given (snd (f b)) \<subseteq> given b))"

definition ble_callbacks :: "('b \<Rightarrow> ble_callback set) \<Rightarrow> 'b ble \<Rightarrow> bool" where
  "ble_callbacks given B \<longleftrightarrow> ble_within (shrinks given) B \<and> quiet_callbacks B \<and>
     (\<forall>h u v cb. registers given cb (pe_set_callback B h cb) \<and> registers given cb (ad_set_callback B h cb) \<and>
        registers given cb (pe_notify B h u v cb) \<and> registers given cb (pe_indicate B h u v cb)) \<and>
     (\<forall>h u v cb b. \<not> isl (fst (pe_indicate B h u v cb b)))"

definition callbacks_alive :: "('b \<Rightarrow> ble_callback set) \<Rightarrow> 'b world \<Rightarrow> bool" where
  "callbacks_alive given w \<longleftrightarrow> (\<forall>cb \<in> given (w_ble w). alive w (target cb)) \<and> (\<forall>i \<in> set (w_pushed w). alive w (item_target i))"

text \<open>The property is that this holds when SimpleBLE is as documented.\<close>

definition callbacks_kept :: "('b \<Rightarrow> ble_callback set) \<Rightarrow> 'b env \<Rightarrow> 'b world \<Rightarrow> bool" where
  "callbacks_kept given E w \<longleftrightarrow> (ble_callbacks given (e_ble E) \<longrightarrow> callbacks_alive given w)"

lemma callbacks_alive_mono:
  assumes "callbacks_alive given w" and "\<And>k. alive w k \<Longrightarrow> alive w' k"
    and "given (w_ble w') \<subseteq> given (w_ble w)" and "w_pushed w' = w_pushed w"
  shows "callbacks_alive given w'"
  using assms by (auto simp: callbacks_alive_def)

lemma callbacks_kept_mono:
  assumes "callbacks_kept given E w" and "\<And>k. alive w k \<Longrightarrow> alive w' k"
    and "w_ble w' = w_ble w" and "w_pushed w' = w_pushed w"
  shows "callbacks_kept given E w'"
  using assms callbacks_alive_mono [of given w w'] by (auto simp: callbacks_kept_def)

lemma alive_frame:
  "alive (w\<lparr>w_ble := b\<rparr>) k = alive w k" "alive (w\<lparr>w_next_value := n\<rparr>) k = alive w k"
  "alive (w\<lparr>w_calls := cs\<rparr>) k = alive w k" "alive (w\<lparr>w_deinit_called := d\<rparr>) k = alive w k"
  "alive (w\<lparr>w_queue_stopped := d\<rparr>) k = alive w k" "alive (w\<lparr>w_unpair_all_on_exit := d\<rparr>) k = alive w k"
  "alive (w\<lparr>w_pushed := ps\<rparr>) k = alive w k" "alive (w\<lparr>w_during_gc := d\<rparr>) k = alive w k"
  by (cases k; simp)+

subsection \<open>The constructors\<close>

text \<open>
  Up to the body of a constructor nothing is registered, and the number the object was given stays
  reserved.
\<close>

definition reserved :: "('b \<Rightarrow> ble_callback set) \<Rightarrow> ('b world \<Rightarrow> 'o option list) \<Rightarrow> nat \<Rightarrow> 'b world \<Rightarrow> bool" where
  "reserved given store i w \<longleftrightarrow> callbacks_alive given w \<and> i < length (store w) \<and> live (store w) i = None"

definition leads :: "('w \<Rightarrow> bool) \<Rightarrow> ('w \<Rightarrow> bool) \<Rightarrow> ('w, 'a) act \<Rightarrow> bool" where
  "leads P Q m \<longleftrightarrow> (\<forall>w. P w \<longrightarrow> Q (snd (m w)))"

lemma leads_bindA: "keeps P m \<Longrightarrow> (\<And>x. leads P Q (f x)) \<Longrightarrow> (\<And>w. P w \<Longrightarrow> Q w) \<Longrightarrow> leads P Q (bindA m f)"
  by (fastforce simp: leads_def keeps_def bindA_def split: prod.splits sum.splits)

lemma reserved_alive: "reserved given store i w \<Longrightarrow> callbacks_alive given w"
  by (simp add: reserved_def)

lemma keeps_alloc:
  fixes store :: "'b world \<Rightarrow> 'o option list"
  assumes "\<And>i. leads (reserved given store i) (callbacks_alive given) (f i)"
    and "\<And>(w :: 'b world) k. alive (upd (\<lambda>s. s @ [None]) w) k = alive w k"
    and "\<And>w :: 'b world. w_ble (upd (\<lambda>s. s @ [None]) w) = w_ble w \<and> w_pushed (upd (\<lambda>s. s @ [None]) w) = w_pushed w \<and>
      store (upd (\<lambda>s. s @ [None]) w) = store w @ [None]"
  shows "keeps (callbacks_alive given) (bindA (alloc store upd) f)"
proof (rule keepsI)
  fix w :: "'b world" assume "callbacks_alive given w"
  then have "reserved given store (length (store w)) (upd (\<lambda>s. s @ [None]) w)"
    using assms(2,3) by (simp add: reserved_def callbacks_alive_def)
  then show "callbacks_alive given (snd (bindA (alloc store upd) f w))"
    using assms(1) by (simp add: leads_def bindA_def alloc_def)
qed

lemma reserved_mono:
  assumes "reserved given store i w" and "\<And>k. alive w k \<Longrightarrow> alive w' k"
    and "given (w_ble w') \<subseteq> given (w_ble w)" and "w_pushed w' = w_pushed w" and "store w' = store w"
  shows "reserved given store i w'"
  using assms callbacks_alive_mono [of given w w'] by (auto simp: reserved_def)

lemma reserved_new_rb_value: "(\<And>n w. store (w\<lparr>w_next_value := n\<rparr>) = store w) \<Longrightarrow> keeps (reserved given store i) new_rb_value"
  by (rule keepsI, erule reserved_mono) (simp_all add: new_rb_value_def alive_frame)

lemma reserved_ble_call:
  assumes "within (shrinks given) m" and "\<And>b w. store (w\<lparr>w_ble := b\<rparr>) = store w"
  shows "keeps (reserved given store i) (ble_call m)"
proof (rule keepsI, erule reserved_mono)
  fix w :: "'a world"
  show "given (w_ble (snd (ble_call m w))) \<subseteq> given (w_ble w)"
    using assms(1) by (auto simp: ble_call_def within_def shrinks_def split: prod.splits) (metis snd_conv subsetD)
qed (use assms(2) in \<open>auto simp: ble_call_def alive_frame split: prod.splits\<close>)

lemma reserved_factory:
  assumes "\<And>n w. store (w\<lparr>w_next_value := n\<rparr>) = store w"
    and "\<And>g w. store (pc_upd C g w) = store w \<and> w_ble (pc_upd C g w) = w_ble w \<and> w_pushed (pc_upd C g w) = w_pushed w"
    and "\<And>g w k. (\<And>f. length (fac_regs f) \<le> length (fac_regs (g f))) \<Longrightarrow> alive w k \<Longrightarrow> alive (pc_upd C g w) k"
  shows "keeps (reserved given store i) (factory_registry C index owner new_rb_value)"
proof -
  have "keeps (reserved given store i) (modifyA (pc_upd C g))" if "\<And>f. length (fac_regs f) \<le> length (fac_regs (g f))" for g
    by (rule keepsI, erule reserved_mono) (use assms(2,3) that in \<open>auto simp: act_simps\<close>)
  then show ?thesis unfolding factory_registry_def
    by (intro inv_intros reserved_new_rb_value assms(1)) simp
qed

text \<open>
  The rest of a constructor: the object is there, and its body runs; an exception takes the object away
  again, which is harmless when nothing new was registered.
\<close>

definition ctor_body :: "('b \<Rightarrow> ble_callback set) \<Rightarrow> ref \<Rightarrow> ('b world, unit) act \<Rightarrow> bool" where
  "ctor_body given r body \<longleftrightarrow> (\<forall>K. keeps (has K) body) \<and>
     (\<forall>w. callbacks_alive given w \<longrightarrow> alive w r \<longrightarrow> callbacks_alive given (snd (body w)) \<and>
        (isl (fst (body w)) \<longrightarrow> given (w_ble (snd (body w))) \<subseteq> given (w_ble w) \<and> w_pushed (snd (body w)) = w_pushed w))"

lemma leads_ctor:
  fixes store :: "'b world \<Rightarrow> 'o option list"
  assumes body: "ctor_body given (ref i) body"
    and fill: "\<And>(w :: 'b world) k. alive w k \<Longrightarrow> alive (upd (\<lambda>s. s[i := Some x]) w) k"
      "\<And>w :: 'b world. i < length (store w) \<Longrightarrow> alive (upd (\<lambda>s. s[i := Some x]) w) (ref i)"
    and undo: "\<And>(w :: 'b world) k. alive w k \<Longrightarrow> k \<noteq> ref i \<Longrightarrow> alive (upd (\<lambda>s. s[i := None]) w) k"
    and dead: "\<And>w :: 'b world. live (store w) i = None \<Longrightarrow> \<not> alive w (ref i)"
    and frame: "\<And>(w :: 'b world) g. w_ble (upd g w) = w_ble w \<and> w_pushed (upd g w) = w_pushed w"
  shows "leads (reserved given store i) (callbacks_alive given)
    (seqA (modifyA (upd (\<lambda>s. s[i := Some x]))) (in_ctor upd i body))"
  unfolding leads_def
proof (intro allI impI)
  fix w :: "'b world" assume w: "reserved given store i w"
  let ?v = "upd (\<lambda>s. s[i := Some x]) w"
  obtain r u where run: "body ?v = (r, u)" by fastforce
  have v: "callbacks_alive given ?v" "alive ?v (ref i)"
    using callbacks_alive_mono [OF reserved_alive [OF w], of ?v] w fill frame by (auto simp: reserved_def)
  have out: "callbacks_alive given u" "isl r \<Longrightarrow> given (w_ble u) \<subseteq> given (w_ble ?v) \<and> w_pushed u = w_pushed ?v"
    using body v run unfolding ctor_body_def by fastforce+
  have mono: "alive u k" if "alive w k" for k
  proof -
    have "keeps (has {k}) body" using body by (simp add: ctor_body_def)
    from keepsD [OF this, of ?v] show ?thesis using fill(1) [OF that] run by (simp add: has_def)
  qed
  have "callbacks_alive given (upd (\<lambda>s. s[i := None]) u)" if "isl r"
  proof (rule callbacks_alive_mono [OF reserved_alive [OF w]])
    show "alive (upd (\<lambda>s. s[i := None]) u) k" if "alive w k" for k
      using undo [OF mono [OF that]] dead w that by (auto simp: reserved_def)
  qed (use out(2) [OF that] frame in auto)
  then show "callbacks_alive given (snd (seqA (modifyA (upd (\<lambda>s. s[i := Some x]))) (in_ctor upd i body) w))"
    using out(1) run by (cases r) (simp_all add: seqA_def bindA_def act_simps in_ctor_def)
qed

text \<open>A body that only registers callbacks of the object, none of which fails.\<close>

lemma registers_kept:
  assumes "registers given cb m" and "alive w (target cb)" and "callbacks_alive given w"
  shows "callbacks_alive given (snd (ble_call m w))"
  using assms unfolding registers_def callbacks_alive_def ble_call_def
  by (auto simp: alive_frame split: prod.splits) (metis insertE snd_conv subsetD)

lemma ctor_body_register:
  assumes "registers given cb m" and "target cb = r" and "\<And>b. \<not> isl (fst (m b))"
  shows "ctor_body given r (ble_call m)"
  using assms registers_kept [OF assms(1)]
  by (auto simp: ctor_body_def ble_call_def intro!: inv_intros split: prod.splits) (metis fst_conv)+

lemma ctor_body_seqA:
  assumes "ctor_body given r m" and "ctor_body given r n" and "\<And>w. \<not> isl (fst (m w))" and "\<And>w. \<not> isl (fst (n w))"
  shows "ctor_body given r (seqA m n)"
proof -
  have has: "keeps (has K) m" "keeps (has K) n" for K using assms(1,2) by (simp_all add: ctor_body_def)
  have "callbacks_alive given (snd (seqA m n w)) \<and> \<not> isl (fst (seqA m n w))" if w: "callbacks_alive given w" "alive w r" for w
  proof -
    obtain u v where m: "m w = (Inr u, v)" using assms(3) [of w] by (metis prod.collapse isl_def sum.exhaust)
    have "alive v r" using keepsD [OF has(1), of "{r}" w] w(2) m by (simp add: has_def)
    moreover have "callbacks_alive given v" using assms(1) w m unfolding ctor_body_def by fastforce
    ultimately show ?thesis using assms(2,4) m unfolding ctor_body_def by (simp add: seqA_def bindA_def)
  qed
  then show ?thesis using has by (auto simp: ctor_body_def intro!: inv_intros)
qed

subsection \<open>The four classes\<close>

lemma ble_callbacksD:
  assumes "ble_callbacks given B"
  shows "ble_within (shrinks given) B" "registers given cb (pe_set_callback B h cb)"
    "registers given cb (ad_set_callback B h cb)" "registers given cb (pe_notify B h u v cb)"
    "registers given cb (pe_indicate B h u v cb)" "\<not> isl (fst (pe_indicate B h u v cb b))"
    "\<not> isl (fst (pe_set_callback B h cb b))" "\<not> isl (fst (ad_set_callback B h cb b))"
proof -
  show "\<not> isl (fst (pe_set_callback B h cb b))" "\<not> isl (fst (ad_set_callback B h cb b))"
    using assms unfolding ble_callbacks_def quiet_callbacks_def by (metis fst_conv isl_def sum.distinct(1))+
qed (use assms in \<open>auto simp: ble_callbacks_def\<close>)

lemma ble_call_isl: "isl (fst (ble_call m w)) = isl (fst (m (w_ble w)))"
  by (simp add: ble_call_def split: prod.splits)

lemma seqA_not_isl: "(\<And>w. \<not> isl (fst (m w))) \<Longrightarrow> (\<And>w. \<not> isl (fst (n w))) \<Longrightarrow> \<not> isl (fst (seqA m n w))"
  by (auto simp: seqA_def bindA_def split: prod.splits sum.splits) (metis fst_conv sum.disc(1))

lemma alive_registries:
  "(\<And>f. length (fac_regs f) \<le> length (fac_regs (g f))) \<Longrightarrow> alive w k \<Longrightarrow> alive (pc_upd (characteristic_class E) g w) k"
  "(\<And>f. length (fac_regs f) \<le> length (fac_regs (g f))) \<Longrightarrow> alive w k \<Longrightarrow> alive (pc_upd (service_class E) g w) k"
  "(\<And>f. length (fac_regs f) \<le> length (fac_regs (g f))) \<Longrightarrow> alive w k \<Longrightarrow> alive (pc_upd (peripheral_class E) g w) k"
  by (simp_all add: characteristic_class_def service_class_def peripheral_class_def alive_factory)

lemma keeps_leads: "keeps P m \<Longrightarrow> (\<And>w. P w \<Longrightarrow> Q w) \<Longrightarrow> leads P Q m"
  by (simp add: leads_def keeps_def)

lemma alive_extend:
  "alive (w_characteristics_update (\<lambda>s. s @ [None]) w) k = alive w k" "alive (w_services_update (\<lambda>s. s @ [None]) w) k = alive w k"
  "alive (w_peripherals_update (\<lambda>s. s @ [None]) w) k = alive w k" "alive (w_adapters_update (\<lambda>s. s @ [None]) w) k = alive w k"
  by (cases k; simp)+

lemma new_service_callbacks: "keeps (callbacks_alive given) (new_service E v owner)"
proof -
  have reg: "keeps (reserved given w_services s) (factory_registry (characteristic_class E) index (Some s) new_rb_value)" for s index
    by (rule reserved_factory) (simp_all add: alive_registries, simp_all add: characteristic_class_def)
  have self: "keeps (reserved given w_services s) new_rb_value" for s by (rule reserved_new_rb_value) simp
  have fill: "leads (reserved given w_services s) (callbacks_alive given)
      (seqA (modifyA (w_services_update (\<lambda>st. st[s := Some x]))) (retA s))" for s x
    unfolding leads_def
    by (auto simp: seqA_def bindA_def act_simps elim!: callbacks_alive_mono [OF reserved_alive] intro: alive_fill)
  show ?thesis unfolding new_service_def
    by (rule keeps_option, rule keeps_basic, rule keeps_alloc)
      (intro leads_bindA reg self fill reserved_alive, simp_all add: alive_extend)
qed

lemma new_peripheral_callbacks:
  assumes "ble_callbacks given (e_ble E)"
  shows "keeps (callbacks_alive given) (new_peripheral E h owner)"
proof -
  note B = ble_callbacksD [OF assms] and calm = ble_withinD [OF ble_callbacksD(1) [OF assms]]
  have calls: "keeps (reserved given w_peripherals p) (ble_call (pe_address (e_ble E) h))"
    "keeps (reserved given w_peripherals p) (ble_call (pe_address_type (e_ble E) h))" for p
    by (intro reserved_ble_call calm; simp)+
  have self: "keeps (reserved given w_peripherals p) new_rb_value" for p by (rule reserved_new_rb_value) simp
  have "keeps (reserved given w_peripherals p) (factory_registry (service_class E) index (Some p) new_rb_value)" for p index
    by (rule reserved_factory) (simp_all add: alive_registries, simp_all add: service_class_def)
  then have reg: "keeps (reserved given w_peripherals p) (peripheral_registry_of E h p)" for p
    unfolding peripheral_registry_of_def by (intro inv_intros calls)
  have "ctor_body given (Ref_peripheral p) (seqA (ble_call (pe_set_callback (e_ble E) h (CbConnected p)))
      (ble_call (pe_set_callback (e_ble E) h (CbDisconnected p))))" for p
    by (rule ctor_body_seqA; (rule ctor_body_register [OF B(2)])?; simp add: ble_call_isl B)
  note body = leads_ctor [OF this, where upd = w_peripherals_update and store = w_peripherals]
  show ?thesis unfolding new_peripheral_def
    by (rule keeps_option, rule keeps_basic, rule keeps_alloc)
      (intro leads_bindA calls reg self body reserved_alive, simp_all add: alive_extend alive_fill alive_undo live_def)
qed

lemma new_adapter_callbacks:
  assumes "ble_callbacks given (e_ble E)"
  shows "keeps (callbacks_alive given) (new_adapter E h owner)"
proof -
  note B = ble_callbacksD [OF assms] and calm = ble_withinD [OF ble_callbacksD(1) [OF assms]]
  have call: "keeps (reserved given w_adapters a) (ble_call (ad_address (e_ble E) h))" for a
    by (intro reserved_ble_call calm; simp)+
  have self: "keeps (reserved given w_adapters a) new_rb_value" for a by (rule reserved_new_rb_value) simp
  have "keeps (reserved given w_adapters a) (factory_registry (peripheral_class E) index (Some a) new_rb_value)" for a index
    by (rule reserved_factory) (simp_all add: alive_registries, simp_all add: peripheral_class_def)
  then have reg: "keeps (reserved given w_adapters a) (adapter_registry_of E h a)" for a
    unfolding adapter_registry_of_def by (intro inv_intros call)
  have "ctor_body given (Ref_adapter a) (seqA (ble_call (ad_set_callback (e_ble E) h (CbScanStart a)))
      (seqA (ble_call (ad_set_callback (e_ble E) h (CbScanStop a)))
      (seqA (ble_call (ad_set_callback (e_ble E) h (CbScanUpdated a)))
            (ble_call (ad_set_callback (e_ble E) h (CbScanFound a))))))" for a
    by (intro ctor_body_seqA ctor_body_register [OF B(3)] seqA_not_isl; simp add: ble_call_isl B)
  note body = leads_ctor [OF this, where upd = w_adapters_update and store = w_adapters]
  show ?thesis unfolding new_adapter_def
    by (rule keeps_alloc)
      (intro leads_bindA call reg self body reserved_alive, simp_all add: alive_extend alive_fill alive_undo live_def)
qed

text \<open>
  The body of a characteristic's constructor can fail before it has registered anything; afterwards the
  capabilities are known, the objects on the way were found, and indications do not fail.
\<close>

lemma has_capability_changes:
  assumes "has_capability c name w = (r, v)"
  shows "w_ble v = w_ble w \<and> w_pushed v = w_pushed w \<and> w_services v = w_services w \<and> w_peripherals v = w_peripherals w"
proof -
  have "keeps (\<lambda>v. w_ble v = w_ble w \<and> w_pushed v = w_pushed w \<and> w_services v = w_services w \<and> w_peripherals v = w_peripherals w)
      (has_capability c name)"
    unfolding has_capability_def capabilities_def
    by (intro inv_intros) (auto intro!: keepsI simp: act_simps set_characteristic_def)
  from keepsD [OF this] show ?thesis using assms by (metis snd_conv)
qed

lemma capability_known: "n \<in> set CAPABILITY_NAMES \<Longrightarrow> \<exists>x. nbs_get CAPABILITY_NAMES bits n = Inr x"
  by (auto simp: CAPABILITY_NAMES_def nbs_get_def index_of_def nbs_pairs_def)

lemma has_capability_again:
  assumes "has_capability c m w = (Inr x, v)" and "w_characteristics u = w_characteristics v" and "n \<in> set CAPABILITY_NAMES"
  shows "\<exists>y. has_capability c n u = (Inr y, u)"
proof -
  obtain bits where b: "capabilities c w = (Inr bits, v)"
    using assms(1) by (auto simp: has_capability_def act_simps elim!: bindA_InrE)
  then obtain ch where ch: "live (w_characteristics w) c = Some ch"
    by (cases "live (w_characteristics w) c") (simp_all add: capabilities_def bindA_def deref_def)
  have "\<exists>ch'. live (w_characteristics v) c = Some ch' \<and> c_capabilities ch' = Some bits"
    using b ch by (cases "c_capabilities ch")
      (auto simp: capabilities_def bindA_def deref_def seqA_def act_simps set_characteristic_def split: sum.splits)
  then have "capabilities c u = (Inr bits, u)"
    using assms(2) by (auto simp: capabilities_def bindA_def deref_def act_simps)
  then show ?thesis using capability_known [OF assms(3), of bits] by (auto simp: has_capability_def bindA_def act_simps)
qed

lemma subscribe_run:
  "(\<exists>sv per. live (w_services w) s = Some sv \<and> live (w_peripherals w) (s_owner sv) = Some per \<and>
      service_notify E s u cb w = ble_call (pe_notify (e_ble E) (p_ble per) (s_uuid sv) u cb) w \<and>
      service_indicate E s u cb' w = ble_call (pe_indicate (e_ble E) (p_ble per) (s_uuid sv) u cb') w) \<or>
   service_notify E s u cb w = (Inl UndefinedBehaviour, w) \<and> service_indicate E s u cb' w = (Inl UndefinedBehaviour, w) \<and>
     (\<forall>sv. live (w_services w) s = Some sv \<longrightarrow> live (w_peripherals w) (s_owner sv) = None)"
proof (cases "live (w_services w) s")
  case (Some sv)
  then show ?thesis by (cases "live (w_peripherals w) (s_owner sv)")
    (simp_all add: service_notify_def service_indicate_def peripheral_notify_def peripheral_indicate_def bindA_def deref_def)
qed (simp add: service_notify_def service_indicate_def bindA_def deref_def)

lemma indicate_step:
  assumes B: "ble_callbacks given (e_ble E)" and w: "callbacks_alive given w" "alive w (Ref_characteristic c)"
  shows "callbacks_alive given (snd (service_indicate E s u (CbIndicate c) w))"
    and "isl (fst (service_indicate E s u (CbIndicate c) w)) \<Longrightarrow> service_indicate E s u (CbIndicate c) w = (Inl UndefinedBehaviour, w) \<and>
      service_notify E s u cb w = (Inl UndefinedBehaviour, w)"
  using subscribe_run [of w s E u cb "CbIndicate c"] registers_kept [OF ble_callbacksD(5) [OF B] _ w(1)] w
    ble_callbacksD(6) [OF B] by (auto simp: ble_call_isl)

lemma notify_step:
  assumes B: "ble_callbacks given (e_ble E)" and w: "callbacks_alive given w" "alive w (Ref_characteristic c)"
    and run: "service_notify E s u (CbNotify c) w = (r, v)"
  shows "callbacks_alive given v \<and> w_pushed v = w_pushed w \<and> w_characteristics v = w_characteristics w \<and>
    (\<forall>k. alive v k = alive w k) \<and> (isl r \<longrightarrow> given (w_ble v) \<subseteq> given (w_ble w)) \<and>
    (\<not> isl r \<longrightarrow> \<not> isl (fst (service_indicate E s u cb v)))"
proof -
  consider (ub) "r = Inl UndefinedBehaviour" "v = w"
    | (call) sv per where "live (w_services w) s = Some sv" "live (w_peripherals w) (s_owner sv) = Some per"
        "ble_call (pe_notify (e_ble E) (p_ble per) (s_uuid sv) u (CbNotify c)) w = (r, v)"
    using subscribe_run [of w s E u "CbNotify c" cb] run by auto
  then show ?thesis
  proof cases
    case ub
    then show ?thesis using w by simp
  next
    case call
    let ?m = "pe_notify (e_ble E) (p_ble per) (s_uuid sv) u (CbNotify c)"
    obtain b where b: "?m (w_ble w) = (r, b)" "v = w\<lparr>w_ble := b\<rparr>"
      using call(3) by (auto simp: ble_call_def split: prod.splits)
    have "callbacks_alive given (snd (ble_call ?m w))"
      by (rule registers_kept [OF ble_callbacksD(4) [OF B] _ w(1)]) (simp add: w(2) [simplified])
    moreover have "isl r \<Longrightarrow> given b \<subseteq> given (w_ble w)"
      using ble_callbacksD(4) [OF B] b(1) unfolding registers_def by (metis fst_conv snd_conv)
    moreover have "\<not> isl (fst (service_indicate E s u cb v))"
      using subscribe_run [of v s E u "CbNotify c" cb] call(1,2) b(2) ble_callbacksD(6) [OF B] by (auto simp: ble_call_isl)
    ultimately show ?thesis using call(3) b(2) by (auto simp: alive_frame)
  qed
qed

lemma characteristic_body_ctor:
  assumes B: "ble_callbacks given (e_ble E)"
  shows "ctor_body given (Ref_characteristic c) (characteristic_body E c s u)"
  unfolding ctor_body_def
proof (intro conjI allI impI)
  fix w assume w: "callbacks_alive given w" "alive w (Ref_characteristic c)"
  let ?w' = "snd (characteristic_body E c s u w)" and ?r = "fst (characteristic_body E c s u w)"
  obtain r w1 where h: "has_capability c ''notify'' w = (r, w1)" by fastforce
  note same = has_capability_changes [OF h]
  have mono: "alive w1 k" if "alive w k" for k
    using keepsD [OF has_capabilities(2), of "{k}" w c "''notify''"] that h by (simp add: has_def)
  have w1: "callbacks_alive given w1" "alive w1 (Ref_characteristic c)"
    using callbacks_alive_mono [OF w(1) mono] same mono [OF w(2)] by simp_all
  have again: "\<exists>y. has_capability c ''indicate'' v = (Inr y, v)" if "r = Inr n" "w_characteristics v = w_characteristics w1" for n v
    by (rule has_capability_again [OF _ that(2)]) (use h that(1) in \<open>simp_all add: CAPABILITY_NAMES_def\<close>)
  have "callbacks_alive given ?w' \<and> (isl ?r \<longrightarrow> given (w_ble ?w') \<subseteq> given (w_ble w) \<and> w_pushed ?w' = w_pushed w)"
  proof (cases r)
    case (Inl e)
    then show ?thesis using h w1 same by (simp add: characteristic_body_def bindA_def)
  next
    case (Inr notify)
    show ?thesis
    proof (cases notify)
      case False
      obtain y where y: "has_capability c ''indicate'' w1 = (Inr y, w1)" using again Inr by blast
      then have "characteristic_body E c s u w = (if y then service_indicate E s u (CbIndicate c) w1 else (Inr (), w1))"
        using h Inr False by (simp add: characteristic_body_def bindA_def seqA_def act_simps)
      then show ?thesis using indicate_step [OF B w1, of s u] w1 same by auto
    next
      case True
      obtain q v where n: "service_notify E s u (CbNotify c) w1 = (q, v)" by fastforce
      note step = notify_step [OF B w1 n, of "CbIndicate c"]
      show ?thesis
      proof (cases q)
        case (Inl e)
        then have "characteristic_body E c s u w = (Inl e, v)"
          using h Inr True n by (simp add: characteristic_body_def bindA_def seqA_def act_simps)
        then show ?thesis using step same Inl by auto
      next
        case (Inr u')
        obtain y where y: "has_capability c ''indicate'' v = (Inr y, v)" using again \<open>r = Inr notify\<close> step by blast
        have "characteristic_body E c s u w = (if y then service_indicate E s u (CbIndicate c) v else (Inr (), v))"
          using h \<open>r = Inr notify\<close> True n Inr y by (simp add: characteristic_body_def bindA_def seqA_def act_simps)
        moreover have "alive v (Ref_characteristic c)" using step w1(2) by metis
        ultimately show ?thesis using indicate_step(1) [OF B, of v c s u] step Inr by auto
      qed
    qed
  qed
  then show "callbacks_alive given ?w'" and "isl ?r \<Longrightarrow> given (w_ble ?w') \<subseteq> given (w_ble w)"
    and "isl ?r \<Longrightarrow> w_pushed ?w' = w_pushed w" by blast+
qed (rule has_characteristic_body)

lemma new_characteristic_callbacks:
  assumes "ble_callbacks given (e_ble E)"
  shows "keeps (callbacks_alive given) (new_characteristic E v owner)"
proof -
  have self: "keeps (reserved given w_characteristics c) new_rb_value" for c by (rule reserved_new_rb_value) simp
  note body = leads_ctor [OF characteristic_body_ctor [OF assms], where upd = w_characteristics_update and store = w_characteristics]
  show ?thesis unfolding new_characteristic_def
    by (rule keeps_option, rule keeps_basic, rule keeps_alloc)
      (intro leads_bindA self body reserved_alive, simp_all add: alive_extend alive_fill alive_undo live_def)
qed

subsection \<open>The program keeps its callbacks alive\<close>

definition guarded :: "('b \<Rightarrow> ble_callback set) \<Rightarrow> 'b env \<Rightarrow> 'b \<Rightarrow> 'b \<Rightarrow> bool" where
  "guarded given E b b' \<longleftrightarrow> (ble_callbacks given (e_ble E) \<longrightarrow> shrinks given b b')"

lemma keeps_kept: "(ble_callbacks given (e_ble E) \<Longrightarrow> keeps (callbacks_alive given) m) \<Longrightarrow> keeps (callbacks_kept given E) m"
  by (auto simp: keeps_def callbacks_kept_def)

lemma guarded_functions: "ble_within (guarded given E) (e_ble E)"
proof (cases "ble_callbacks given (e_ble E)")
  case True
  then have "guarded given E = shrinks given" by (auto simp: guarded_def fun_eq_iff)
  then show ?thesis using ble_callbacksD(1) [OF True] by simp
next
  case False
  then have "guarded given E = (\<lambda>_ _. True)" by (auto simp: guarded_def fun_eq_iff)
  then show ?thesis by (simp add: ble_within_def within_def)
qed

lemma kept_ble: "callbacks_kept given E w \<Longrightarrow> guarded given E (w_ble w) b \<Longrightarrow> callbacks_kept given E (w\<lparr>w_ble := b\<rparr>)"
  by (auto simp: callbacks_kept_def guarded_def shrinks_def callbacks_alive_def alive_frame)

lemma alive_adapter_registry: "alive w k \<Longrightarrow> alive (w\<lparr>w_adapter_registry := Some r\<rparr>) k"
  by (cases k) auto

interpretation callback_life: world_property "callbacks_kept given E" E "guarded given E" for given E
proof unfold_locales
  show "ble_within (guarded given E) (e_ble E)" by (rule guarded_functions)
qed (erule callbacks_kept_mono kept_ble |
    auto simp: alive_frame set_characteristic_def set_peripheral_def set_adapter_def
      intro: alive_set_characteristic [unfolded set_characteristic_def] alive_set_peripheral [unfolded set_peripheral_def]
        alive_set_adapter [unfolded set_adapter_def] alive_factory alive_adapter_registry keeps_kept new_characteristic_callbacks
        new_service_callbacks new_peripheral_callbacks new_adapter_callbacks; fail)+

subsection \<open>Sessions with callbacks\<close>

text \<open>
  As \<open>session_step\<close>, but SimpleBLE reports events only through a closure it holds, what it holds does
  not grow by itself, and the callbacks that run are those that were queued.
\<close>

inductive callback_step :: "('b \<Rightarrow> ble_callback set) \<Rightarrow> 'b env \<Rightarrow> conversions \<Rightarrow> rice \<Rightarrow> 'b world \<Rightarrow> 'b world \<Rightarrow> bool"
  for given :: "'b \<Rightarrow> ble_callback set" and E :: "'b env" and X :: conversions and t :: rice where
  load: "callback_step given E X t w (snd (Init_Registries E w))"
| send: "callback_step given E X t w (snd (ruby_send E X t recv name args w))"
| event: "event_callback ev \<in> given (w_ble w) \<Longrightarrow> callback_step given E X t w (snd (on_ble_event ev w))"
| item: "i \<in> set (w_pushed w) \<Longrightarrow> callback_step given E X t w (snd (run_item E i w))"
| gc: "callback_step given E X t w (w\<lparr>w_during_gc := b\<rparr>)"
| simpleble: "given b' \<subseteq> given (w_ble w) \<Longrightarrow> callback_step given E X t w (w\<lparr>w_ble := b'\<rparr>)"

definition callback_init :: "('b \<Rightarrow> ble_callback set) \<Rightarrow> 'b env \<Rightarrow> 'b world \<Rightarrow> bool" where
  "callback_init given E w \<longleftrightarrow> prog_init E w \<and> given (w_ble w) = {}"

text \<open>What the closure of an event queues.\<close>

fun queued :: "ble_event \<Rightarrow> item" where
  "queued (ScanStarted a) = ItScanStart a"
| "queued (ScanStopped a) = ItScanStop a"
| "queued (ScanUpdated a h) = ItScanUpdate a h"
| "queued (ScanFound a h) = ItScanFind a h"
| "queued (Connected p) = ItConnected p"
| "queued (Disconnected p) = ItDisconnected p"
| "queued (Notified c d) = ItNotify c (ByteArray d)"
| "queued (Indicated c d) = ItIndicate c (ByteArray d)"

lemma queued_target: "item_target (queued ev) = target (event_callback ev)"
  by (cases ev) simp_all

lemma event_runs:
  "snd (on_ble_event ev w) = w \<or> snd (on_ble_event ev w) = w\<lparr>w_pushed := w_pushed w @ [queued ev]\<rparr>"
  "alive w (target (event_callback ev)) \<Longrightarrow> on_ble_event ev w = (Inr (), w\<lparr>w_pushed := w_pushed w @ [queued ev]\<rparr>)"
  by (cases ev; auto simp: bindA_def deref_def push_item_def act_simps split: option.splits)+

lemma callbacks_event:
  assumes "callbacks_kept given E w" and "event_callback ev \<in> given (w_ble w)"
  shows "callbacks_kept given E (snd (on_ble_event ev w))"
proof -
  have "callbacks_kept given E (w\<lparr>w_pushed := w_pushed w @ [queued ev]\<rparr>)"
    using assms by (auto simp: callbacks_kept_def callbacks_alive_def alive_frame queued_target)
  then show ?thesis using event_runs(1) [of ev w] assms(1) by auto
qed

lemma callbacks_step: "callback_step given E X t w w' \<Longrightarrow> callbacks_kept given E w \<Longrightarrow> callbacks_kept given E w'"
proof (induction rule: callback_step.induct)
  case (event ev w)
  then show ?case by (intro callbacks_event)
next
  case (gc w b)
  then show ?case by (auto elim!: callbacks_kept_mono simp: alive_frame)
next
  case (simpleble b w)
  then show ?case by (auto intro: kept_ble simp: guarded_def shrinks_def)
qed (erule keepsD [rotated], rule inv_intros)+

lemma callback_init_kept: "callback_init given E w \<Longrightarrow> callbacks_kept given E w"
  by (auto simp: callback_init_def prog_init_def callbacks_kept_def callbacks_alive_def world_blank_def)

interpretation callback_session: inductive_invariant "callback_init given E" "callback_step given E X t" "callbacks_kept given E"
  for given E X t
  by unfold_locales (erule callback_init_kept, erule (1) callbacks_step [rotated])

lemma callback_step_session: "callback_step given E X t w w' \<Longrightarrow> session_step E X t w w'"
  by (induction rule: callback_step.induct) (rule session_step.intros)+

lemma callback_reachable_session:
  "reachable (callback_init given E) (callback_step given E X t) w \<Longrightarrow> reachable (prog_init E) (session_step E X t) w"
  by (induction rule: reachable.induct) (auto simp: callback_init_def intro: reach_init reach_step callback_step_session)

subsection \<open>Queued callbacks are safe\<close>

lemma safe_fire:
  assumes "\<And>p args. e_call E p args \<noteq> Inl UndefinedBehaviour"
  shows "safe P (fire E k args)"
  using assms by (auto simp: safe_def fire_def Let_def callback_fire_def seqA_def bindA_def act_simps split: if_splits)

lemma safe_fetch_peripheral:
  assumes "ble_defined (e_ble E)" and r: "Peripherals_in r \<in> K" and f: "\<And>p. safe (knows E (K \<union> {Ref_peripheral p})) (f p)"
  shows "safe (knows E K) (bindA (fetch (peripheral_class E) r h) f)"
proof (rule safe_bind_gives [where R = "\<lambda>p. {Ref_peripheral p}", OF _ _ f])
  have k: "graph_ok E w \<and> r < length (fac_regs (pc_get (peripheral_class E) w))" if "knows E K w" for w
    using that knows_valid(3) [OF that r] by (simp add: knows_def peripheral_class_def)
  show "safe (knows E K) (fetch (peripheral_class E) r h)"
    by (rule safeI, rule per.fetch_defined) (use k peripheral_class_defined [OF assms(1)] in auto)
  fix w p w' assume w: "knows E K w" and run: "fetch (peripheral_class E) r h w = (Inr p, w')"
  have "graph_ok E w'" using per.fetch_keeps [OF _ _ run] k [OF w] by blast
  moreover have "has K w'" using keepsD [OF lifetime.fetch_keep(3), of K w E r h] run w by (simp add: knows_def)
  moreover have "alive w' (Ref_peripheral p)" using per.fetch_good [OF _ _ run] k [OF w] by (auto simp: good_in_def)
  ultimately show "knows E (K \<union> {Ref_peripheral p}) w'" by (auto simp: knows_def has_def)
qed

lemma safe_item:
  assumes "ble_defined (e_ble E)" and "\<And>p args. e_call E p args \<noteq> Inl UndefinedBehaviour"
  shows "safe (knows E {item_target i}) (run_item E i)"
proof -
  note fire = safe_fire [OF assms(2)]
  have last: "safe P (seqA (fire E k args) (retA ()))" for P k args
    using fire [of P k args] by (auto simp: safe_def seqA_def bindA_def act_simps split: prod.splits sum.splits)
  have scan: "safe (knows E {Ref_adapter a}) (fire_scan E a h cb)" for a h cb
    unfolding fire_scan_def
    by (rule safe_deref_adapter, simp, rule safe_fetch_peripheral [OF assms(1)], simp, rule safe_deref_peripheral, simp,
        rule safe_deref_adapter, simp, rule last)
  have fired: "safe (knows E {Ref_characteristic c}) (bindA (deref w_characteristics c) (\<lambda>ch.
      case cb ch of None \<Rightarrow> retA () | Some k \<Rightarrow> seqA (fire E k (args ch)) (retA ())))" for c cb args
    by (rule safe_deref_characteristic, simp, intro safe_splits(2) safe_basic(1) last)
  show ?thesis
  proof (cases i)
    case (ItNotify c d)
    show ?thesis unfolding ItNotify item_target.simps run_item.simps fire_on_notify_def
      by (rule safe_bind(1), rule safe_record, simp, rule graph_record, rule lifetime.record_keeps,
          intro safe_splits(1) safe_basic(1) fired)
  next
    case (ItIndicate c d)
    show ?thesis unfolding ItIndicate item_target.simps run_item.simps fire_on_indicate_def by (rule fired)
  next
    case (ItScanUpdate a h)
    then show ?thesis using scan by simp
  next
    case (ItScanFind a h)
    then show ?thesis using scan by simp
  qed (simp_all add: safe_deref_adapter safe_deref_peripheral last)
qed

subsection \<open>A session by hand\<close>

text \<open>A SimpleBLE whose state is the list of the callbacks it was given; it has one adapter and one peripheral.\<close>

definition holding_ble :: "ble_callback list ble" where
  "holding_ble = \<lparr>bluetooth_enabled = retA True, get_adapters = retA [0],
     ad_initialized = (\<lambda>h. retA True), ad_identifier = (\<lambda>h. retA ''hci0''), ad_address = (\<lambda>h. retA ''A0''),
     ad_scan_start = (\<lambda>h. retA ()), ad_scan_stop = (\<lambda>h. retA ()), ad_scan_for = (\<lambda>h t. retA ()),
     ad_scan_is_active = (\<lambda>h. retA False), ad_scan_get_results = (\<lambda>h. retA [1]),
     ad_get_paired_peripherals = (\<lambda>h. retA []), ad_set_callback = (\<lambda>h cb. modifyA (\<lambda>b. b @ [cb])),
     pe_initialized = (\<lambda>h. retA True), pe_identifier = (\<lambda>h. retA ''dev''),
     pe_address = (\<lambda>h. retA ''P1''), pe_address_type = (\<lambda>h. retA PUBLIC),
     pe_rssi = (\<lambda>h. retA 0), pe_tx_power = (\<lambda>h. retA 0), pe_mtu = (\<lambda>h. retA 23),
     pe_is_connected = (\<lambda>h. retA True), pe_is_connectable = (\<lambda>h. retA True), pe_is_paired = (\<lambda>h. retA False),
     pe_connect = (\<lambda>h. retA ()), pe_disconnect = (\<lambda>h. retA ()), pe_unpair = (\<lambda>h. retA ()),
     pe_services = (\<lambda>h. retA []), pe_manufacturer_data = (\<lambda>h. retA []),
     pe_read = (\<lambda>h s c. retA [0]), pe_read_descriptor = (\<lambda>h s c d. retA [0]),
     pe_write_descriptor = (\<lambda>h s c d x. retA ()),
     pe_write_request = (\<lambda>h s c x. retA ()),
     pe_write_command = (\<lambda>h s c x. retA ()), pe_notify = (\<lambda>h s c cb. modifyA (\<lambda>b. b @ [cb])),
     pe_indicate = (\<lambda>h s c cb. modifyA (\<lambda>b. b @ [cb])), pe_unsubscribe = (\<lambda>h s c. retA ()),
     pe_set_callback = (\<lambda>h cb. modifyA (\<lambda>b. b @ [cb]))\<rparr>"

definition holding_env :: "ble_callback list env" where
  "holding_env = \<lparr>e_ble = holding_ble, e_debug = False, e_types = e_types sample_env, e_hash = e_hash sample_env,
     e_call = (\<lambda>p args. Inr RNil)\<rparr>"

lemma holding_ble_documented:
  "ble_callbacks set (e_ble holding_env)" "ble_defined (e_ble holding_env)" "quiet_callbacks (e_ble holding_env)"
proof -
  show q: "quiet_callbacks (e_ble holding_env)"
    by (simp add: quiet_callbacks_def holding_env_def holding_ble_def act_simps)
  show "ble_defined (e_ble holding_env)" by (simp add: ble_defined_def defined_def holding_env_def holding_ble_def act_simps)
  have "ble_within (shrinks set) (e_ble holding_env)"
    by (simp add: ble_within_def within_def shrinks_def holding_env_def holding_ble_def act_simps)
  then show "ble_callbacks set (e_ble holding_env)" using q
    by (simp add: ble_callbacks_def registers_def holding_env_def holding_ble_def act_simps)
qed

definition holding_world :: "ble_callback list world" where
  "holding_world = snd (get_ruby_adapters holding_env (snd (Init_Registries holding_env (world_blank []))))"

lemma holding_world_reachable:
  assumes "run_init (Init_interface False) rice_new = Inr t"
  shows "reachable (callback_init set holding_env) (callback_step set holding_env X t) holding_world"
proof -
  let ?w = "snd (Init_Registries holding_env (world_blank []))"
  have "reachable (callback_init set holding_env) (callback_step set holding_env X t) (world_blank [])"
    by (rule reach_init) (use holding_ble_documented(3) in \<open>auto simp: callback_init_def prog_init_def world_blank_def\<close>)
  then have "reachable (callback_init set holding_env) (callback_step set holding_env X t) ?w"
    by (rule reach_step) (rule callback_step.load)
  then have "reachable (callback_init set holding_env) (callback_step set holding_env X t)
      (snd (ruby_send holding_env X t (On_class Rb_cAdapter) ''get_adapters'' [] ?w))"
    by (rule reach_step) (rule callback_step.send)
  moreover have "snd (ruby_send holding_env X t (On_class Rb_cAdapter) ''get_adapters'' [] ?w) = holding_world"
    unfolding ruby_send_def bound_get_adapters [OF assms] holding_world_def
    by (simp add: class_members_def ans_def bindA_def retA_def split: prod.splits sum.splits)
  ultimately show ?thesis by simp
qed

subsection \<open>Properties\<close>



end
