(* ===== verification/Cpp_Types.thy ===== *)
theory Cpp_Types imports Ruby_Calls Garbage_Collection begin

text \<open>
  What the compiler decides about the templates: \<open>types/declarations.hpp\<close> (the classes and the aliases of the
  registries and Rice types), the concepts of \<open>types/ruby.hpp\<close>, \<open>types/SimpleBLE.hpp\<close>, \<open>types/stl.hpp\<close>,
  \<open>types/helpers.hpp\<close> and \<open>ByteArray.hpp\<close>, the specialisations of \<open>std::hash\<close> and \<open>Rice::ruby_mark\<close>, and the
  overloads that the concepts choose. The types and member functions of Rice and SimpleBLE are a
  parameter of type \<open>cpp_ext\<close>.
\<close>

subsection \<open>Types\<close>

datatype ble_class = BLE_Adapter | BLE_Peripheral | BLE_Service | BLE_Characteristic | BLE_Descriptor | BLE_AddressType

datatype cpp_type =
    Nullptr_T | Nullopt_T | VALUE_T | Size_T | Bool_T | Char_T | Unsigned_T nat | Signed_T nat
  | Std_string | Duration_T "cpp_type list" | Other_T string
  | Const_T cpp_type | Ref_T cpp_type | Pointer_T cpp_type | Shared_ptr_T cpp_type
  | Ble_T ble_class
  | Rice_Object | Rice_String | Rice_Array | Rice_Module | Rice_Enum cpp_type
  | Rice_Data_Type cpp_type | Rice_Data_Object cpp_type
  | RubyQueue_T | Callback_T | ByteArray_T | Adapter_T | Peripheral_T | Service_T | Characteristic_T | Descriptor_T
  | CapabilityType_T | NamedBitSet_T fields | Registry_T cpp_type cpp_type cpp_type | RegistryFactory_T cpp_type

text \<open>
  The third-party types: SimpleBLE's types for addresses and UUIDs, the type that a member function called
  without arguments returns, the base classes, and which classes convert to a \<open>VALUE\<close> by themselves.
\<close>

record cpp_ext =
  x_address :: cpp_type
  x_uuid :: cpp_type
  x_result :: "cpp_type \<Rightarrow> string \<Rightarrow> cpp_type option"
  x_bases :: "cpp_type \<Rightarrow> cpp_type list"
  x_to_value :: "cpp_type \<Rightarrow> bool"

text \<open>The aliases of the four registries and of their factories.\<close>

definition AdapterRegistry_T :: "cpp_ext \<Rightarrow> cpp_type" where
  "AdapterRegistry_T X = Registry_T (x_address X) Adapter_T (Ble_T BLE_Adapter)"

definition PeripheralRegistry_T :: "cpp_ext \<Rightarrow> cpp_type" where
  "PeripheralRegistry_T X = Registry_T (x_address X) Peripheral_T (Ble_T BLE_Peripheral)"

definition ServiceRegistry_T :: "cpp_ext \<Rightarrow> cpp_type" where
  "ServiceRegistry_T X = Registry_T (x_uuid X) Service_T (Ble_T BLE_Service)"

definition CharacteristicRegistry_T :: "cpp_ext \<Rightarrow> cpp_type" where
  "CharacteristicRegistry_T X = Registry_T (x_uuid X) Characteristic_T (Ble_T BLE_Characteristic)"

definition registry_types :: "cpp_ext \<Rightarrow> cpp_type list" where
  "registry_types X = [AdapterRegistry_T X, PeripheralRegistry_T X, ServiceRegistry_T X, CharacteristicRegistry_T X]"

definition factory_types :: "cpp_ext \<Rightarrow> cpp_type list" where
  "factory_types X = map RegistryFactory_T (registry_types X)"

lemmas registry_aliases = registry_types_def AdapterRegistry_T_def PeripheralRegistry_T_def ServiceRegistry_T_def
  CharacteristicRegistry_T_def

text \<open>\<open>Owner\<close> of the wrapped classes, and of a registry, which is that of its class.\<close>

fun owner_type :: "cpp_type \<Rightarrow> cpp_type option" where
  "owner_type Adapter_T = Some Nullptr_T"
| "owner_type Peripheral_T = Some Adapter_T"
| "owner_type Service_T = Some Peripheral_T"
| "owner_type Characteristic_T = Some Service_T"
| "owner_type Descriptor_T = Some Characteristic_T"
| "owner_type (Registry_T k p v) = owner_type p"
| "owner_type _ = None"

definition is_owned :: "cpp_type \<Rightarrow> bool" where
  "is_owned R = (owner_type R \<noteq> Some Nullptr_T)"

subsection \<open>Member functions\<close>

text \<open>
  The member functions that a concept asks about, of the classes of the program: their access, whether
  they are \<open>const\<close> and whether they are templates. \<open>ByteArray\<close> inherits \<open>self\<close> from \<open>Rubyable\<close>.
\<close>

record cpp_member =
  m_name :: string
  m_public :: bool
  m_const :: bool
  m_template :: bool
  m_result :: cpp_type

definition getter :: "string \<Rightarrow> cpp_type \<Rightarrow> cpp_member" where
  "getter name result = \<lparr>m_name = name, m_public = True, m_const = True, m_template = False, m_result = result\<rparr>"

fun members :: "cpp_ext \<Rightarrow> cpp_type \<Rightarrow> cpp_member list" where
  "members X Adapter_T = [getter ''self'' Rice_Object, getter ''address'' (x_address X)]"
| "members X Peripheral_T = [getter ''self'' Rice_Object, getter ''address'' (Ref_T (Const_T (x_address X)))]"
| "members X Service_T = [getter ''self'' Rice_Object, getter ''uuid'' (Ref_T (Const_T (x_uuid X)))]"
| "members X Characteristic_T = [getter ''self'' Rice_Object, getter ''uuid'' (Ref_T (Const_T (x_uuid X)))]"
| "members X Descriptor_T = [getter ''self'' Rice_Object, getter ''uuid'' (Ref_T (Const_T (x_uuid X)))]"
| "members X ByteArray_T = [(getter ''self'' (Rice_Data_Object ByteArray_T))\<lparr>m_template := True\<rparr>]"
| "members X (Registry_T k p v) = [(getter ''self'' Rice_Object)\<lparr>m_public := False\<rparr>]"
| "members X _ = []"

text \<open>The classes that the repository declares; the others are third-party or no classes.\<close>

fun own_class :: "cpp_type \<Rightarrow> bool" where
  "own_class RubyQueue_T = True" | "own_class Callback_T = True" | "own_class ByteArray_T = True"
| "own_class Adapter_T = True" | "own_class Peripheral_T = True" | "own_class Service_T = True"
| "own_class Characteristic_T = True" | "own_class Descriptor_T = True" | "own_class (NamedBitSet_T fs) = True"
| "own_class (Registry_T k p v) = True" | "own_class (RegistryFactory_T r) = True"
| "own_class _ = False"

text \<open>The result of \<open>t.name()\<close>, and of calling \<open>&T::name\<close> on a \<open>const T &\<close>, which asks for one function.\<close>

definition call_result :: "cpp_ext \<Rightarrow> cpp_type \<Rightarrow> string \<Rightarrow> cpp_type option" where
  "call_result X T name = (if own_class T
     then map_option m_result (find (\<lambda>m. m_name m = name \<and> m_public m \<and> \<not> m_template m) (members X T))
     else x_result X T name)"

definition invoke_result :: "cpp_ext \<Rightarrow> cpp_type \<Rightarrow> string \<Rightarrow> cpp_type option" where
  "invoke_result X T name = (if own_class T
     then (case filter (\<lambda>m. m_name m = name) (members X T) of
         [m] \<Rightarrow> if m_public m \<and> m_const m \<and> \<not> m_template m then Some (m_result m) else None
       | _ \<Rightarrow> None)
     else x_result X T name)"

text \<open>\<open>using DataObject\<close> of the classes of the program.\<close>

fun data_object :: "cpp_type \<Rightarrow> cpp_type option" where
  "data_object Adapter_T = Some (Rice_Data_Object Adapter_T)"
| "data_object Peripheral_T = Some (Rice_Data_Object Peripheral_T)"
| "data_object Service_T = Some (Rice_Data_Object Service_T)"
| "data_object Characteristic_T = Some (Rice_Data_Object Characteristic_T)"
| "data_object Descriptor_T = Some (Rice_Data_Object Descriptor_T)"
| "data_object ByteArray_T = Some (Rice_Data_Object ByteArray_T)"
| "data_object (Registry_T k p v) = Some (Rice_Data_Object p)"
| "data_object _ = None"

subsection \<open>Concepts\<close>

fun remove_const :: "cpp_type \<Rightarrow> cpp_type" where
  "remove_const (Const_T T) = T"
| "remove_const T = T"

fun remove_cvref :: "cpp_type \<Rightarrow> cpp_type" where
  "remove_cvref (Ref_T T) = remove_const T"
| "remove_cvref T = remove_const T"

definition derived_from :: "cpp_ext \<Rightarrow> cpp_type \<Rightarrow> cpp_type \<Rightarrow> bool" where
  "derived_from X D B = (D = B \<or> B \<in> set (x_bases X D))"

fun arithmetic :: "cpp_type \<Rightarrow> bool" where
  "arithmetic VALUE_T = True" | "arithmetic Size_T = True" | "arithmetic Bool_T = True" | "arithmetic Char_T = True"
| "arithmetic (Unsigned_T n) = True" | "arithmetic (Signed_T n) = True" | "arithmetic _ = False"

definition to_VALUE :: "cpp_ext \<Rightarrow> cpp_type \<Rightarrow> bool" where
  "to_VALUE X T = (arithmetic (remove_cvref T) \<or> x_to_value X (remove_cvref T))"

definition ToRubyObjectResult :: "cpp_ext \<Rightarrow> cpp_type \<Rightarrow> cpp_type option" where
  "ToRubyObjectResult X T = invoke_result X T ''self''"

definition ReturnsRubyValue :: "cpp_ext \<Rightarrow> cpp_type \<Rightarrow> bool" where
  "ReturnsRubyValue X T = (case invoke_result X T ''value'' of None \<Rightarrow> False | Some R \<Rightarrow> to_VALUE X R)"

definition RiceObject :: "cpp_ext \<Rightarrow> cpp_type \<Rightarrow> bool" where
  "RiceObject X T = (derived_from X Rice_Object T \<and> ReturnsRubyValue X T)"

definition RubyValue :: "cpp_ext \<Rightarrow> cpp_type \<Rightarrow> bool" where
  "RubyValue X T = (RiceObject X T \<or> T = VALUE_T)"

definition HasRubyObject :: "cpp_ext \<Rightarrow> cpp_type \<Rightarrow> bool" where
  "HasRubyObject X T = ((case ToRubyObjectResult X T of None \<Rightarrow> False | Some R \<Rightarrow> RubyValue X R) \<and> data_object T \<noteq> None)"

definition BluetoothAddressable :: "cpp_ext \<Rightarrow> cpp_type \<Rightarrow> bool" where
  "BluetoothAddressable X T = (call_result X T ''address'' = Some (x_address X))"

definition UUIDable :: "cpp_ext \<Rightarrow> cpp_type \<Rightarrow> bool" where
  "UUIDable X T = (call_result X T ''uuid'' = Some (x_uuid X))"

definition is_nullopt :: "cpp_type \<Rightarrow> bool" where
  "is_nullopt T = (remove_cvref T = Nullopt_T)"

fun is_duration :: "cpp_type \<Rightarrow> bool" where
  "is_duration (Duration_T Types) = True"
| "is_duration _ = False"

definition OptionalDuration :: "cpp_type \<Rightarrow> bool" where
  "OptionalDuration T = (is_duration T \<or> T = Nullopt_T)"

text \<open>Whether \<open>char\<close> is unsigned is up to the platform: here it is signed, as on x86.\<close>

fun UnsignedIntegral :: "cpp_type \<Rightarrow> bool" where
  "UnsignedIntegral (Unsigned_T n) = True" | "UnsignedIntegral Size_T = True" | "UnsignedIntegral VALUE_T = True"
| "UnsignedIntegral Bool_T = True" | "UnsignedIntegral _ = False"

subsection \<open>Specialisations\<close>

text \<open>\<open>std::hash\<close>: the specialisations of the program, besides those of the standard library; all answer a \<open>std::size_t\<close>.\<close>

definition hash_specialisations :: "cpp_type list" where
  "hash_specialisations = [Ble_T BLE_Adapter, Adapter_T, Ble_T BLE_Peripheral, Peripheral_T, Ble_T BLE_Service,
     Service_T, Ble_T BLE_Characteristic, Characteristic_T, Descriptor_T]"

fun std_hash :: "cpp_type \<Rightarrow> bool" where
  "std_hash Std_string = True" | "std_hash Nullptr_T = True" | "std_hash (Pointer_T T) = True"
| "std_hash (Shared_ptr_T T) = True" | "std_hash CapabilityType_T = True" | "std_hash (Ble_T c) = (c = BLE_AddressType)"
| "std_hash T = arithmetic T"

definition HashResultType :: "cpp_type \<Rightarrow> cpp_type option" where
  "HashResultType Key = (if std_hash Key \<or> Key \<in> set hash_specialisations then Some Size_T else None)"

lemma hash_of_string: "HashResultType Std_string = Some Size_T"
  by (simp add: HashResultType_def)

definition RegistryMapKey :: "cpp_type \<Rightarrow> cpp_type option" where
  "RegistryMapKey R = Option.bind (owner_type R) HashResultType"

definition static_asserts :: "cpp_ext \<Rightarrow> bool list" where
  "static_asserts X = [\<not> is_owned (AdapterRegistry_T X), is_owned (PeripheralRegistry_T X),
     is_owned (ServiceRegistry_T X), is_owned (CharacteristicRegistry_T X)]"

text \<open>\<open>Rice::ruby_mark\<close>: the declared specialisations, and those whose existence is asserted.\<close>

definition mark_specialisations :: "cpp_ext \<Rightarrow> cpp_type list" where
  "mark_specialisations X = [Callback_T,
     Adapter_T, AdapterRegistry_T X, RegistryFactory_T (AdapterRegistry_T X),
     ByteArray_T,
     Peripheral_T, PeripheralRegistry_T X, RegistryFactory_T (PeripheralRegistry_T X),
     Service_T, ServiceRegistry_T X, RegistryFactory_T (ServiceRegistry_T X),
     Characteristic_T, CharacteristicRegistry_T X, RegistryFactory_T (CharacteristicRegistry_T X)]"

definition asserted_marks :: "cpp_ext \<Rightarrow> cpp_type list" where
  "asserted_marks X = [Callback_T,
     Adapter_T, AdapterRegistry_T X, RegistryFactory_T (AdapterRegistry_T X),
     Peripheral_T, PeripheralRegistry_T X, RegistryFactory_T (PeripheralRegistry_T X),
     Service_T, ServiceRegistry_T X, RegistryFactory_T (ServiceRegistry_T X),
     Characteristic_T, CharacteristicRegistry_T X, RegistryFactory_T (CharacteristicRegistry_T X)]"

text \<open>The type of an object that Ruby marks.\<close>

fun managed_type :: "cpp_ext \<Rightarrow> managed \<Rightarrow> cpp_type" where
  "managed_type X (M_ByteArray b) = ByteArray_T"
| "managed_type X (M_Callback k) = Callback_T"
| "managed_type X (M_Adapter a) = Adapter_T"
| "managed_type X (M_AdapterRegistry r) = AdapterRegistry_T X"
| "managed_type X M_AdapterRegistryFactory = RegistryFactory_T (AdapterRegistry_T X)"
| "managed_type X (M_Peripheral p) = Peripheral_T"
| "managed_type X (M_PeripheralRegistry r) = PeripheralRegistry_T X"
| "managed_type X M_PeripheralRegistryFactory = RegistryFactory_T (PeripheralRegistry_T X)"
| "managed_type X (M_Service s) = Service_T"
| "managed_type X (M_ServiceRegistry r) = ServiceRegistry_T X"
| "managed_type X M_ServiceRegistryFactory = RegistryFactory_T (ServiceRegistry_T X)"
| "managed_type X (M_Characteristic c) = Characteristic_T"
| "managed_type X (M_CharacteristicRegistry r) = CharacteristicRegistry_T X"
| "managed_type X M_CharacteristicRegistryFactory = RegistryFactory_T (CharacteristicRegistry_T X)"
| "managed_type X (M_Descriptor d) = Descriptor_T"

lemma mark_specialised:
  assumes "ruby_mark E m w \<noteq> []"
  shows "managed_type X m \<in> set (mark_specialisations X)"
  using assms by (cases m) (auto simp: mark_specialisations_def)

lemma marks_asserted: "set (mark_specialisations X) = insert ByteArray_T (set (asserted_marks X))"
  by (auto simp: mark_specialisations_def asserted_marks_def)

subsection \<open>Overloads\<close>

text \<open>
  Of the candidates whose constraint holds, the compiler takes the one that is better than every other;
  when there is none the call is ambiguous or has no candidate.
\<close>

definition best_overload :: "'o list \<Rightarrow> ('o \<Rightarrow> bool) \<Rightarrow> ('o \<Rightarrow> 'o \<Rightarrow> bool) \<Rightarrow> 'o option" where
  "best_overload candidates viable better = (let os = filter viable candidates in
     case filter (\<lambda>q. list_all (\<lambda>q'. q' = q \<or> better q q') os) os of [q] \<Rightarrow> Some q | _ \<Rightarrow> None)"

text \<open>The three versions of \<open>Registry::key_from_value\<close>; a constrained one is better than the one that only throws.\<close>

datatype key_overload = Key_unconstrained | Key_address | Key_uuid

fun key_viable :: "cpp_ext \<Rightarrow> cpp_type \<Rightarrow> key_overload \<Rightarrow> bool" where
  "key_viable X V Key_unconstrained = True"
| "key_viable X V Key_address = BluetoothAddressable X V"
| "key_viable X V Key_uuid = UUIDable X V"

definition key_better :: "key_overload \<Rightarrow> key_overload \<Rightarrow> bool" where
  "key_better q q' = (q \<noteq> Key_unconstrained \<and> q' = Key_unconstrained)"

definition key_overload :: "cpp_ext \<Rightarrow> cpp_type \<Rightarrow> key_overload option" where
  "key_overload X V = best_overload [Key_unconstrained, Key_address, Key_uuid] (key_viable X V) key_better"

text \<open>What a call of \<open>key_from_value\<close> does, given what \<open>address()\<close> and \<open>uuid()\<close> of the value do.\<close>

fun run_key :: "key_overload \<Rightarrow> ('w, string) act option \<Rightarrow> ('w, string) act option \<Rightarrow> ('w, string) act option" where
  "run_key Key_unconstrained address uuid = Some key_from_value"
| "run_key Key_address address uuid = address"
| "run_key Key_uuid address uuid = uuid"

definition key_call :: "cpp_ext \<Rightarrow> cpp_type \<Rightarrow> ('w, string) act option \<Rightarrow> ('w, string) act option \<Rightarrow> ('w, string) act option" where
  "key_call X R address uuid = (case R of Registry_T K P V \<Rightarrow>
     Option.bind (key_overload X V) (\<lambda>q. run_key q address uuid) | _ \<Rightarrow> None)"

lemma key_overload_cases:
  "key_overload X V =
     (if BluetoothAddressable X V \<and> UUIDable X V then None
      else Some (if BluetoothAddressable X V then Key_address else if UUIDable X V then Key_uuid else Key_unconstrained))"
  by (simp add: key_overload_def best_overload_def key_better_def)

text \<open>The versions of \<open>to_ruby_value\<close>: a template that fits exactly is better than a conversion to \<open>VALUE\<close>.\<close>

datatype value_overload = From_VALUE | From_Rice_object | From_object | From_pointer | From_shared_ptr

fun value_viable :: "cpp_ext \<Rightarrow> cpp_type \<Rightarrow> value_overload \<Rightarrow> bool" where
  "value_viable X T From_VALUE = to_VALUE X T"
| "value_viable X T From_Rice_object = RiceObject X T"
| "value_viable X T From_object = HasRubyObject X T"
| "value_viable X T From_pointer = (case T of Pointer_T P \<Rightarrow> HasRubyObject X (remove_const P) | _ \<Rightarrow> False)"
| "value_viable X T From_shared_ptr = (case T of Shared_ptr_T P \<Rightarrow> HasRubyObject X P | _ \<Rightarrow> False)"

definition value_better :: "cpp_type \<Rightarrow> value_overload \<Rightarrow> value_overload \<Rightarrow> bool" where
  "value_better T q q' = (if T = VALUE_T then q = From_VALUE else q \<noteq> From_VALUE \<and> q' = From_VALUE)"

definition value_overload :: "cpp_ext \<Rightarrow> cpp_type \<Rightarrow> value_overload option" where
  "value_overload X T = best_overload [From_VALUE, From_Rice_object, From_object, From_pointer, From_shared_ptr]
     (value_viable X T) (value_better T)"

subsection \<open>The third-party types\<close>

text \<open>
  What the code relies on: \<open>address()\<close> of SimpleBLE's adapters and peripherals and \<open>uuid()\<close> of its services and
  characteristics, neither class having the other function; \<open>value()\<close> of \<open>Rice::Object\<close>, which has no base.
\<close>

definition simpleble_types :: "cpp_ext \<Rightarrow> bool" where
  "simpleble_types X \<longleftrightarrow>
     (\<forall>c \<in> {BLE_Adapter, BLE_Peripheral}. x_result X (Ble_T c) ''address'' = Some (x_address X) \<and>
        x_result X (Ble_T c) ''uuid'' = None) \<and>
     (\<forall>c \<in> {BLE_Service, BLE_Characteristic}. x_result X (Ble_T c) ''uuid'' = Some (x_uuid X) \<and>
        x_result X (Ble_T c) ''address'' = None)"

definition rice_types :: "cpp_ext \<Rightarrow> bool" where
  "rice_types X \<longleftrightarrow> x_bases X Rice_Object = [] \<and> x_result X Rice_Object ''value'' = Some VALUE_T"

definition sample_ext :: cpp_ext where
  "sample_ext = \<lparr>x_address = Std_string, x_uuid = Std_string,
     x_result = (\<lambda>T name. map_of [((Ble_T BLE_Adapter, ''address''), Std_string),
        ((Ble_T BLE_Peripheral, ''address''), Std_string), ((Ble_T BLE_Service, ''uuid''), Std_string),
        ((Ble_T BLE_Characteristic, ''uuid''), Std_string), ((Rice_Object, ''value''), VALUE_T),
        ((Rice_String, ''value''), VALUE_T)] (T, name)),
     x_bases = (\<lambda>T. if T \<in> {Rice_String, Rice_Array} then [Rice_Object] else []),
     x_to_value = (\<lambda>T. T \<in> {Rice_Object, Rice_String, Rice_Array})\<rparr>"

lemma sample_ext_types: "simpleble_types sample_ext" "rice_types sample_ext"
  by (simp_all add: simpleble_types_def rice_types_def sample_ext_def)

subsection \<open>Lemmas\<close>

definition proxy_types :: "cpp_type list" where
  "proxy_types = [Adapter_T, Peripheral_T, Service_T, Characteristic_T, Descriptor_T]"

lemma RiceObject_iff:
  assumes "rice_types X"
  shows "RiceObject X T \<longleftrightarrow> T = Rice_Object"
  using assms by (auto simp: RiceObject_def derived_from_def rice_types_def ReturnsRubyValue_def invoke_result_def
      to_VALUE_def)

lemma HasRubyObject_iff:
  assumes "rice_types X"
  shows "HasRubyObject X T \<longleftrightarrow> T \<in> set proxy_types"
  by (cases T) (simp_all add: HasRubyObject_def ToRubyObjectResult_def invoke_result_def RubyValue_def
      RiceObject_iff [OF assms] getter_def proxy_types_def)

lemma best_value:
  assumes "(T = VALUE_T \<longrightarrow> conv) \<and> (T = VALUE_T \<longrightarrow> \<not> obj \<and> \<not> own \<and> \<not> ptr \<and> \<not> shared)"
    and "\<not> (obj \<and> own) \<and> \<not> (obj \<and> ptr) \<and> \<not> (obj \<and> shared) \<and> \<not> (own \<and> ptr) \<and> \<not> (own \<and> shared) \<and> \<not> (ptr \<and> shared)"
  shows "best_overload [From_VALUE, From_Rice_object, From_object, From_pointer, From_shared_ptr]
      (\<lambda>q. case q of From_VALUE \<Rightarrow> conv | From_Rice_object \<Rightarrow> obj | From_object \<Rightarrow> own
         | From_pointer \<Rightarrow> ptr | From_shared_ptr \<Rightarrow> shared) (value_better T) =
    (if T = VALUE_T then Some From_VALUE else if obj then Some From_Rice_object else if own then Some From_object
     else if ptr then Some From_pointer else if shared then Some From_shared_ptr
     else if conv then Some From_VALUE else None)"
  using assms by (cases "T = VALUE_T"; cases conv; cases obj; cases own; cases ptr; cases shared)
    (simp_all add: best_overload_def value_better_def)

lemma value_overload_viable:
  assumes "rice_types X"
  shows "value_overload X T = best_overload [From_VALUE, From_Rice_object, From_object, From_pointer, From_shared_ptr]
      (\<lambda>q. case q of From_VALUE \<Rightarrow> to_VALUE X T | From_Rice_object \<Rightarrow> T = Rice_Object | From_object \<Rightarrow> T \<in> set proxy_types
         | From_pointer \<Rightarrow> \<exists>P. T = Pointer_T P \<and> remove_const P \<in> set proxy_types
         | From_shared_ptr \<Rightarrow> \<exists>P. T = Shared_ptr_T P \<and> P \<in> set proxy_types) (value_better T)"
proof -
  have "value_viable X T = (\<lambda>q. case q of From_VALUE \<Rightarrow> to_VALUE X T | From_Rice_object \<Rightarrow> T = Rice_Object
      | From_object \<Rightarrow> T \<in> set proxy_types
      | From_pointer \<Rightarrow> \<exists>P. T = Pointer_T P \<and> remove_const P \<in> set proxy_types
      | From_shared_ptr \<Rightarrow> \<exists>P. T = Shared_ptr_T P \<and> P \<in> set proxy_types)" (is "_ = ?f")
  proof
    fix q show "value_viable X T q = ?f q"
      by (cases q) (auto simp: RiceObject_iff [OF assms] HasRubyObject_iff [OF assms] split: cpp_type.split)
  qed
  then show ?thesis by (simp add: value_overload_def)
qed

lemma optional_duration:
  assumes "OptionalDuration T"
  shows "\<not> is_nullopt T \<longleftrightarrow> is_duration T"
  using assms by (cases T) (auto simp: OptionalDuration_def is_nullopt_def)

text \<open>
  The four registries and their factories can be instantiated: the assertions at compile time hold, an owner
  has a hash, which is the key of the factory, the proxies have Ruby objects and marking functions.
\<close>

lemma static_asserts_hold: "list_all (\<lambda>b. b) (static_asserts X)"
  by (simp add: static_asserts_def registry_aliases is_owned_def)

lemma registries_instantiate:
  assumes "rice_types X" and "Registry_T K P V \<in> set (registry_types X)"
  shows "RegistryMapKey (Registry_T K P V) = Some Size_T \<and> HasRubyObject X P \<and>
    {P, Registry_T K P V, RegistryFactory_T (Registry_T K P V)} \<subseteq> set (asserted_marks X)"
  using assms(2) by (auto simp: registry_aliases RegistryMapKey_def HashResultType_def hash_specialisations_def
      HasRubyObject_iff [OF assms(1)] proxy_types_def asserted_marks_def)

subsection \<open>The variables of the interface\<close>

text \<open>The declared types of the modules and classes, and the C++ type that a class of the interface wraps.\<close>

fun variable_type :: "cpp_ext \<Rightarrow> rb_var \<Rightarrow> cpp_type" where
  "variable_type X Rb_mRuBLE = Rice_Module"
| "variable_type X Rb_mRuBLEUnderlying = Rice_Module"
| "variable_type X Rb_mUtils = Rice_Module"
| "variable_type X Rb_cBluetoothAddressType = Rice_Enum (Ble_T BLE_AddressType)"
| "variable_type X Rb_cCharacteristic = Rice_Data_Type Characteristic_T"
| "variable_type X Rb_cCharacteristicCapabilityType = Rice_Enum CapabilityType_T"
| "variable_type X Rb_cDescriptor = Rice_Data_Type Descriptor_T"
| "variable_type X Rb_cService = Rice_Data_Type Service_T"
| "variable_type X Rb_cServiceRegistry = Rice_Data_Type (ServiceRegistry_T X)"
| "variable_type X Rb_cAdapterRegistry = Rice_Data_Type (AdapterRegistry_T X)"
| "variable_type X Rb_cPeripheralRegistry = Rice_Data_Type (PeripheralRegistry_T X)"
| "variable_type X Rb_cCharacteristicRegistry = Rice_Data_Type (CharacteristicRegistry_T X)"
| "variable_type X Rb_cByteArray = Rice_Data_Type ByteArray_T"
| "variable_type X Rb_cPeripheral = Rice_Data_Type Peripheral_T"
| "variable_type X Rb_cAdapter = Rice_Data_Type Adapter_T"

fun wrapped_type :: "cpp_ext \<Rightarrow> cpp_class \<Rightarrow> cpp_type" where
  "wrapped_type X C_ByteArray = ByteArray_T"
| "wrapped_type X C_Descriptor = Descriptor_T"
| "wrapped_type X C_Characteristic = Characteristic_T"
| "wrapped_type X C_Service = Service_T"
| "wrapped_type X C_Peripheral = Peripheral_T"
| "wrapped_type X C_Adapter = Adapter_T"
| "wrapped_type X C_AdapterRegistry = AdapterRegistry_T X"
| "wrapped_type X C_PeripheralRegistry = PeripheralRegistry_T X"
| "wrapped_type X C_ServiceRegistry = ServiceRegistry_T X"
| "wrapped_type X C_CharacteristicRegistry = CharacteristicRegistry_T X"
| "wrapped_type X (C_shared_ptr c) = Shared_ptr_T (wrapped_type X c)"
| "wrapped_type X (C_other name) = Other_T name"

definition holds_declared :: "cpp_ext \<Rightarrow> rb_var \<Rightarrow> cpp_class option \<Rightarrow> bool" where
  "holds_declared X v cls = (case cls of
     Some c \<Rightarrow> variable_type X v = Rice_Data_Type (wrapped_type X c)
   | None \<Rightarrow> (case variable_type X v of Rice_Module \<Rightarrow> True | Rice_Enum T \<Rightarrow> True | _ \<Rightarrow> False))"

lemma all_variables:
  "(\<forall>v. P v) \<longleftrightarrow> P Rb_mRuBLE \<and> P Rb_mRuBLEUnderlying \<and> P Rb_mUtils \<and> P Rb_cBluetoothAddressType \<and> P Rb_cByteArray \<and>
     P Rb_cDescriptor \<and> P Rb_cCharacteristic \<and> P Rb_cCharacteristicCapabilityType \<and> P Rb_cService \<and> P Rb_cPeripheral \<and>
     P Rb_cAdapter \<and> P Rb_cAdapterRegistry \<and> P Rb_cPeripheralRegistry \<and> P Rb_cServiceRegistry \<and> P Rb_cCharacteristicRegistry"
  (is "?all \<longleftrightarrow> ?each")
proof
  assume each: ?each
  show ?all
  proof
    fix v show "P v" using each by (cases v) simp_all
  qed
qed simp

lemma check_interface_types:
  "\<exists>bad G. check (Init_interface debug) [] = Some (bad, G) \<and> distinct (map fst G) \<and>
     (\<forall>(v, cls) \<in> set G. holds_declared X v cls) \<and> (\<forall>v. v \<in> fst ` set G)"
  by (cases debug) (simp_all add: init_scripts method_typed_def holds_declared_def all_variables)

subsection \<open>Properties\<close>

text \<open>
  C39. With the member functions that SimpleBLE documents, the compiler finds one version of
  \<open>key_from_value\<close> for each of the four registries, and a call of it is the key that the class of the
  registry uses: the address of an adapter or a peripheral, the UUID of a service or a characteristic,
  never the version that throws.
\<close>

theorem registry_keys_selected:
  assumes "simpleble_types X"
  shows "key_call X (AdapterRegistry_T X) (Some (ble_call (ad_address (e_ble E) h))) None = Some (pc_key (adapter_class E) h) \<and>
    key_call X (PeripheralRegistry_T X) (Some (ble_call (pe_address (e_ble E) p))) None = Some (pc_key (peripheral_class E) p) \<and>
    key_call X (ServiceRegistry_T X) None (Some (retA (bs_uuid s))) = Some (pc_key (service_class E) s) \<and>
    key_call X (CharacteristicRegistry_T X) None (Some (retA (bc_uuid c))) = Some (pc_key (characteristic_class E) c)"
  using assms by (simp_all add: key_call_def registry_aliases key_overload_cases BluetoothAddressable_def UUIDable_def
      call_result_def simpleble_types_def adapter_class_def peripheral_class_def service_class_def characteristic_class_def)

theorem registry_keys_selected_witness:
  "key_call sample_ext (ServiceRegistry_T sample_ext) None (Some (retA (bs_uuid (\<lparr>bs_uuid = ''180F'', bs_data = [], bs_characteristics = []\<rparr>)))) =
     Some (pc_key (service_class sample_env) (\<lparr>bs_uuid = ''180F'', bs_data = [], bs_characteristics = []\<rparr>))"
  using registry_keys_selected [OF sample_ext_types(1), of sample_env] by blast

text \<open>
  Which version of \<open>to_ruby_value\<close> the compiler takes for an argument of any type: the one for objects of the
  program only for the five wrapped classes and pointers to them. The arguments of \<open>std::derived_from\<close>
  in \<open>RiceObject\<close> are swapped, so the version for Rice objects takes \<open>Rice::Object\<close> alone, and a class derived
  from it, such as \<open>Rice::String\<close>, is converted to \<open>VALUE\<close> if it can be.
\<close>

theorem to_ruby_value_selected:
  assumes "rice_types X"
  shows "value_overload X T =
    (if T = VALUE_T then Some From_VALUE
     else if T = Rice_Object then Some From_Rice_object
     else if T \<in> set proxy_types then Some From_object
     else if \<exists>P. T = Pointer_T P \<and> remove_const P \<in> set proxy_types then Some From_pointer
     else if \<exists>P. T = Shared_ptr_T P \<and> P \<in> set proxy_types then Some From_shared_ptr
     else if to_VALUE X T then Some From_VALUE else None)"
  using best_value [where conv = "to_VALUE X T" and obj = "T = Rice_Object" and own = "T \<in> set proxy_types"
      and ptr = "\<exists>P. T = Pointer_T P \<and> remove_const P \<in> set proxy_types"
      and shared = "\<exists>P. T = Shared_ptr_T P \<and> P \<in> set proxy_types" and T = T]
  unfolding value_overload_viable [OF assms]
  by (auto simp: proxy_types_def to_VALUE_def)

theorem to_ruby_value_selected_witness:
  "value_overload sample_ext (Shared_ptr_T Service_T) = Some From_shared_ptr \<and>
   value_overload sample_ext Rice_String = Some From_VALUE \<and> value_overload sample_ext Callback_T = None"
  using to_ruby_value_selected [OF sample_ext_types(2), of "Shared_ptr_T Service_T"]
    to_ruby_value_selected [OF sample_ext_types(2), of Rice_String] to_ruby_value_selected [OF sample_ext_types(2), of Callback_T]
  by (simp add: proxy_types_def to_VALUE_def sample_ext_def)


end
