(* ===== verification/Construction.thy ===== *)
theory Construction imports RuBLE_Prelude begin

text \<open>
  The constructors of the wrapped classes, member by member: C++ initialises the members in the order of
  their declaration, whatever the order of the initialiser list. A member whose initialiser allocates a Ruby
  object can start a collection, which calls the \<open>ruby_mark\<close> of an object that is still being built when
  its own Ruby object exists already and is found on the stack, and frees that Ruby object when it is not
  found. Relied on: Ruby can collect at any allocation, and Rice's \<open>Data_Object(*this)\<close> allocates an
  object that is marked by the \<open>ruby_mark\<close> of its class.
\<close>

datatype built_class = B_Adapter | B_Peripheral | B_Service | B_Characteristic | B_Descriptor | B_Registry

text \<open>
  What an initialiser does: it computes a value from other members, it allocates the Ruby object of the
  object itself, or it asks the factory for a registry, which reads the members that the hash of the
  owner reads and allocates the Ruby object of the registry if that is new.
\<close>

datatype initialiser = Plain "string list" | Own_object | Child_registry "string list"

subsection \<open>Members in the order of declaration\<close>

definition adapter_declared :: "string list" where
  "adapter_declared = [''_self'', ''_adapter'', ''_addr'', ''_on_scan_start'', ''_on_scan_stop'', ''_on_scan_update'',
     ''_on_scan_find'', ''_peripheral_registry'']"

definition peripheral_declared :: "string list" where
  "peripheral_declared = [''_owner'', ''_peripheral'', ''_addr'', ''_addr_type'', ''_on_connected'', ''_on_disconnected'',
     ''_service_registry'', ''_service_cache_tag'', ''_self'', ''_resource_identifier'']"

definition service_declared :: "string list" where
  "service_declared = [''_owner'', ''_service'', ''_characteristic_registry'', ''_uuid'', ''_self'']"

text \<open>The members of the base class \<open>CharacteristicValueTracker\<close> come first.\<close>

definition characteristic_declared :: "string list" where
  "characteristic_declared = [''_track_values'', ''_value'', ''_owner'', ''_characteristic'', ''_uuid'', ''_on_notify'',
     ''_on_indicate'', ''_capabilities'', ''_descriptors'', ''_self'']"

definition descriptor_declared :: "string list" where
  "descriptor_declared = [''_uuid'', ''_owner'', ''_self'']"

definition registry_declared :: "string list" where
  "registry_declared = [''_self'', ''_mtx'', ''_owner'', ''_registry'']"

fun declared :: "built_class \<Rightarrow> string list" where
  "declared B_Adapter = adapter_declared" | "declared B_Peripheral = peripheral_declared"
| "declared B_Service = service_declared" | "declared B_Characteristic = characteristic_declared"
| "declared B_Descriptor = descriptor_declared" | "declared B_Registry = registry_declared"

subsection \<open>Initialiser lists, as they are written\<close>

definition adapter_initialisers :: "(string \<times> initialiser) list" where
  "adapter_initialisers = [(''_adapter'', Plain []), (''_addr'', Plain [''_adapter'']),
     (''_peripheral_registry'', Child_registry [''_adapter'']),
     (''_on_scan_start'', Plain []), (''_on_scan_stop'', Plain []), (''_on_scan_update'', Plain []),
     (''_on_scan_find'', Plain []), (''_self'', Own_object)]"

definition peripheral_initialisers :: "(string \<times> initialiser) list" where
  "peripheral_initialisers = [(''_owner'', Plain []), (''_peripheral'', Plain []), (''_addr'', Plain [''_peripheral'']),
     (''_addr_type'', Plain [''_peripheral'']), (''_on_connected'', Plain []), (''_on_disconnected'', Plain []),
     (''_self'', Own_object), (''_service_registry'', Child_registry [''_peripheral''])]"

definition service_initialisers :: "(string \<times> initialiser) list" where
  "service_initialisers = [(''_owner'', Plain []), (''_service'', Plain []), (''_uuid'', Plain [''_service'']),
     (''_characteristic_registry'', Child_registry [''_service'']), (''_self'', Own_object)]"

definition characteristic_initialisers :: "(string \<times> initialiser) list" where
  "characteristic_initialisers = [(''_owner'', Plain []), (''_characteristic'', Plain []),
     (''_uuid'', Plain [''_characteristic'']), (''_self'', Own_object)]"

definition descriptor_initialisers :: "(string \<times> initialiser) list" where
  "descriptor_initialisers = [(''_owner'', Plain []), (''_uuid'', Plain []), (''_self'', Own_object)]"

definition registry_initialisers :: "(string \<times> initialiser) list" where
  "registry_initialisers = [(''_owner'', Plain []), (''_registry'', Plain []), (''_mtx'', Plain []), (''_self'', Own_object)]"

fun written :: "built_class \<Rightarrow> (string \<times> initialiser) list" where
  "written B_Adapter = adapter_initialisers" | "written B_Peripheral = peripheral_initialisers"
| "written B_Service = service_initialisers" | "written B_Characteristic = characteristic_initialisers"
| "written B_Descriptor = descriptor_initialisers" | "written B_Registry = registry_initialisers"

text \<open>What is run: every member in the order of declaration, with its initialiser or by default.\<close>

definition init_order :: "built_class \<Rightarrow> (string \<times> initialiser) list" where
  "init_order cls = map (\<lambda>m. (m, case map_of (written cls) m of None \<Rightarrow> Plain [] | Some i \<Rightarrow> i)) (declared cls)"

text \<open>The members that \<open>ruby_mark\<close> of the class reads.\<close>

fun mark_reads :: "built_class \<Rightarrow> string list" where
  "mark_reads B_Adapter = [''_peripheral_registry'', ''_on_scan_start'', ''_on_scan_stop'', ''_on_scan_update'', ''_on_scan_find'']"
| "mark_reads B_Peripheral = [''_self'', ''_on_connected'', ''_on_disconnected'', ''_service_registry'']"
| "mark_reads B_Service = [''_self'', ''_characteristic_registry'']"
| "mark_reads B_Characteristic = [''_self'', ''_value'', ''_on_indicate'', ''_on_notify'', ''_descriptors'']"
| "mark_reads B_Descriptor = []"
| "mark_reads B_Registry = [''_self'', ''_registry'']"

subsection \<open>Building an object\<close>

text \<open>What a collection that an allocation starts does to the Ruby object of the object being built.\<close>

datatype collection = No_collection | Finds_it | Misses_it

datatype own_value = No_value | Live_value | Freed_value

record building =
  b_built :: "string list"
  b_value :: own_value

definition collect :: "built_class \<Rightarrow> collection \<Rightarrow> building \<Rightarrow> building result" where
  "collect cls c b = (if b_value b \<noteq> Live_value then Inr b
     else case c of
       No_collection \<Rightarrow> Inr b
     | Finds_it \<Rightarrow> if list_all (\<lambda>m. m \<in> set (b_built b)) (mark_reads cls) then Inr b else Inl UndefinedBehaviour
     | Misses_it \<Rightarrow> Inr (b\<lparr>b_value := Freed_value\<rparr>))"

definition reading :: "string list \<Rightarrow> building \<Rightarrow> building result" where
  "reading ms b = (if list_all (\<lambda>m. m \<in> set (b_built b)) ms then Inr b else Inl UndefinedBehaviour)"

fun init_member :: "built_class \<Rightarrow> (string \<Rightarrow> collection) \<Rightarrow> string \<times> initialiser \<Rightarrow> building \<Rightarrow> building result" where
  "init_member cls gc (m, Plain ms) b = bindR (reading ms b) (\<lambda>b. Inr (b\<lparr>b_built := m # b_built b\<rparr>))"
| "init_member cls gc (m, Own_object) b = bindR (collect cls (gc m) b) (\<lambda>b.
     Inr (b\<lparr>b_built := m # b_built b, b_value := Live_value\<rparr>))"
| "init_member cls gc (m, Child_registry ms) b = bindR (reading ms b) (\<lambda>b. bindR (collect cls (gc m) b) (\<lambda>b.
     Inr (b\<lparr>b_built := m # b_built b\<rparr>)))"

definition build :: "built_class \<Rightarrow> (string \<Rightarrow> collection) \<Rightarrow> (string \<times> initialiser) list \<Rightarrow> building result" where
  "build cls gc inits = foldR (init_member cls gc) inits \<lparr>b_built = [], b_value = No_value\<rparr>"

definition construct :: "built_class \<Rightarrow> (string \<Rightarrow> collection) \<Rightarrow> building result" where
  "construct cls gc = build cls gc (init_order cls)"

lemmas declared_members = adapter_declared_def peripheral_declared_def service_declared_def characteristic_declared_def
  descriptor_declared_def registry_declared_def

lemmas written_initialisers = adapter_initialisers_def peripheral_initialisers_def service_initialisers_def
  characteristic_initialisers_def descriptor_initialisers_def registry_initialisers_def

lemmas building_defs = construct_def build_def init_order_def declared_members written_initialisers collect_def reading_def

lemma construct_others:
  "cls \<noteq> B_Adapter \<Longrightarrow> construct cls gc = Inr \<lparr>b_built = rev (declared cls), b_value = Live_value\<rparr>"
  by (cases cls) (simp_all add: building_defs)

lemma construct_adapter:
  "construct B_Adapter gc = (case gc ''_peripheral_registry'' of
      No_collection \<Rightarrow> Inr \<lparr>b_built = rev adapter_declared, b_value = Live_value\<rparr>
    | Finds_it \<Rightarrow> Inl UndefinedBehaviour
    | Misses_it \<Rightarrow> Inr \<lparr>b_built = rev adapter_declared, b_value = Freed_value\<rparr>)"
  by (simp add: building_defs split: collection.split)

lemma build_written_adapter:
  "build B_Adapter gc adapter_initialisers = Inr \<lparr>b_built = rev (map fst adapter_initialisers), b_value = Live_value\<rparr>"
  by (simp add: building_defs)

subsection \<open>Properties\<close>


end
