(* ===== verification/Spec2Isabelle.thy ===== *)
theory Spec2Isabelle
  imports Std_Map Hexadecimal Byte_Array Text_Join Named_Bit_Set Callback_Traits Ruby_Context
    Async_Wait Ruby_Queue Hashing Value_Tracker Registry Gatt_World Gatt_Objects Gatt_Access
    Adapter_Ops Lifecycle Gatt_Program Gatt_Properties Gatt_Lookup Gatt_Delivery Gatt_Shutdown
    Queue_Refinement Event_Delivery Inspection Exception_Handling Rubyable Ruby_Interface Startup
    Garbage_Collection Singleton Accessors Registry_Threads Ruby_Calls Object_Lifetime Memory_Safety
    Ruby_Sessions World_Properties Callback_Safety Cpp_Types Construction
begin

text \<open>
  A verification development for RuBLE, the Ruby binding of the Bluetooth library SimpleBLE. The
  program is the C++ extension under \<open>src/ext/ruble\<close>; all paths below are relative to it.

  THE PROGRAM. SimpleBLE has adapters, peripherals, services, characteristics and descriptors. For each
  of them the extension keeps a proxy that Ruby sees (\<open>bindings/\<close>). Proxies are made on demand and kept
  in registries, one per owner, which a factory per class keeps by the hash of the owner
  (\<open>management/Registry.hpp\<close>, \<open>RegistryFactory.hpp\<close>). Ruby calls the proxies, which call SimpleBLE.
  SimpleBLE calls back from threads of its own, which may not touch Ruby: the closures push a callback
  onto the queue (\<open>management/RubyQueue\<close>), and a thread known to Ruby takes the callbacks from there and
  runs them under Ruby's lock. Around this core there are value classes (byte arrays, sets of flags,
  callbacks), the knowledge of whether a thread may call Ruby (\<open>utils/ruby_context.hpp\<close>), start-up,
  shutdown and the marking of Ruby objects for the garbage collector.

  THEORIES AND CODE.
  \<^item> \<open>RuBLE_Prelude\<close>: results, effectful computations over a state (\<open>act\<close>) with their invariant rule
    \<open>keeps\<close>, reachability, and the locales \<open>inductive_invariant\<close>, \<open>simulation\<close> and \<open>three_way\<close> that the
    components interpret. \<open>Ruby_Values\<close>: what the code sees of Ruby values.
  \<^item> \<open>Std_Map\<close>, \<open>Text_Join\<close>: \<open>std::map\<close> as a sorted association list, \<open>map_by\<close> and \<open>join\<close> of
    \<open>utils/containers.hpp\<close>. \<open>Hexadecimal\<close>, \<open>Inspection\<close>: \<open>utils/hexadecimal.hpp\<close>, \<open>inspection.hpp\<close>,
    \<open>inspection.cpp\<close>, \<open>human_type_names.hpp\<close>. \<open>Hashing\<close>: \<open>utils/hash.cpp\<close>. \<open>Async_Wait\<close>:
    \<open>utils/async.hpp\<close>.
  \<^item> \<open>Byte_Array\<close>, \<open>Named_Bit_Set\<close>, \<open>Callback_Traits\<close>: \<open>containers/\<close> and \<open>utils/RubyCallbackTraits\<close>.
    \<open>Value_Tracker\<close>, \<open>Rubyable\<close>: \<open>concerns/\<close>. \<open>Ruby_Context\<close>: the guards of \<open>utils/ruby_context.hpp\<close> and
    \<open>ensure_ruby\<close>. \<open>Exception_Handling\<close>: \<open>utils/exception_handling\<close> and \<open>cpp_protect\<close>.
  \<^item> \<open>Ruby_Queue\<close>: every atomic action of \<open>management/RubyQueue.cpp\<close> (\<open>q_step\<close> interleaves them);
    \<open>Queue_Refinement\<close>: the queue implements a last-in first-out list.
  \<^item> \<open>Registry\<close>: \<open>fetch\<close> and the other operations over a proxy class given as a record, with the locale
    \<open>proxy_registry\<close> of what a registry needs from its class; \<open>Registry_Spec\<close>: fetching refines
    get-or-create on a partial function. \<open>Registry_Threads\<close>: \<open>fetch\<close> and \<open>RegistryFactory::registry\<close>
    action by action, called by any number of threads. \<open>Singleton\<close>: the \<open>instance()\<close> functions likewise.
  \<^item> \<open>Gatt_World\<close> (the state: the proxies by number, the registries, the globals of
    \<open>bindings/globals.cpp\<close>, SimpleBLE as the record \<open>ble\<close> of its functions), \<open>Gatt_Objects\<close> (the constructors
    and the invariant \<open>graph_ok\<close>), \<open>Gatt_Access\<close> (the members of \<open>Peripheral\<close>, \<open>Service\<close>,
    \<open>Characteristic\<close>, \<open>Descriptor\<close>), \<open>Adapter_Ops\<close> (the members of \<open>Adapter\<close>, the closures given to
    SimpleBLE and the queued callbacks, the text forms), \<open>Lifecycle\<close> (\<open>DeInit\<close> and the \<open>ruby_mark\<close>
    members), \<open>Gatt_Program\<close> (\<open>prog_step\<close>: calls from Ruby, events, callbacks, collections, in any order).
  \<^item> \<open>Event_Delivery\<close>: the queue and the proxies in one transition system. \<open>Ruby_Interface\<close>: the
    \<open>Init_*\<close> functions as scripts of Rice calls, run by \<open>run_init\<close>. \<open>Startup\<close>: \<open>Init_RuBLE\<close>.
    \<open>Garbage_Collection\<close>: \<open>utils/garbage_collection.cpp\<close>. \<open>Accessors\<close>: the small members of the wrapped
    classes, the text form of a registry, the wrappers of the hexadecimal text, and the conversions of
    \<open>utils/ruby.hpp\<close> to Ruby values.
  \<^item> \<open>Ruby_Calls\<close>: a method call as Ruby sees it, \<open>ruby_send\<close>: the table made by the \<open>Init_*\<close> functions
    gives the C++ function, the arguments are converted, the function runs on the proxy.
    \<open>World_Properties\<close>: the locale \<open>world_property\<close>, what a property of the state has to survive for every
    member, method and callback to keep it; \<open>Object_Lifetime\<close> interprets it for the proxies that exist
    (none is destroyed), \<open>Callback_Safety\<close> for the callbacks that SimpleBLE and the queue hold.
    \<open>Memory_Safety\<close>: what each member relies on; \<open>Ruby_Sessions\<close>: whole sessions of such calls, events,
    callbacks and collections.
  \<^item> \<open>Cpp_Types\<close>: what the compiler decides: the types and aliases of \<open>types/\<close>, the concepts, the
    specialisations of \<open>std::hash\<close> and \<open>Rice::ruby_mark\<close>, and which overload a concept selects.
    \<open>Construction\<close>: the constructors member by member, with collections in between (in the sessions a
    collection happens between two operations).

  WHAT IS SHOWN.
  \<^item> The object graph is well formed in every state that calls, events, callbacks, collections and
    exceptions can reach (\<open>Gatt_Properties\<close>, \<open>Event_Delivery\<close>); a registry has one proxy per key and makes
    none during a collection; operations reach SimpleBLE with the UUIDs of the proxy they are called
    on (\<open>Gatt_Properties\<close>, \<open>Gatt_Lookup\<close>); notifications are delivered, and in which order
    (\<open>Gatt_Delivery\<close>, \<open>Event_Delivery\<close>).
  \<^item> No method call from Ruby on a proxy that exists runs into undefined behaviour, in any state a
    session reaches (\<open>Ruby_Sessions\<close>): no null or dangling pointer is followed. Nor does an event or a
    queued callback, as long as subscribing to indications does not fail (\<open>Callback_Safety\<close>); when it fails
    in the constructor of a characteristic, SimpleBLE keeps a dangling callback (\<open>Ruby_Sessions\<close>).
  \<^item> Threads: \<open>fetch\<close> is linearizable, never blocks for good and makes one proxy per key; the racing
    \<open>registry()\<close> of a factory leaves all threads with one registry; \<open>instance()\<close> makes one factory.
  \<^item> The queue has no fault below a backlog of 65535 callbacks, loses none, runs at most one after a
    stop, and ends after it; it is last-in first-out and can starve a callback; start-up,
    \<open>ensure_started\<close> and \<open>stop_on_exit\<close> return in bounded time.
  \<^item> Marking an object keeps alive what it refers to, with the exceptions named there; the shutdown
    runs once; at most one factory is made per class; every method given to Ruby is a member of the
    class it is defined for, with two exceptions, and every class variable holds a class of its type.
  \<^item> The keys that the registries of the model use are those of the overload of \<open>key_from_value\<close> that the
    concepts select; which overload of \<open>to_ruby_value\<close> an argument of any type gets (\<open>Cpp_Types\<close>).
  \<^item> A collection while an object is built does no harm, except to adapters (\<open>Construction\<close>).
  \<^item> The value classes: round trips, exact results on every branch, total orders, widths.
  Properties that show a defect say so in their text; the model keeps the code's behaviour.

  BOUNDS AND FUEL. Machine integers are words of their width. \<open>wait_until\<close> is a partial function: that it
  returns is proved, with a bound from the timeout and the 250 ms sleep (61 rounds for 15 s, 5 for
  1 s). \<open>loop_steps\<close> and \<open>sys_loop\<close> run the loop for a number of actions; five actions run one
  callback, six end the loop after a stop, and the properties name the number they use. The
  interleavings themselves are relations and have no bound.

  PARAMETERS. SimpleBLE (\<open>ble\<close>), Ruby's conversions and calls (\<open>ruby_api\<close>, \<open>e_call\<close>), the call with
  the interpreter's lock, the hash of strings, \<open>std::format\<close>, the endianness, the demangler and the types of
  Rice and SimpleBLE (\<open>cpp_ext\<close>) are arguments of the definitions; what is assumed of them is a named
  hypothesis, with a concrete function that meets it.

  NOT MODELLED. Output to the standard streams and Valgrind calls; Rice's own work (wrapping, type
  conversion, keepAlive, how it calls the marking functions); what the Ruby runtime does to a killed
  thread; memory-model effects below the level of atomic actions; of the types, forward declarations,
  friends, the unused range concepts and the aliases of C function types, which nothing depends on; the
  Ruby part of the gem, the build and the test scripts.
\<close>

end
